(* ===== verification/OB_Prelude.thy ===== *)
theory OB_Prelude
  imports Main "HOL-Library.Word" "HOL-Library.Multiset" "HOL-Library.Signed_Division"
begin

text \<open>
  Shared vocabulary of the development: the Go types every component uses (\<open>int64\<close>, \<open>uuid.UUID\<close>,
  \<open>time.Time\<close>, run-time panics), the wrap-around arithmetic of \<open>int64\<close>, the collections the
  component theories add their facts to, and generic lemmas on lists, sums and maps.
\<close>

section \<open>Fact collections\<close>

named_theorems i64_simps \<open>machine arithmetic that cannot wrap under its side conditions\<close>
named_theorems wallet_defs \<open>definitions of the wallet operations\<close>
named_theorems book_defs \<open>definitions of the order-book operations\<close>
named_theorems repo_defs \<open>definitions of the repository operations\<close>
named_theorems safe_intros \<open>actions that keep the schema's invariant\<close>

section \<open>Go's basic types\<close>

type_synonym int64 = int
type_synonym uuid = "128 word"
type_synonym time = int

text \<open>Run-time panics of the constructs the program uses.\<close>

datatype go_panic = NilDereference | DivideByZero | IndexOutOfRange

text \<open>
  An \<open>int64\<close> is an \<open>int\<close> between \<open>MinInt64\<close> and \<open>MaxInt64\<close>; every arithmetic operator of the
  source is followed by \<open>wrap64\<close>, the reduction to two's complement.
\<close>

definition MaxInt64 :: int where
  "MaxInt64 = 9223372036854775807"

definition MinInt64 :: int where
  "MinInt64 = - 9223372036854775808"

definition in64 :: "int \<Rightarrow> bool" where
  "in64 x \<longleftrightarrow> MinInt64 \<le> x \<and> x \<le> MaxInt64"

definition wrap64 :: "int \<Rightarrow> int64" where
  "wrap64 x = (x + 9223372036854775808) mod 18446744073709551616 - 9223372036854775808"

definition i64_add :: "int64 \<Rightarrow> int64 \<Rightarrow> int64" where
  "i64_add a b = wrap64 (a + b)"

definition i64_sub :: "int64 \<Rightarrow> int64 \<Rightarrow> int64" where
  "i64_sub a b = wrap64 (a - b)"

definition i64_mul :: "int64 \<Rightarrow> int64 \<Rightarrow> int64" where
  "i64_mul a b = wrap64 (a * b)"

text \<open>Go's \<open>/\<close> truncates towards zero and panics on a zero divisor.\<close>

definition i64_quot :: "int64 \<Rightarrow> int64 \<Rightarrow> go_panic + int64" where
  "i64_quot a b = (if b = 0 then Inl DivideByZero else Inr (wrap64 (a sdiv b)))"

lemma wrap64_is_word_arith: "wrap64 x = sint (word_of_int x :: 64 word)"
  by (simp add: wrap64_def sint_sbintrunc' signed_take_bit_eq_take_bit_shift take_bit_eq_mod)

lemma wrap64_in64 [simp]: "in64 (wrap64 x)"
  by (auto simp: in64_def wrap64_def MinInt64_def MaxInt64_def)

lemma wrap64_id [i64_simps]: "in64 x \<Longrightarrow> wrap64 x = x"
  by (simp add: in64_def wrap64_def MinInt64_def MaxInt64_def)

lemma i64_add_id [i64_simps]: "in64 (a + b) \<Longrightarrow> i64_add a b = a + b"
  by (simp add: i64_add_def i64_simps)

lemma i64_sub_id [i64_simps]: "in64 (a - b) \<Longrightarrow> i64_sub a b = a - b"
  by (simp add: i64_sub_def i64_simps)

lemma i64_mul_id [i64_simps]: "in64 (a * b) \<Longrightarrow> i64_mul a b = a * b"
  by (simp add: i64_mul_def i64_simps)

lemma in64_arith [simp]: "in64 (i64_add a b)" "in64 (i64_sub a b)" "in64 (i64_mul a b)"
  by (simp_all add: i64_add_def i64_sub_def i64_mul_def)

lemma in64_between: "in64 a \<Longrightarrow> in64 b \<Longrightarrow> a \<le> x \<Longrightarrow> x \<le> b \<Longrightarrow> in64 x"
  by (auto simp: in64_def)

lemma in64_0 [simp]: "in64 0"
  by (simp add: in64_def MinInt64_def MaxInt64_def)

lemma in64_diff_nonneg: "in64 a \<Longrightarrow> 0 \<le> a \<Longrightarrow> in64 b \<Longrightarrow> 0 \<le> b \<Longrightarrow> in64 (a - b)"
  by (auto simp: in64_def MinInt64_def MaxInt64_def)

text \<open>On the operands the matching engine divides, truncation is ordinary division.\<close>

lemma i64_quot_nonneg [i64_simps]:
  assumes "in64 a" "0 \<le> a" "0 < b"
  shows "i64_quot a b = Inr (a div b)"
proof -
  have "a sdiv b = a div b"
    using assms by (cases "a = 0") (simp_all add: signed_divide_int_def sgn_if)
  moreover have "in64 (a div b)"
  proof (rule in64_between [OF in64_0 assms(1)])
    show "0 \<le> a div b" using assms by (simp add: pos_imp_zdiv_nonneg_iff)
    show "a div b \<le> a"
      using assms by (metis div_by_1 int_one_le_iff_zero_less zdiv_mono2 zero_less_one)
  qed
  ultimately show ?thesis
    using assms(3) by (simp add: i64_quot_def wrap64_id)
qed

end
