(* ===== verification/Order_Domain.thy ===== *)
theory Order_Domain
  imports OB_Prelude
begin

text \<open>
  Package \<open>internal/domain/order\<close>: the order record shared by the book and the persistence layer,
  and its state changes \<open>Fill\<close> and \<open>Cancel\<close>. \<open>Side\<close>, \<open>Type\<close> and \<open>Status\<close> are Go string types: a
  constructor per declared constant and one for every other string (the zero value of an absent
  JSON field, \<open>CANCEL_QUEUED\<close>, a value a validator has not seen). Readings of \<open>time.Now\<close> are
  arguments.
\<close>

section \<open>Data\<close>

datatype Side = SideBuy | SideSell | SideRaw string

datatype OrderType = TypeLimit | TypeMarket | TypeRaw string

datatype Status = StatusOpen | StatusPartiallyFilled | StatusFilled | StatusCancelled
  | StatusRaw string

datatype order_error = ErrFillExceedsRemaining | ErrOrderInvalidQuantity

record Order =
  o_ID :: uuid
  o_UserID :: uuid
  o_Side :: Side
  o_Type :: OrderType
  o_PriceCents :: "int64 option"
  o_Quantity :: int64
  o_FilledQuantity :: int64
  o_Status :: Status
  o_CreatedAt :: time
  o_UpdatedAt :: time

text \<open>The conversions \<open>order.Side(s)\<close>, \<open>string(o.Side)\<close> and their kin.\<close>

definition Side_of_string :: "string \<Rightarrow> Side" where
  "Side_of_string s = (if s = ''BUY'' then SideBuy else if s = ''SELL'' then SideSell else SideRaw s)"

fun string_of_Side :: "Side \<Rightarrow> string" where
  "string_of_Side SideBuy = ''BUY''"
| "string_of_Side SideSell = ''SELL''"
| "string_of_Side (SideRaw s) = s"

definition Type_of_string :: "string \<Rightarrow> OrderType" where
  "Type_of_string s =
     (if s = ''LIMIT'' then TypeLimit else if s = ''MARKET'' then TypeMarket else TypeRaw s)"

fun string_of_Type :: "OrderType \<Rightarrow> string" where
  "string_of_Type TypeLimit = ''LIMIT''"
| "string_of_Type TypeMarket = ''MARKET''"
| "string_of_Type (TypeRaw s) = s"

definition Status_of_string :: "string \<Rightarrow> Status" where
  "Status_of_string s =
     (if s = ''OPEN'' then StatusOpen
      else if s = ''PARTIALLY_FILLED'' then StatusPartiallyFilled
      else if s = ''FILLED'' then StatusFilled
      else if s = ''CANCELLED'' then StatusCancelled
      else StatusRaw s)"

fun string_of_Status :: "Status \<Rightarrow> string" where
  "string_of_Status StatusOpen = ''OPEN''"
| "string_of_Status StatusPartiallyFilled = ''PARTIALLY_FILLED''"
| "string_of_Status StatusFilled = ''FILLED''"
| "string_of_Status StatusCancelled = ''CANCELLED''"
| "string_of_Status (StatusRaw s) = s"

section \<open>Operations\<close>

definition Remaining :: "Order \<Rightarrow> int64" where
  "Remaining ord = i64_sub (o_Quantity ord) (o_FilledQuantity ord)"

definition IsDone :: "Order \<Rightarrow> bool" where
  "IsDone ord \<longleftrightarrow> o_Status ord = StatusFilled \<or> o_Status ord = StatusCancelled"

definition Fill :: "time \<Rightarrow> int64 \<Rightarrow> Order \<Rightarrow> order_error + Order" where
  "Fill now qty ord =
     (if qty \<le> 0 then Inl ErrOrderInvalidQuantity
      else if qty > Remaining ord then Inl ErrFillExceedsRemaining
      else let ord' = ord\<lparr>o_FilledQuantity := i64_add (o_FilledQuantity ord) qty\<rparr>
           in Inr (ord'\<lparr>o_Status := (if Remaining ord' = 0 then StatusFilled else StatusPartiallyFilled),
                        o_UpdatedAt := now\<rparr>))"

definition CancelOrder :: "time \<Rightarrow> Order \<Rightarrow> Order" where
  "CancelOrder now ord =
     (if IsDone ord then ord else ord\<lparr>o_Status := StatusCancelled, o_UpdatedAt := now\<rparr>)"

section \<open>Well-formed orders\<close>

text \<open>The order's quantities are in range and its status says what they say.\<close>

definition order_ok :: "Order \<Rightarrow> bool" where
  "order_ok ord \<longleftrightarrow>
     0 < o_Quantity ord \<and> o_Quantity ord \<le> MaxInt64 \<and>
     0 \<le> o_FilledQuantity ord \<and> o_FilledQuantity ord \<le> o_Quantity ord \<and>
     (case o_Status ord of
        StatusOpen \<Rightarrow> o_FilledQuantity ord = 0
      | StatusPartiallyFilled \<Rightarrow> 0 < o_FilledQuantity ord \<and> o_FilledQuantity ord < o_Quantity ord
      | StatusFilled \<Rightarrow> o_FilledQuantity ord = o_Quantity ord
      | StatusCancelled \<Rightarrow> o_FilledQuantity ord < o_Quantity ord
      | StatusRaw _ \<Rightarrow> False)"

text \<open>An order that may rest: well-formed, live, a priced LIMIT order.\<close>

definition resting_ok :: "Order \<Rightarrow> bool" where
  "resting_ok ord \<longleftrightarrow> order_ok ord \<and> \<not> IsDone ord \<and> o_Type ord = TypeLimit \<and>
     (\<exists>p. o_PriceCents ord = Some p \<and> 0 < p \<and> p \<le> MaxInt64) \<and>
     (o_Side ord = SideBuy \<or> o_Side ord = SideSell)"

lemma in64_order: "order_ok ord \<Longrightarrow> in64 (o_Quantity ord - o_FilledQuantity ord)"
  by (auto simp: order_ok_def in64_def MinInt64_def)

lemma Remaining_eq [simp]: "order_ok ord \<Longrightarrow> Remaining ord = o_Quantity ord - o_FilledQuantity ord"
  by (simp add: Remaining_def i64_sub_id in64_order)

lemma Remaining_nonneg: "order_ok ord \<Longrightarrow> 0 \<le> Remaining ord"
  by (simp add: order_ok_def)

lemma live_iff_remaining: "order_ok ord \<Longrightarrow> o_Status ord \<noteq> StatusCancelled \<Longrightarrow> IsDone ord \<longleftrightarrow> Remaining ord = 0"
  by (cases "o_Status ord") (auto simp: IsDone_def order_ok_def)

lemma live_remaining: "order_ok ord \<Longrightarrow> \<not> IsDone ord \<Longrightarrow> 0 < Remaining ord"
  by (cases "o_Status ord") (auto simp: IsDone_def order_ok_def)

text \<open>A fill of a live order, on every branch.\<close>

definition filled_by :: "time \<Rightarrow> int64 \<Rightarrow> Order \<Rightarrow> Order" where
  "filled_by now qty ord =
     ord\<lparr>o_FilledQuantity := o_FilledQuantity ord + qty,
         o_Status := (if o_FilledQuantity ord + qty = o_Quantity ord then StatusFilled else StatusPartiallyFilled),
         o_UpdatedAt := now\<rparr>"

lemma filled_by_simps [simp]:
  "o_ID (filled_by now q ord) = o_ID ord" "o_UserID (filled_by now q ord) = o_UserID ord"
  "o_Side (filled_by now q ord) = o_Side ord" "o_Type (filled_by now q ord) = o_Type ord"
  "o_PriceCents (filled_by now q ord) = o_PriceCents ord"
  "o_Quantity (filled_by now q ord) = o_Quantity ord"
  "o_FilledQuantity (filled_by now q ord) = o_FilledQuantity ord + q"
  "o_CreatedAt (filled_by now q ord) = o_CreatedAt ord"
  "o_UpdatedAt (filled_by now q ord) = now"
  "o_Status (filled_by now q ord) =
     (if o_FilledQuantity ord + q = o_Quantity ord then StatusFilled else StatusPartiallyFilled)"
  by (simp_all add: filled_by_def)

lemma order_ok_filled:
  "order_ok ord \<Longrightarrow> 0 < q \<Longrightarrow> q \<le> Remaining ord \<Longrightarrow> order_ok (filled_by now q ord)"
  by (auto simp: order_ok_def split: if_splits)

lemma Fill_eq:
  assumes "order_ok ord" "0 < q" "q \<le> Remaining ord"
  shows "Fill now q ord = Inr (filled_by now q ord)"
proof -
  have "in64 (o_FilledQuantity ord + q)"
    using assms by (auto simp: order_ok_def in64_def MinInt64_def)
  moreover have "in64 (o_Quantity ord - (o_FilledQuantity ord + q))"
    using assms by (auto simp: order_ok_def in64_def MinInt64_def)
  ultimately show ?thesis
    using assms by (auto simp: Fill_def Let_def i64_add_id filled_by_def Remaining_def i64_sub_id)
qed

lemma resting_remaining: "resting_ok ord \<Longrightarrow> 0 < Remaining ord"
  by (metis resting_ok_def live_remaining)

lemma resting_ok_filled:
  assumes "resting_ok ord" "0 < q" "q < Remaining ord"
  shows "resting_ok (filled_by now q ord)"
proof -
  have "order_ok (filled_by now q ord)" using assms by (auto simp: resting_ok_def intro: order_ok_filled)
  with assms show ?thesis by (auto simp: resting_ok_def IsDone_def)
qed

section \<open>Properties\<close>

text \<open>
  Filling a well-formed order by a quantity between 1 and what remains succeeds, adds exactly that
  quantity, ends FILLED exactly when nothing remains and keeps the order well-formed; any other
  quantity is rejected with the error the code names, and a rejected fill has no effect.
\<close>

theorem Fill_behaviour:
  assumes "order_ok ord"
  shows "Fill now q ord =
      (if q \<le> 0 then Inl ErrOrderInvalidQuantity
       else if q > o_Quantity ord - o_FilledQuantity ord then Inl ErrFillExceedsRemaining
       else Inr (filled_by now q ord)) \<and>
    (\<forall>ord'. Fill now q ord = Inr ord' \<longrightarrow>
       order_ok ord' \<and> Remaining ord' = Remaining ord - q \<and>
       (o_Status ord' = StatusFilled \<longleftrightarrow> Remaining ord' = 0))"
proof (cases "q \<le> 0 \<or> q > Remaining ord")
  case True
  with assms show ?thesis by (auto simp: Fill_def)
next
  case False
  with assms show ?thesis by (auto simp: Fill_eq order_ok_filled)
qed

theorem Fill_behaviour_witness:
  "Fill 7 4 \<lparr>o_ID = 1, o_UserID = 2, o_Side = SideBuy, o_Type = TypeLimit, o_PriceCents = Some 1000,
      o_Quantity = 10, o_FilledQuantity = 0, o_Status = StatusOpen, o_CreatedAt = 0, o_UpdatedAt = 0\<rparr>
   = Inr \<lparr>o_ID = 1, o_UserID = 2, o_Side = SideBuy, o_Type = TypeLimit, o_PriceCents = Some 1000,
      o_Quantity = 10, o_FilledQuantity = 4, o_Status = StatusPartiallyFilled, o_CreatedAt = 0, o_UpdatedAt = 7\<rparr>"
  using Fill_behaviour [of "\<lparr>o_ID = 1, o_UserID = 2, o_Side = SideBuy, o_Type = TypeLimit,
      o_PriceCents = Some 1000, o_Quantity = 10, o_FilledQuantity = 0, o_Status = StatusOpen,
      o_CreatedAt = 0, o_UpdatedAt = 0\<rparr>" 7 4]
  by (simp add: order_ok_def MaxInt64_def filled_by_def)

end
