(* ===== verification/Wallet_Domain.thy ===== *)
theory Wallet_Domain
  imports OB_Prelude
begin

text \<open>
  Package \<open>internal/domain/wallet\<close>: one user's balances and the seven operations that move money
  between the available and the reserved bucket or settle a trade. A Go method that returns an error
  leaves its receiver as it was: the model returns \<open>Inl\<close> of the error, or \<open>Inr\<close> of the new wallet.
\<close>

section \<open>Data and operations\<close>

datatype wallet_error = ErrInsufficientBRL | ErrInsufficientVibranium | ErrInvalidAmount
  | ErrReleaseExceedsReserve

record Wallet =
  w_UserID :: uuid
  w_BalanceBRLCents :: int64
  w_ReservedBRLCents :: int64
  w_BalanceVibranium :: int64
  w_ReservedVibranium :: int64

definition AvailableBRLCents :: "Wallet \<Rightarrow> int64" where
  "AvailableBRLCents w = i64_sub (w_BalanceBRLCents w) (w_ReservedBRLCents w)"

definition AvailableVibranium :: "Wallet \<Rightarrow> int64" where
  "AvailableVibranium w = i64_sub (w_BalanceVibranium w) (w_ReservedVibranium w)"

definition ReserveBRL :: "int64 \<Rightarrow> Wallet \<Rightarrow> wallet_error + Wallet" where [wallet_defs]:
  "ReserveBRL amountCents w =
     (if amountCents \<le> 0 then Inl ErrInvalidAmount
      else if AvailableBRLCents w < amountCents then Inl ErrInsufficientBRL
      else Inr (w\<lparr>w_BalanceBRLCents := i64_sub (w_BalanceBRLCents w) amountCents,
                  w_ReservedBRLCents := i64_add (w_ReservedBRLCents w) amountCents\<rparr>))"

definition ReserveVibranium :: "int64 \<Rightarrow> Wallet \<Rightarrow> wallet_error + Wallet" where [wallet_defs]:
  "ReserveVibranium qty w =
     (if qty \<le> 0 then Inl ErrInvalidAmount
      else if AvailableVibranium w < qty then Inl ErrInsufficientVibranium
      else Inr (w\<lparr>w_BalanceVibranium := i64_sub (w_BalanceVibranium w) qty,
                  w_ReservedVibranium := i64_add (w_ReservedVibranium w) qty\<rparr>))"

definition ReleaseBRLReservation :: "int64 \<Rightarrow> Wallet \<Rightarrow> wallet_error + Wallet" where [wallet_defs]:
  "ReleaseBRLReservation amountCents w =
     (if amountCents \<le> 0 then Inl ErrInvalidAmount
      else if amountCents > w_ReservedBRLCents w then Inl ErrReleaseExceedsReserve
      else Inr (w\<lparr>w_ReservedBRLCents := i64_sub (w_ReservedBRLCents w) amountCents,
                  w_BalanceBRLCents := i64_add (w_BalanceBRLCents w) amountCents\<rparr>))"

definition ReleaseVibraniumReservation :: "int64 \<Rightarrow> Wallet \<Rightarrow> wallet_error + Wallet" where [wallet_defs]:
  "ReleaseVibraniumReservation qty w =
     (if qty \<le> 0 then Inl ErrInvalidAmount
      else if qty > w_ReservedVibranium w then Inl ErrReleaseExceedsReserve
      else Inr (w\<lparr>w_ReservedVibranium := i64_sub (w_ReservedVibranium w) qty,
                  w_BalanceVibranium := i64_add (w_BalanceVibranium w) qty\<rparr>))"

definition SettleBuyLimitFill :: "int64 \<Rightarrow> int64 \<Rightarrow> Wallet \<Rightarrow> wallet_error + Wallet" where [wallet_defs]:
  "SettleBuyLimitFill priceCents qty w =
     (if priceCents \<le> 0 \<or> qty \<le> 0 then Inl ErrInvalidAmount
      else let cost = i64_mul priceCents qty
           in if cost > w_ReservedBRLCents w then Inl ErrReleaseExceedsReserve
              else Inr (w\<lparr>w_ReservedBRLCents := i64_sub (w_ReservedBRLCents w) cost,
                          w_BalanceVibranium := i64_add (w_BalanceVibranium w) qty\<rparr>))"

definition SettleBuyMarketFill :: "int64 \<Rightarrow> int64 \<Rightarrow> Wallet \<Rightarrow> wallet_error + Wallet" where [wallet_defs]:
  "SettleBuyMarketFill priceCents qty w =
     (if priceCents \<le> 0 \<or> qty \<le> 0 then Inl ErrInvalidAmount
      else let cost = i64_mul priceCents qty
           in if cost > w_BalanceBRLCents w then Inl ErrInsufficientBRL
              else Inr (w\<lparr>w_BalanceBRLCents := i64_sub (w_BalanceBRLCents w) cost,
                          w_BalanceVibranium := i64_add (w_BalanceVibranium w) qty\<rparr>))"

definition SettleSellFill :: "int64 \<Rightarrow> int64 \<Rightarrow> Wallet \<Rightarrow> wallet_error + Wallet" where [wallet_defs]:
  "SettleSellFill priceCents qty w =
     (if priceCents \<le> 0 \<or> qty \<le> 0 then Inl ErrInvalidAmount
      else if qty > w_ReservedVibranium w then Inl ErrReleaseExceedsReserve
      else Inr (w\<lparr>w_ReservedVibranium := i64_sub (w_ReservedVibranium w) qty,
                  w_BalanceBRLCents := i64_add (w_BalanceBRLCents w) (i64_mul priceCents qty)\<rparr>))"

section \<open>The contract of a wallet operation\<close>

definition brl :: "Wallet \<Rightarrow> int" where
  "brl w = w_BalanceBRLCents w + w_ReservedBRLCents w"

definition vib :: "Wallet \<Rightarrow> int" where
  "vib w = w_BalanceVibranium w + w_ReservedVibranium w"

text \<open>No bucket is negative (the CHECK constraints of table \<open>wallets\<close>) and no sum leaves \<open>int64\<close>.\<close>

definition wallet_ok :: "Wallet \<Rightarrow> bool" where
  "wallet_ok w \<longleftrightarrow>
     0 \<le> w_BalanceBRLCents w \<and> 0 \<le> w_ReservedBRLCents w \<and> brl w \<le> MaxInt64 \<and>
     0 \<le> w_BalanceVibranium w \<and> 0 \<le> w_ReservedVibranium w \<and> vib w \<le> MaxInt64"

text \<open>
  Every operation, where it succeeds, keeps the owner and the invariant and changes the user's BRL
  and Vibranium holdings by amounts known beforehand (zero for reservations and releases).
  \<open>fits\<close> is the size condition on its arguments: the cost of a trade is an \<open>int64\<close>.
\<close>

locale wallet_operation =
  fixes op :: "Wallet \<Rightarrow> wallet_error + Wallet" and fits :: bool and dbrl dvib :: int
  assumes keeps_owner: "op w = Inr w' \<Longrightarrow> w_UserID w' = w_UserID w"
    and brl_delta: "fits \<Longrightarrow> wallet_ok w \<Longrightarrow> brl w + dbrl \<le> MaxInt64 \<Longrightarrow> vib w + dvib \<le> MaxInt64 \<Longrightarrow>
      op w = Inr w' \<Longrightarrow> brl w' = brl w + dbrl"
    and vib_delta: "fits \<Longrightarrow> wallet_ok w \<Longrightarrow> brl w + dbrl \<le> MaxInt64 \<Longrightarrow> vib w + dvib \<le> MaxInt64 \<Longrightarrow>
      op w = Inr w' \<Longrightarrow> vib w' = vib w + dvib"
    and nonneg: "fits \<Longrightarrow> wallet_ok w \<Longrightarrow> brl w + dbrl \<le> MaxInt64 \<Longrightarrow> vib w + dvib \<le> MaxInt64 \<Longrightarrow>
      op w = Inr w' \<Longrightarrow> 0 \<le> w_BalanceBRLCents w' \<and> 0 \<le> w_ReservedBRLCents w' \<and>
        0 \<le> w_BalanceVibranium w' \<and> 0 \<le> w_ReservedVibranium w'"
begin

lemma keeps_ok:
  "fits \<Longrightarrow> wallet_ok w \<Longrightarrow> brl w + dbrl \<le> MaxInt64 \<Longrightarrow> vib w + dvib \<le> MaxInt64 \<Longrightarrow>
     op w = Inr w' \<Longrightarrow> wallet_ok w'"
  using nonneg [of w w'] brl_delta [of w w'] vib_delta [of w w'] by (simp add: wallet_ok_def)

lemma contract:
  assumes "fits" "wallet_ok w" "brl w + dbrl \<le> MaxInt64" "vib w + dvib \<le> MaxInt64" "op w = Inr w'"
  shows "wallet_ok w' \<and> w_UserID w' = w_UserID w \<and> brl w' = brl w + dbrl \<and> vib w' = vib w + dvib"
  using keeps_ok [OF assms] keeps_owner [OF assms(5)] brl_delta [OF assms] vib_delta [OF assms] by blast

end

lemma wallet_ok_range:
  assumes "wallet_ok w"
  shows "0 \<le> w_BalanceBRLCents w" "w_BalanceBRLCents w \<le> MaxInt64"
    "0 \<le> w_ReservedBRLCents w" "w_ReservedBRLCents w \<le> MaxInt64"
    "0 \<le> w_BalanceVibranium w" "w_BalanceVibranium w \<le> MaxInt64"
    "0 \<le> w_ReservedVibranium w" "w_ReservedVibranium w \<le> MaxInt64"
  using assms by (auto simp: wallet_ok_def brl_def vib_def)

lemma i64_sub_small [i64_simps]: "0 \<le> a \<Longrightarrow> a \<le> MaxInt64 \<Longrightarrow> 0 \<le> b \<Longrightarrow> b \<le> MaxInt64 \<Longrightarrow> i64_sub a b = a - b"
  by (simp add: i64_sub_id in64_def MinInt64_def MaxInt64_def)

lemma i64_add_small [i64_simps]: "0 \<le> a \<Longrightarrow> 0 \<le> b \<Longrightarrow> a + b \<le> MaxInt64 \<Longrightarrow> i64_add a b = a + b"
  by (simp add: i64_add_id in64_def MinInt64_def)

lemma i64_mul_small [i64_simps]: "0 \<le> a \<Longrightarrow> 0 \<le> b \<Longrightarrow> a * b \<le> MaxInt64 \<Longrightarrow> i64_mul a b = a * b"
  by (simp add: i64_mul_id in64_def MinInt64_def order_trans [of _ 0])

lemma AvailableBRL_eq [simp]:
  "wallet_ok w \<Longrightarrow> AvailableBRLCents w = w_BalanceBRLCents w - w_ReservedBRLCents w"
  by (simp add: AvailableBRLCents_def i64_sub_small wallet_ok_range)

lemma AvailableVibranium_eq [simp]:
  "wallet_ok w \<Longrightarrow> AvailableVibranium w = w_BalanceVibranium w - w_ReservedVibranium w"
  by (simp add: AvailableVibranium_def i64_sub_small wallet_ok_range)

text \<open>Each operation on a well-formed wallet, free of wrap-around.\<close>

lemma ReserveBRL_eq:
  assumes "wallet_ok w"
  shows "ReserveBRL a w =
    (if a \<le> 0 then Inl ErrInvalidAmount
     else if w_BalanceBRLCents w - w_ReservedBRLCents w < a then Inl ErrInsufficientBRL
     else Inr (w\<lparr>w_BalanceBRLCents := w_BalanceBRLCents w - a, w_ReservedBRLCents := w_ReservedBRLCents w + a\<rparr>))"
  using wallet_ok_range [OF assms] assms
  by (auto simp: ReserveBRL_def wallet_ok_def brl_def i64_sub_small i64_add_small)

lemma ReserveVibranium_eq:
  assumes "wallet_ok w"
  shows "ReserveVibranium a w =
    (if a \<le> 0 then Inl ErrInvalidAmount
     else if w_BalanceVibranium w - w_ReservedVibranium w < a then Inl ErrInsufficientVibranium
     else Inr (w\<lparr>w_BalanceVibranium := w_BalanceVibranium w - a, w_ReservedVibranium := w_ReservedVibranium w + a\<rparr>))"
  using wallet_ok_range [OF assms] assms
  by (auto simp: ReserveVibranium_def wallet_ok_def vib_def i64_sub_small i64_add_small)

lemma ReleaseBRL_eq:
  assumes "wallet_ok w"
  shows "ReleaseBRLReservation a w =
    (if a \<le> 0 then Inl ErrInvalidAmount
     else if a > w_ReservedBRLCents w then Inl ErrReleaseExceedsReserve
     else Inr (w\<lparr>w_ReservedBRLCents := w_ReservedBRLCents w - a, w_BalanceBRLCents := w_BalanceBRLCents w + a\<rparr>))"
  using wallet_ok_range [OF assms] assms
  by (auto simp: ReleaseBRLReservation_def wallet_ok_def brl_def i64_sub_small i64_add_small)

lemma ReleaseVibranium_eq:
  assumes "wallet_ok w"
  shows "ReleaseVibraniumReservation a w =
    (if a \<le> 0 then Inl ErrInvalidAmount
     else if a > w_ReservedVibranium w then Inl ErrReleaseExceedsReserve
     else Inr (w\<lparr>w_ReservedVibranium := w_ReservedVibranium w - a, w_BalanceVibranium := w_BalanceVibranium w + a\<rparr>))"
  using wallet_ok_range [OF assms] assms
  by (auto simp: ReleaseVibraniumReservation_def wallet_ok_def vib_def i64_sub_small i64_add_small)

lemma SettleBuyLimit_eq:
  assumes "wallet_ok w" "p * q \<le> MaxInt64" "vib w + q \<le> MaxInt64"
  shows "SettleBuyLimitFill p q w =
    (if p \<le> 0 \<or> q \<le> 0 then Inl ErrInvalidAmount
     else if p * q > w_ReservedBRLCents w then Inl ErrReleaseExceedsReserve
     else Inr (w\<lparr>w_ReservedBRLCents := w_ReservedBRLCents w - p * q, w_BalanceVibranium := w_BalanceVibranium w + q\<rparr>))"
  using wallet_ok_range [OF assms(1)] assms
  by (auto simp: SettleBuyLimitFill_def Let_def vib_def i64_mul_small i64_sub_small i64_add_small)

lemma SettleBuyMarket_eq:
  assumes "wallet_ok w" "p * q \<le> MaxInt64" "vib w + q \<le> MaxInt64"
  shows "SettleBuyMarketFill p q w =
    (if p \<le> 0 \<or> q \<le> 0 then Inl ErrInvalidAmount
     else if p * q > w_BalanceBRLCents w then Inl ErrInsufficientBRL
     else Inr (w\<lparr>w_BalanceBRLCents := w_BalanceBRLCents w - p * q, w_BalanceVibranium := w_BalanceVibranium w + q\<rparr>))"
  using wallet_ok_range [OF assms(1)] assms
  by (auto simp: SettleBuyMarketFill_def Let_def vib_def i64_mul_small i64_sub_small i64_add_small)

lemma SettleSell_eq:
  assumes "wallet_ok w" "brl w + p * q \<le> MaxInt64"
  shows "SettleSellFill p q w =
    (if p \<le> 0 \<or> q \<le> 0 then Inl ErrInvalidAmount
     else if q > w_ReservedVibranium w then Inl ErrReleaseExceedsReserve
     else Inr (w\<lparr>w_ReservedVibranium := w_ReservedVibranium w - q, w_BalanceBRLCents := w_BalanceBRLCents w + p * q\<rparr>))"
proof (cases "p \<le> 0 \<or> q \<le> 0 \<or> q > w_ReservedVibranium w")
  case True
  then show ?thesis by (auto simp: SettleSellFill_def)
next
  case False
  then have "i64_mul p q = p * q" "i64_add (w_BalanceBRLCents w) (p * q) = w_BalanceBRLCents w + p * q"
    using wallet_ok_range [OF assms(1)] assms by (auto simp: brl_def i64_mul_small i64_add_small)
  with False show ?thesis
    using wallet_ok_range [OF assms(1)] by (auto simp: SettleSellFill_def i64_sub_small)
qed

lemmas wallet_op_eqs = ReserveBRL_eq ReserveVibranium_eq ReleaseBRL_eq ReleaseVibranium_eq
  SettleBuyLimit_eq SettleBuyMarket_eq SettleSell_eq

lemma wallet_ops_owner:
  "ReserveBRL a w = Inr w' \<Longrightarrow> w_UserID w' = w_UserID w"
  "ReserveVibranium a w = Inr w' \<Longrightarrow> w_UserID w' = w_UserID w"
  "ReleaseBRLReservation a w = Inr w' \<Longrightarrow> w_UserID w' = w_UserID w"
  "ReleaseVibraniumReservation a w = Inr w' \<Longrightarrow> w_UserID w' = w_UserID w"
  "SettleBuyLimitFill p q w = Inr w' \<Longrightarrow> w_UserID w' = w_UserID w"
  "SettleBuyMarketFill p q w = Inr w' \<Longrightarrow> w_UserID w' = w_UserID w"
  "SettleSellFill p q w = Inr w' \<Longrightarrow> w_UserID w' = w_UserID w"
  by (auto simp: wallet_defs Let_def split: if_splits)

lemmas wallet_contract = wallet_op_eqs brl_def vib_def wallet_ok_def wallet_ops_owner

interpretation reserve_brl: wallet_operation "ReserveBRL a" True 0 0 for a
  by unfold_locales (auto simp: wallet_contract split: if_splits)

interpretation reserve_vib: wallet_operation "ReserveVibranium a" True 0 0 for a
  by unfold_locales (auto simp: wallet_contract split: if_splits)

interpretation release_brl: wallet_operation "ReleaseBRLReservation a" True 0 0 for a
  by unfold_locales (auto simp: wallet_contract split: if_splits)

interpretation release_vib: wallet_operation "ReleaseVibraniumReservation a" True 0 0 for a
  by unfold_locales (auto simp: wallet_contract split: if_splits)

interpretation buy_limit: wallet_operation "SettleBuyLimitFill p q" "p * q \<le> MaxInt64" "- (p * q)" q for p q
  by unfold_locales (auto simp: wallet_contract split: if_splits)

interpretation buy_market: wallet_operation "SettleBuyMarketFill p q" "p * q \<le> MaxInt64" "- (p * q)" q for p q
  by unfold_locales (auto simp: wallet_contract split: if_splits)

interpretation sell: wallet_operation "SettleSellFill p q" True "p * q" "- q" for p q
  by unfold_locales (auto simp: wallet_contract split: if_splits)

section \<open>Properties\<close>

text \<open>The seven operations as one type, to speak of all of them at once.\<close>

datatype wallet_op = OpReserveBRL int64 | OpReserveVibranium int64 | OpReleaseBRL int64
  | OpReleaseVibranium int64 | OpSettleBuyLimit int64 int64 | OpSettleBuyMarket int64 int64
  | OpSettleSell int64 int64

fun run_wallet_op :: "wallet_op \<Rightarrow> Wallet \<Rightarrow> wallet_error + Wallet" where
  "run_wallet_op (OpReserveBRL a) w = ReserveBRL a w"
| "run_wallet_op (OpReserveVibranium a) w = ReserveVibranium a w"
| "run_wallet_op (OpReleaseBRL a) w = ReleaseBRLReservation a w"
| "run_wallet_op (OpReleaseVibranium a) w = ReleaseVibraniumReservation a w"
| "run_wallet_op (OpSettleBuyLimit p q) w = SettleBuyLimitFill p q w"
| "run_wallet_op (OpSettleBuyMarket p q) w = SettleBuyMarketFill p q w"
| "run_wallet_op (OpSettleSell p q) w = SettleSellFill p q w"

fun op_brl :: "wallet_op \<Rightarrow> int" where
  "op_brl (OpSettleBuyLimit p q) = - (p * q)"
| "op_brl (OpSettleBuyMarket p q) = - (p * q)"
| "op_brl (OpSettleSell p q) = p * q"
| "op_brl _ = 0"

fun op_vib :: "wallet_op \<Rightarrow> int" where
  "op_vib (OpSettleBuyLimit p q) = q"
| "op_vib (OpSettleBuyMarket p q) = q"
| "op_vib (OpSettleSell p q) = - q"
| "op_vib _ = 0"

fun op_fits :: "wallet_op \<Rightarrow> bool" where
  "op_fits (OpSettleBuyLimit p q) \<longleftrightarrow> p * q \<le> MaxInt64"
| "op_fits (OpSettleBuyMarket p q) \<longleftrightarrow> p * q \<le> MaxInt64"
| "op_fits _ \<longleftrightarrow> True"

text \<open>
  C31: whatever operation succeeds on a wallet whose buckets are non-negative, it leaves all four
  buckets non-negative, keeps the owner, and changes the user's BRL and Vibranium holdings by exactly
  the cost and the quantity of the trade (by nothing for reservations and releases), provided the
  trade cost and the credited holdings fit \<open>int64\<close>.
\<close>

theorem wallet_operations_sound:
  assumes "wallet_ok w" "op_fits c" "brl w + op_brl c \<le> MaxInt64" "vib w + op_vib c \<le> MaxInt64"
    and "run_wallet_op c w = Inr w'"
  shows "wallet_ok w' \<and> w_UserID w' = w_UserID w \<and> brl w' = brl w + op_brl c \<and> vib w' = vib w + op_vib c"
proof (cases c)
  case (OpReserveBRL a)
  with assms show ?thesis
    using reserve_brl.contract [where w = w and w' = w' and a = a] by simp
next
  case (OpReserveVibranium a)
  with assms show ?thesis
    using reserve_vib.contract [where w = w and w' = w' and a = a] by simp
next
  case (OpReleaseBRL a)
  with assms show ?thesis
    using release_brl.contract [where w = w and w' = w' and a = a] by simp
next
  case (OpReleaseVibranium a)
  with assms show ?thesis
    using release_vib.contract [where w = w and w' = w' and a = a] by simp
next
  case (OpSettleBuyLimit p q)
  with assms show ?thesis
    using buy_limit.contract [where w = w and w' = w' and p = p and q = q] by simp
next
  case (OpSettleBuyMarket p q)
  with assms show ?thesis
    using buy_market.contract [where w = w and w' = w' and p = p and q = q] by simp
next
  case (OpSettleSell p q)
  with assms show ?thesis
    using sell.contract [where w = w and w' = w' and p = p and q = q] by simp
qed

abbreviation seed_wallet :: Wallet where
  "seed_wallet \<equiv> \<lparr>w_UserID = 1, w_BalanceBRLCents = 10000, w_ReservedBRLCents = 0,
     w_BalanceVibranium = 50, w_ReservedVibranium = 20\<rparr>"

theorem wallet_operations_sound_witness:
  "wallet_ok (seed_wallet\<lparr>w_ReservedVibranium := 0, w_BalanceBRLCents := 30000\<rparr>)"
  using wallet_operations_sound [of seed_wallet "OpSettleSell 1000 20"
      "seed_wallet\<lparr>w_ReservedVibranium := 0, w_BalanceBRLCents := 30000\<rparr>"]
  by (simp add: wallet_ok_def brl_def vib_def MaxInt64_def SettleSellFill_def i64_add_def i64_sub_def
      i64_mul_def wrap64_def)

text \<open>
  Releasing what was just reserved restores the wallet exactly, for BRL and for Vibranium.
\<close>

theorem reserve_release_roundtrip:
  assumes "wallet_ok w"
  shows "(ReserveBRL a w = Inr w' \<longrightarrow> ReleaseBRLReservation a w' = Inr w) \<and>
    (ReserveVibranium a w = Inr w' \<longrightarrow> ReleaseVibraniumReservation a w' = Inr w)"
proof (intro conjI impI)
  assume r: "ReserveBRL a w = Inr w'"
  then have "wallet_ok w'" using assms reserve_brl.keeps_ok [of w a w'] by (simp add: wallet_ok_def)
  with r assms wallet_ok_range [OF assms] show "ReleaseBRLReservation a w' = Inr w"
    by (auto simp: ReserveBRL_eq ReleaseBRL_eq split: if_splits)
next
  assume r: "ReserveVibranium a w = Inr w'"
  then have "wallet_ok w'" using assms reserve_vib.keeps_ok [of w a w'] by (simp add: wallet_ok_def)
  with r assms wallet_ok_range [OF assms] show "ReleaseVibraniumReservation a w' = Inr w"
    by (auto simp: ReserveVibranium_eq ReleaseVibranium_eq split: if_splits)
qed

theorem reserve_release_roundtrip_witness:
  "ReleaseBRLReservation 4000 (seed_wallet\<lparr>w_BalanceBRLCents := 6000, w_ReservedBRLCents := 4000\<rparr>)
     = Inr seed_wallet"
  using reserve_release_roundtrip [of seed_wallet 4000
      "seed_wallet\<lparr>w_BalanceBRLCents := 6000, w_ReservedBRLCents := 4000\<rparr>"]
  by (simp add: wallet_ok_def brl_def vib_def MaxInt64_def ReserveBRL_def AvailableBRLCents_def
      i64_add_def i64_sub_def wrap64_def)

text \<open>
  A reservation takes its amount out of the balance and adds it to the reserved bucket, so the
  available amount (balance minus reserved) falls by twice the amount reserved; a wallet can end with
  a negative available balance although it never fails the check. The comment on \<open>ReserveBRL\<close> says
  that the amount moves from the available balance into the reserved bucket.
\<close>

theorem reserve_counts_twice:
  assumes "wallet_ok w" "ReserveBRL a w = Inr w'"
  shows "AvailableBRLCents w' = AvailableBRLCents w - 2 * a \<and>
    (AvailableBRLCents w < 2 * a \<longleftrightarrow> AvailableBRLCents w' < 0)"
proof -
  have "wallet_ok w'" using assms reserve_brl.keeps_ok [of w a w'] by (simp add: wallet_ok_def)
  with assms show ?thesis by (auto simp: ReserveBRL_eq split: if_splits)
qed

theorem reserve_counts_twice_witness:
  "ReserveBRL 9000 seed_wallet = Inr (seed_wallet\<lparr>w_BalanceBRLCents := 1000, w_ReservedBRLCents := 9000\<rparr>) \<and>
   AvailableBRLCents (seed_wallet\<lparr>w_BalanceBRLCents := 1000, w_ReservedBRLCents := 9000\<rparr>) = - 8000"
proof -
  have r: "ReserveBRL 9000 seed_wallet = Inr (seed_wallet\<lparr>w_BalanceBRLCents := 1000, w_ReservedBRLCents := 9000\<rparr>)"
    by (simp add: ReserveBRL_def AvailableBRLCents_def i64_add_def i64_sub_def wrap64_def)
  moreover have "wallet_ok seed_wallet" by (simp add: wallet_ok_def brl_def vib_def MaxInt64_def)
  ultimately show ?thesis
    using reserve_counts_twice [OF _ r] by (simp add: wallet_ok_def)
qed

end
