(* ===== verification/Trade_Domain.thy ===== *)
theory Trade_Domain
  imports OB_Prelude
begin

text \<open>Package \<open>internal/domain/trade\<close>: the immutable record of one execution and its constructor.\<close>

datatype trade_error = ErrInvalidTrade

record Trade =
  t_ID :: uuid
  t_BuyOrderID :: uuid
  t_SellOrderID :: uuid
  t_BuyerUserID :: uuid
  t_SellerUserID :: uuid
  t_PriceCents :: int64
  t_Quantity :: int64
  t_ExecutedAt :: time

definition New_Trade ::
  "uuid \<Rightarrow> uuid \<Rightarrow> uuid \<Rightarrow> uuid \<Rightarrow> uuid \<Rightarrow> int64 \<Rightarrow> int64 \<Rightarrow> time \<Rightarrow> trade_error + Trade" where
  "New_Trade i buyOrderID sellOrderID buyerUserID sellerUserID priceCents quantity executedAt =
     (if priceCents \<le> 0 \<or> quantity \<le> 0 then Inl ErrInvalidTrade
      else Inr \<lparr>t_ID = i, t_BuyOrderID = buyOrderID, t_SellOrderID = sellOrderID,
                t_BuyerUserID = buyerUserID, t_SellerUserID = sellerUserID,
                t_PriceCents = priceCents, t_Quantity = quantity, t_ExecutedAt = executedAt\<rparr>)"

definition trade_ok :: "Trade \<Rightarrow> bool" where
  "trade_ok t \<longleftrightarrow> 0 < t_PriceCents t \<and> 0 < t_Quantity t"

lemma New_Trade_ok: "New_Trade i b s bu su p q e = Inr t \<Longrightarrow> trade_ok t"
  by (auto simp: New_Trade_def trade_ok_def split: if_splits)

end
