(* ===== verification/Postgres_Tables.thy ===== *)
theory Postgres_Tables
  imports Order_Domain Wallet_Domain Trade_Domain
begin

text \<open>
  The database the services share, from the migrations under \<open>migrations/\<close>: one list of rows per
  table, the constraints of the schema as guards of the statements, and the way the Go code meets it:
  a statement may fail for reasons of the infrastructure, a transaction commits as a whole or leaves no
  trace, and the answer to a commit may be lost although the commit took place. A program runs in a
  \<open>World\<close> (the database, a counter of external interactions) against an \<open>Env\<close> that fixes what each
  interaction yields: faults, clock readings, fresh ids, JSON. Transactions of different processes are
  taken to be serial: the code locks every row it reads and writes back (\<open>FOR UPDATE\<close>).
\<close>

section \<open>Errors\<close>

datatype app_error =
    PgWalletNotFound | PgOrderNotFound | PgUserNotFound | PgInvalidCursor
  | PgFault | PgConstraint
  | ErrUserNotFound | ErrWalletNotFound | ErrInsufficientBalance | ErrInvalidQuantity | ErrInvalidOrderRequest
  | ErrOrderNotFound | ErrForbidden
  | MarshalError | RedisFault
  | WalletErr wallet_error | TradeErr trade_error
  | CtxCancelled | Panics go_panic | NeverReturns

section \<open>Events\<close>

text \<open>\<open>orders.EventType\<close> and \<open>orders.StreamEvent\<close>; the trace-context strings ride along unread.\<close>

datatype EventType = EventTypeNewOrder | EventTypeCancelOrder | EventTypeRaw string

record StreamEvent =
  ev_Type :: EventType
  ev_OrderID :: uuid
  ev_UserID :: uuid
  ev_Side :: Side
  ev_OrderType :: OrderType
  ev_PriceCents :: "int64 option"
  ev_Quantity :: int64
  ev_RequestedBy :: "uuid option"
  ev_TraceParent :: string
  ev_TraceState :: string

section \<open>Rows and tables\<close>

record User =
  u_ID :: uuid
  u_Username :: string
  u_CreatedAt :: time

record orderRow =
  or_ID :: uuid
  or_UserID :: uuid
  or_Side :: string
  or_Type :: string
  or_PriceCents :: "int64 option"
  or_Quantity :: int64
  or_FilledQuantity :: int64
  or_Status :: string
  or_CreatedAt :: time
  or_UpdatedAt :: time

record OutboxRow =
  ob_ID :: int64
  ob_StreamName :: string
  ob_Payload :: string
  ob_Published :: bool

text \<open>A \<open>walletRow\<close> and a \<open>tradeRow\<close> have exactly the fields of the domain records.\<close>

record DB =
  db_users :: "User list"
  db_wallets :: "Wallet list"
  db_orders :: "orderRow list"
  db_trades :: "Trade list"
  db_processed :: "string list"
  db_outbox :: "OutboxRow list"
  db_outboxSeq :: int64

definition find_row :: "('r \<Rightarrow> 'k) \<Rightarrow> 'k \<Rightarrow> 'r list \<Rightarrow> 'r option" where
  "find_row key k rows = find (\<lambda>r. key r = k) rows"

definition write_rows :: "('r \<Rightarrow> 'k) \<Rightarrow> 'k \<Rightarrow> ('r \<Rightarrow> 'r) \<Rightarrow> 'r list \<Rightarrow> 'r list" where
  "write_rows key k f rows = map (\<lambda>r. if key r = k then f r else r) rows"

section \<open>The laws of a table with a primary key\<close>

locale keyed_table =
  fixes key :: "'r \<Rightarrow> 'k"
    and lookup :: "'k \<Rightarrow> 'r list \<Rightarrow> 'r option"
    and modify :: "'k \<Rightarrow> ('r \<Rightarrow> 'r) \<Rightarrow> 'r list \<Rightarrow> 'r list"
  assumes lookup_law: "distinct (map key rows) \<Longrightarrow> lookup k rows = Some r \<longleftrightarrow> r \<in> set rows \<and> key r = k"
    and modify_law: "modify k f rows = map (\<lambda>r. if key r = k then f r else r) rows"
begin

lemma lookup_none: "distinct (map key rows) \<Longrightarrow> lookup k rows = None \<longleftrightarrow> k \<notin> key ` set rows"
  by (metis image_iff lookup_law not_Some_eq)

lemma modify_keys: "(\<And>r. key r = k \<Longrightarrow> key (f r) = k) \<Longrightarrow> map key (modify k f rows) = map key rows"
  by (auto simp: modify_law)

lemma lookup_modify:
  assumes "distinct (map key rows)" "\<And>r. key r = k \<Longrightarrow> key (f r) = k"
  shows "lookup k' (modify k f rows) = (if k' = k then map_option f (lookup k rows) else lookup k' rows)"
proof -
  have d: "distinct (map key (modify k f rows))" using modify_keys assms by simp
  have "lookup k' (modify k f rows) = Some r \<longleftrightarrow> (if k' = k then map_option f (lookup k rows) else lookup k' rows) = Some r" for r
    using lookup_law [OF d] lookup_law [OF assms(1)] assms(2) by (auto simp: modify_law)
  then show ?thesis by (metis not_Some_eq)
qed

text \<open>A sum over the rows changes by what the written row changes.\<close>

lemma sum_modify:
  fixes g :: "'r \<Rightarrow> int"
  assumes "distinct (map key rows)" "lookup k rows = Some r"
  shows "sum_list (map g (modify k f rows)) = sum_list (map g rows) - g r + g (f r)"
proof -
  have r: "r \<in> set rows" "key r = k" using assms lookup_law by auto
  then obtain us vs where rows: "rows = us @ r # vs" by (meson split_list)
  have "key x \<noteq> k" if "x \<in> set us \<union> set vs" for x
    using assms(1) r rows that by (auto simp: image_iff)
  then have "map (\<lambda>x. if key x = k then f x else x) us = us" "map (\<lambda>x. if key x = k then f x else x) vs = vs"
    by (auto intro!: map_idI)
  then have "modify k f rows = us @ f r # vs" using r by (simp add: modify_law rows)
  then show ?thesis by (simp add: rows)
qed

end

lemma find_row_law: "distinct (map key rows) \<Longrightarrow> find_row key k rows = Some r \<longleftrightarrow> r \<in> set rows \<and> key r = k"
proof (induction rows)
  case (Cons x rows)
  then show ?case by (cases "key x = k") (auto simp: find_row_def image_iff)
qed (simp add: find_row_def)

interpretation wallets: keyed_table w_UserID "find_row w_UserID" "write_rows w_UserID"
  by unfold_locales (simp_all add: find_row_law write_rows_def)

interpretation orders: keyed_table or_ID "find_row or_ID" "write_rows or_ID"
  by unfold_locales (simp_all add: find_row_law write_rows_def)

interpretation outbox: keyed_table ob_ID "find_row ob_ID" "write_rows ob_ID"
  by unfold_locales (simp_all add: find_row_law write_rows_def)

section \<open>The world and its interactions\<close>

datatype fault = Works | Fails | FailsAfterEffect

record World =
  w_db :: DB
  w_step :: nat

text \<open>
  Everything outside the repository, indexed by the interaction's number: which calls fail, what the
  clocks read, which ids \<open>uuid.New\<close> draws, which rows other sessions hold, in which order a scan meets
  the rows, and the JSON functions (\<open>json.Marshal\<close>, \<open>json.Unmarshal\<close>, the JSONB column's normal form).
\<close>

record Env =
  e_fault :: "nat \<Rightarrow> fault"
  e_clock :: "nat \<Rightarrow> time"
  e_uuid :: "nat \<Rightarrow> uuid"
  e_locked :: "nat \<Rightarrow> int64 \<Rightarrow> bool"
  e_scan :: "nat \<Rightarrow> orderRow list \<Rightarrow> orderRow list"
  e_marshal :: "StreamEvent \<Rightarrow> string option"
  e_jsonb :: "string \<Rightarrow> string option"
  e_unmarshal :: "string \<Rightarrow> StreamEvent option"
  e_trace :: "nat \<Rightarrow> string \<times> string"

type_synonym ('w, 'a) action = "'w \<Rightarrow> (app_error + 'a) \<times> 'w"

definition return_ok :: "'a \<Rightarrow> ('w, 'a) action" where
  "return_ok x w = (Inr x, w)"

definition return_err :: "app_error \<Rightarrow> ('w, 'a) action" where
  "return_err e w = (Inl e, w)"

definition bind_ok :: "('w, 'a) action \<Rightarrow> ('a \<Rightarrow> ('w, 'b) action) \<Rightarrow> ('w, 'b) action" where
  "bind_ok m k w = (case m w of (Inl e, w') \<Rightarrow> (Inl e, w') | (Inr x, w') \<Rightarrow> k x w')"

definition tick :: "'z World_scheme \<Rightarrow> 'z World_scheme" where
  "tick w = w\<lparr>w_step := Suc (w_step w)\<rparr>"

text \<open>A reading of \<open>time.Now\<close>, a draw of \<open>uuid.New\<close>.\<close>

definition now :: "Env \<Rightarrow> ('z World_scheme, time) action" where
  "now env w = (Inr (e_clock env (w_step w)), tick w)"

definition new_uuid :: "Env \<Rightarrow> ('z World_scheme, uuid) action" where
  "new_uuid env w = (Inr (e_uuid env (w_step w)), tick w)"

text \<open>A statement: an infrastructure fault, or what it does to the tables, a violated constraint included.\<close>

definition statement :: "Env \<Rightarrow> (nat \<Rightarrow> DB \<Rightarrow> app_error + 'a \<times> DB) \<Rightarrow> ('z World_scheme, 'a) action" where
  "statement env f w =
     (if e_fault env (w_step w) \<noteq> Works then (Inl PgFault, tick w)
      else (case f (w_step w) (w_db w) of
              Inl e \<Rightarrow> (Inl e, tick w)
            | Inr (x, d) \<Rightarrow> (Inr x, tick (w\<lparr>w_db := d\<rparr>))))"

text \<open>Rolling back undoes everything but the draws from a sequence.\<close>

definition rolled_back :: "DB \<Rightarrow> 'z World_scheme \<Rightarrow> 'z World_scheme" where
  "rolled_back d w = w\<lparr>w_db := d\<lparr>db_outboxSeq := db_outboxSeq (w_db w)\<rparr>\<rparr>"

text \<open>\<open>BeginTxx\<close>, the body, \<open>Commit\<close>, and the deferred \<open>Rollback\<close> on every other way out.\<close>

definition commit :: "Env \<Rightarrow> DB \<Rightarrow> 'a \<Rightarrow> ('z World_scheme, 'a) action" where
  "commit env d x w =
     (case e_fault env (w_step w) of
        Works \<Rightarrow> (Inr x, tick w)
      | Fails \<Rightarrow> (Inl PgFault, tick (rolled_back d w))
      | FailsAfterEffect \<Rightarrow> (Inl PgFault, tick w))"

text \<open>A body that returns without reaching \<open>Commit\<close> leaves by the deferred \<open>Rollback\<close>, error or not.\<close>

datatype 'a tx_exit = Commits 'a | Leaves 'a

definition in_tx :: "Env \<Rightarrow> ('z World_scheme, 'a tx_exit) action \<Rightarrow> ('z World_scheme, 'a) action" where
  "in_tx env body w =
     (if e_fault env (w_step w) \<noteq> Works then (Inl PgFault, tick w)
      else (case body (tick w) of
              (Inl e, w') \<Rightarrow> (Inl e, rolled_back (w_db w) w')
            | (Inr (Leaves x), w') \<Rightarrow> (Inr x, rolled_back (w_db w) w')
            | (Inr (Commits x), w') \<Rightarrow> commit env (w_db w) x w'))"

section \<open>Atomicity\<close>

text \<open>Equal tables; a sequence may have advanced.\<close>

definition same_tables :: "DB \<Rightarrow> DB \<Rightarrow> bool" where
  "same_tables d d' \<longleftrightarrow> d\<lparr>db_outboxSeq := 0\<rparr> = d'\<lparr>db_outboxSeq := 0\<rparr>"

lemma same_tables_refl [simp]: "same_tables d d" "same_tables d (d\<lparr>db_outboxSeq := n\<rparr>)" "same_tables (d\<lparr>db_outboxSeq := n\<rparr>) d"
  by (simp_all add: same_tables_def)

lemma tick_simps [simp]: "w_db (tick w) = w_db w" "w_step (tick w) = Suc (w_step w)"
  by (simp_all add: tick_def)

lemma rolled_back_db [simp]: "w_db (rolled_back d w) = d\<lparr>db_outboxSeq := db_outboxSeq (w_db w)\<rparr>"
  by (simp add: rolled_back_def)

lemma in_tx_error:
  assumes "in_tx env body w = (Inl e, w')"
  shows "same_tables (w_db w) (w_db w') \<or>
    e = PgFault \<and> (\<exists>x w1. body (tick w) = (Inr (Commits x), w1) \<and> w' = tick w1 \<and> e_fault env (w_step w1) = FailsAfterEffect)"
  using assms
  by (auto simp: in_tx_def commit_def split: if_splits prod.splits sum.splits tx_exit.splits fault.splits)

lemma in_tx_ok:
  assumes "in_tx env body w = (Inr x, w')"
  shows "(\<exists>w1. body (tick w) = (Inr (Commits x), w1) \<and> w' = tick w1 \<and> e_fault env (w_step w1) = Works) \<or>
    (\<exists>w1. body (tick w) = (Inr (Leaves x), w1) \<and> w' = rolled_back (w_db w) w1)"
  using assms
  by (auto simp: in_tx_def commit_def split: if_splits prod.splits sum.splits tx_exit.splits fault.splits)

lemma bind_ok_Inr:
  "bind_ok m k w = (Inr y, w') \<longleftrightarrow> (\<exists>x w1. m w = (Inr x, w1) \<and> k x w1 = (Inr y, w'))"
  by (auto simp: bind_ok_def split: prod.splits sum.splits)

lemma bind_ok_Inl:
  "bind_ok m k w = (Inl e, w') \<longleftrightarrow> m w = (Inl e, w') \<or> (\<exists>x w1. m w = (Inr x, w1) \<and> k x w1 = (Inl e, w'))"
  by (auto simp: bind_ok_def split: prod.splits sum.splits)

lemma statement_Inr:
  "statement env f w = (Inr x, w') \<longleftrightarrow>
     e_fault env (w_step w) = Works \<and> (\<exists>d. f (w_step w) (w_db w) = Inr (x, d) \<and> w' = tick (w\<lparr>w_db := d\<rparr>))"
  by (auto simp: statement_def split: sum.splits prod.splits)

lemma now_Inr [simp]: "now env w = (Inr t, w') \<longleftrightarrow> t = e_clock env (w_step w) \<and> w' = tick w"
  by (auto simp: now_def)

lemma new_uuid_Inr [simp]: "new_uuid env w = (Inr i, w') \<longleftrightarrow> i = e_uuid env (w_step w) \<and> w' = tick w"
  by (auto simp: new_uuid_def)

lemma return_Inr [simp]: "return_ok x w = (Inr y, w') \<longleftrightarrow> y = x \<and> w' = w" "return_err e w \<noteq> (Inr y, w')"
  by (auto simp: return_ok_def return_err_def)

end
