(* ===== verification/Postgres_Repos.thy ===== *)
theory Postgres_Repos
  imports Postgres_Tables "HOL-Library.Char_ord" "HOL-Library.List_Lexorder"
begin

text \<open>
  The repositories under \<open>internal/infra/postgres\<close>: one definition per method, as the effect of its
  SQL statement on the tables. Constraints come from \<open>migrations/000001_init.up.sql\<close>.
\<close>

section \<open>Wallets\<close>

definition wallet_checks :: "Wallet \<Rightarrow> bool" where
  "wallet_checks w \<longleftrightarrow> 0 \<le> w_BalanceBRLCents w \<and> 0 \<le> w_ReservedBRLCents w \<and>
     0 \<le> w_BalanceVibranium w \<and> 0 \<le> w_ReservedVibranium w"

definition WalletRepo_GetForUpdate :: "Env \<Rightarrow> uuid \<Rightarrow> ('z World_scheme, Wallet) action" where [repo_defs]:
  "WalletRepo_GetForUpdate env userID = statement env (\<lambda>_ d.
     (case find_row w_UserID userID (db_wallets d) of None \<Rightarrow> Inl PgWalletNotFound | Some r \<Rightarrow> Inr (r, d)))"

definition WalletRepo_Get :: "Env \<Rightarrow> uuid \<Rightarrow> ('z World_scheme, Wallet) action" where [repo_defs]:
  "WalletRepo_Get env userID = statement env (\<lambda>_ d.
     (case find_row w_UserID userID (db_wallets d) of None \<Rightarrow> Inl PgWalletNotFound | Some r \<Rightarrow> Inr (r, d)))"

definition WalletRepo_Update :: "Env \<Rightarrow> Wallet \<Rightarrow> ('z World_scheme, unit) action" where [repo_defs]:
  "WalletRepo_Update env wal = statement env (\<lambda>_ d.
     if find_row w_UserID (w_UserID wal) (db_wallets d) \<noteq> None \<and> \<not> wallet_checks wal then Inl PgConstraint
     else Inr ((), d\<lparr>db_wallets := write_rows w_UserID (w_UserID wal)
       (\<lambda>r. r\<lparr>w_BalanceBRLCents := w_BalanceBRLCents wal, w_ReservedBRLCents := w_ReservedBRLCents wal,
              w_BalanceVibranium := w_BalanceVibranium wal, w_ReservedVibranium := w_ReservedVibranium wal\<rparr>)
       (db_wallets d)\<rparr>))"

section \<open>Orders\<close>

definition toOrder :: "orderRow \<Rightarrow> Order" where
  "toOrder r = \<lparr>o_ID = or_ID r, o_UserID = or_UserID r, o_Side = Side_of_string (or_Side r),
     o_Type = Type_of_string (or_Type r), o_PriceCents = or_PriceCents r, o_Quantity = or_Quantity r,
     o_FilledQuantity = or_FilledQuantity r, o_Status = Status_of_string (or_Status r),
     o_CreatedAt = or_CreatedAt r, o_UpdatedAt = or_UpdatedAt r\<rparr>"

text \<open>The columns' enum types and checks, the primary key, the foreign key to \<open>wallets\<close>.\<close>

definition status_enum :: "string \<Rightarrow> bool" where
  "status_enum s \<longleftrightarrow> s \<in> set [''OPEN'', ''PARTIALLY_FILLED'', ''FILLED'', ''CANCELLED'']"

definition order_row_ok :: "orderRow \<Rightarrow> bool" where
  "order_row_ok r \<longleftrightarrow> or_Side r \<in> set [''BUY'', ''SELL''] \<and> or_Type r \<in> set [''LIMIT'', ''MARKET''] \<and>
     status_enum (or_Status r) \<and> 0 < or_Quantity r"

definition row_of_order :: "Order \<Rightarrow> orderRow" where
  "row_of_order ord = \<lparr>or_ID = o_ID ord, or_UserID = o_UserID ord, or_Side = string_of_Side (o_Side ord),
     or_Type = string_of_Type (o_Type ord), or_PriceCents = o_PriceCents ord, or_Quantity = o_Quantity ord,
     or_FilledQuantity = o_FilledQuantity ord, or_Status = string_of_Status (o_Status ord),
     or_CreatedAt = o_CreatedAt ord, or_UpdatedAt = o_UpdatedAt ord\<rparr>"

definition OrderRepo_Insert :: "Env \<Rightarrow> Order \<Rightarrow> ('z World_scheme, unit) action" where [repo_defs]:
  "OrderRepo_Insert env ord = statement env (\<lambda>_ d.
     if order_row_ok (row_of_order ord) \<and> find_row or_ID (o_ID ord) (db_orders d) = None \<and>
        find_row w_UserID (o_UserID ord) (db_wallets d) \<noteq> None
     then Inr ((), d\<lparr>db_orders := db_orders d @ [row_of_order ord]\<rparr>) else Inl PgConstraint)"

definition OrderRepo_Get :: "Env \<Rightarrow> uuid \<Rightarrow> ('z World_scheme, Order) action" where [repo_defs]:
  "OrderRepo_Get env i = statement env (\<lambda>_ d.
     (case find_row or_ID i (db_orders d) of None \<Rightarrow> Inl PgOrderNotFound | Some r \<Rightarrow> Inr (toOrder r, d)))"

definition OrderRepo_GetTx :: "Env \<Rightarrow> uuid \<Rightarrow> ('z World_scheme, Order) action" where [repo_defs]:
  "OrderRepo_GetTx env i = statement env (\<lambda>_ d.
     (case find_row or_ID i (db_orders d) of None \<Rightarrow> Inl PgOrderNotFound | Some r \<Rightarrow> Inr (toOrder r, d)))"

definition OrderRepo_Update :: "Env \<Rightarrow> Order \<Rightarrow> ('z World_scheme, unit) action" where [repo_defs]:
  "OrderRepo_Update env ord = statement env (\<lambda>n d.
     if status_enum (string_of_Status (o_Status ord))
     then Inr ((), d\<lparr>db_orders := write_rows or_ID (o_ID ord)
       (\<lambda>r. r\<lparr>or_FilledQuantity := o_FilledQuantity ord, or_Status := string_of_Status (o_Status ord),
              or_UpdatedAt := e_clock env n\<rparr>) (db_orders d)\<rparr>)
     else Inl PgConstraint)"

text \<open>\<open>ORDER BY created_at\<close> leaves the order of equal times to the scan.\<close>

definition OrderRepo_ListOpenForRecovery :: "Env \<Rightarrow> ('z World_scheme, Order list) action" where [repo_defs]:
  "OrderRepo_ListOpenForRecovery env = statement env (\<lambda>n d.
     Inr (map toOrder (sort_key or_CreatedAt
            (filter (\<lambda>r. or_Status r \<in> set [''OPEN'', ''PARTIALLY_FILLED'']) (e_scan env n (db_orders d)))), d))"

section \<open>Trades\<close>

definition TradeRepo_Insert :: "Env \<Rightarrow> Trade \<Rightarrow> ('z World_scheme, unit) action" where [repo_defs]:
  "TradeRepo_Insert env t = statement env (\<lambda>_ d.
     if find_row t_ID (t_ID t) (db_trades d) = None \<and>
        find_row or_ID (t_BuyOrderID t) (db_orders d) \<noteq> None \<and> find_row or_ID (t_SellOrderID t) (db_orders d) \<noteq> None \<and>
        find_row w_UserID (t_BuyerUserID t) (db_wallets d) \<noteq> None \<and>
        find_row w_UserID (t_SellerUserID t) (db_wallets d) \<noteq> None \<and> 0 < t_Quantity t
     then Inr ((), d\<lparr>db_trades := db_trades d @ [t]\<rparr>) else Inl PgConstraint)"

section \<open>Outbox and processed events\<close>

record OutboxEvent =
  oe_ID :: int64
  oe_StreamName :: string
  oe_Payload :: string

definition OutboxRepo_Insert :: "Env \<Rightarrow> string \<Rightarrow> string \<Rightarrow> ('z World_scheme, unit) action" where [repo_defs]:
  "OutboxRepo_Insert env streamName payload = statement env (\<lambda>_ d.
     (case e_jsonb env payload of
        None \<Rightarrow> Inl PgConstraint
      | Some p \<Rightarrow> Inr ((), d\<lparr>db_outbox := db_outbox d @
          [\<lparr>ob_ID = db_outboxSeq d, ob_StreamName = streamName, ob_Payload = p, ob_Published = False\<rparr>],
          db_outboxSeq := db_outboxSeq d + 1\<rparr>)))"

definition outbox_event :: "OutboxRow \<Rightarrow> OutboxEvent" where
  "outbox_event r = \<lparr>oe_ID = ob_ID r, oe_StreamName = ob_StreamName r, oe_Payload = ob_Payload r\<rparr>"

text \<open>A negative \<open>LIMIT\<close> is an error; rows another session holds are skipped.\<close>

definition OutboxRepo_FetchUnpublishedBatch :: "Env \<Rightarrow> int \<Rightarrow> ('z World_scheme, OutboxEvent list) action" where [repo_defs]:
  "OutboxRepo_FetchUnpublishedBatch env limit = statement env (\<lambda>n d.
     if limit < 0 then Inl PgConstraint
     else Inr (map outbox_event (take (nat limit)
            (filter (\<lambda>r. \<not> e_locked env n (ob_ID r)) (sort_key ob_ID (filter (\<lambda>r. \<not> ob_Published r) (db_outbox d))))), d))"

definition mark_rows :: "int64 list \<Rightarrow> OutboxRow list \<Rightarrow> OutboxRow list" where
  "mark_rows ids rows = map (\<lambda>r. if ob_ID r \<in> set ids then r\<lparr>ob_Published := True\<rparr> else r) rows"

definition OutboxRepo_MarkPublished :: "Env \<Rightarrow> int64 list \<Rightarrow> ('z World_scheme, unit) action" where [repo_defs]:
  "OutboxRepo_MarkPublished env ids =
     (if ids = [] then return_ok ()
      else statement env (\<lambda>_ d. Inr ((), d\<lparr>db_outbox := mark_rows ids (db_outbox d)\<rparr>)))"

definition OutboxRepo_LockIfUnpublished :: "Env \<Rightarrow> int64 \<Rightarrow> ('z World_scheme, bool) action" where [repo_defs]:
  "OutboxRepo_LockIfUnpublished env i = statement env (\<lambda>n d.
     Inr (\<exists>r\<in>set (db_outbox d). ob_ID r = i \<and> \<not> ob_Published r \<and> \<not> e_locked env n i, d))"

definition ProcessedRepo_TryMark :: "Env \<Rightarrow> string \<Rightarrow> string \<Rightarrow> ('z World_scheme, bool) action" where [repo_defs]:
  "ProcessedRepo_TryMark env streamEntryID streamName = statement env (\<lambda>_ d.
     if streamEntryID \<in> set (db_processed d) then Inr (False, d)
     else Inr (True, d\<lparr>db_processed := db_processed d @ [streamEntryID]\<rparr>))"

section \<open>Users\<close>

definition UserRepo_Get :: "Env \<Rightarrow> uuid \<Rightarrow> ('z World_scheme, User) action" where [repo_defs]:
  "UserRepo_Get env i = statement env (\<lambda>_ d.
     (case find_row u_ID i (db_users d) of None \<Rightarrow> Inl PgUserNotFound | Some r \<Rightarrow> Inr (r, d)))"

definition UserRepo_Exists :: "Env \<Rightarrow> uuid \<Rightarrow> ('z World_scheme, bool) action" where [repo_defs]:
  "UserRepo_Exists env i = statement env (\<lambda>_ d. Inr (find_row u_ID i (db_users d) \<noteq> None, d))"

definition UserRepo_List :: "Env \<Rightarrow> ('z World_scheme, User list) action" where [repo_defs]:
  "UserRepo_List env = statement env (\<lambda>_ d. Inr (sort_key u_Username (db_users d), d))"

section \<open>Rows and orders\<close>

definition plain_order :: "Order \<Rightarrow> bool" where
  "plain_order ord \<longleftrightarrow> (o_Side ord = SideBuy \<or> o_Side ord = SideSell) \<and> (o_Type ord = TypeLimit \<or> o_Type ord = TypeMarket) \<and>
     (\<forall>s. o_Status ord \<noteq> StatusRaw s)"

lemma toOrder_row: "plain_order ord \<Longrightarrow> toOrder (row_of_order ord) = ord"
  by (cases "o_Status ord")
    (auto simp: plain_order_def toOrder_def row_of_order_def Side_of_string_def Type_of_string_def Status_of_string_def)

lemma row_toOrder:
  assumes "order_row_ok r"
  shows "row_of_order (toOrder r) = r \<and> plain_order (toOrder r)"
  using assms
  by (auto simp: order_row_ok_def status_enum_def plain_order_def toOrder_def row_of_order_def
      Side_of_string_def Type_of_string_def Status_of_string_def)

section \<open>The schema's invariant\<close>

text \<open>What the constraints of the schema guarantee of every reachable database.\<close>

definition db_ok :: "DB \<Rightarrow> bool" where
  "db_ok d \<longleftrightarrow> distinct (map w_UserID (db_wallets d)) \<and> (\<forall>w\<in>set (db_wallets d). wallet_checks w) \<and>
     distinct (map or_ID (db_orders d)) \<and> (\<forall>r\<in>set (db_orders d). order_row_ok r \<and> or_UserID r \<in> w_UserID ` set (db_wallets d)) \<and>
     distinct (map ob_ID (db_outbox d)) \<and> (\<forall>r\<in>set (db_outbox d). ob_ID r < db_outboxSeq d) \<and>
     distinct (db_processed d)"

text \<open>An action that keeps it; closed under sequencing and transactions, so every handler keeps it.\<close>

definition keeps_schema :: "('z World_scheme, 'a) action \<Rightarrow> bool" where
  "keeps_schema act \<longleftrightarrow> (\<forall>w. db_ok (w_db w) \<longrightarrow> db_ok (w_db (snd (act w))))"

lemma keeps_bind: "keeps_schema m \<Longrightarrow> (\<And>x. keeps_schema (k x)) \<Longrightarrow> keeps_schema (bind_ok m k)"
  unfolding keeps_schema_def bind_ok_def by (auto split: prod.split sum.split)

lemma keeps_simple [simp]:
  "keeps_schema (return_ok x)" "keeps_schema (return_err e)" "keeps_schema (now env)" "keeps_schema (new_uuid env)"
  by (simp_all add: keeps_schema_def return_ok_def return_err_def now_def new_uuid_def)

lemma keeps_statement:
  assumes "\<And>n d x d'. db_ok d \<Longrightarrow> f n d = Inr (x, d') \<Longrightarrow> db_ok d'"
  shows "keeps_schema (statement env f)"
  using assms by (auto simp: keeps_schema_def statement_def split: sum.split)

lemma db_ok_seq: "db_ok d \<Longrightarrow> db_outboxSeq d \<le> n \<Longrightarrow> db_ok (d\<lparr>db_outboxSeq := n\<rparr>)"
  by (force simp: db_ok_def)

definition seq_grows :: "('z World_scheme, 'a) action \<Rightarrow> bool" where
  "seq_grows act \<longleftrightarrow> (\<forall>w. db_outboxSeq (w_db w) \<le> db_outboxSeq (w_db (snd (act w))))"

lemma seq_grows_bind: "seq_grows m \<Longrightarrow> (\<And>x. seq_grows (k x)) \<Longrightarrow> seq_grows (bind_ok m k)"
  unfolding seq_grows_def bind_ok_def by (auto split: prod.split sum.split) (metis order_trans snd_conv)+

lemma seq_grows_simple [simp]:
  "seq_grows (return_ok x)" "seq_grows (return_err e)" "seq_grows (now env)" "seq_grows (new_uuid env)"
  by (simp_all add: seq_grows_def return_ok_def return_err_def now_def new_uuid_def)

lemma seq_grows_statement:
  "(\<And>n d x d'. f n d = Inr (x, d') \<Longrightarrow> db_outboxSeq d \<le> db_outboxSeq d') \<Longrightarrow> seq_grows (statement env f)"
  by (auto simp: seq_grows_def statement_def split: sum.split)

lemma keeps_in_tx:
  assumes "keeps_schema body" "seq_grows body"
  shows "keeps_schema (in_tx env body)"
proof -
  have "db_ok (w_db (snd (in_tx env body w)))" if ok: "db_ok (w_db w)" for w
  proof -
    obtain r w' where b: "body (tick w) = (r, w')" by fastforce
    have "db_ok (w_db w')" "db_outboxSeq (w_db w) \<le> db_outboxSeq (w_db w')"
      using assms ok b unfolding keeps_schema_def seq_grows_def by (metis snd_conv tick_simps(1))+
    then show ?thesis
      using ok b by (auto simp: in_tx_def commit_def intro: db_ok_seq split: sum.split tx_exit.split fault.split)
  qed
  then show ?thesis by (simp add: keeps_schema_def)
qed

lemma db_ok_wallets:
  assumes "db_ok d" "wallet_checks wal"
  shows "db_ok (d\<lparr>db_wallets := write_rows w_UserID (w_UserID wal)
    (\<lambda>r. r\<lparr>w_BalanceBRLCents := w_BalanceBRLCents wal, w_ReservedBRLCents := w_ReservedBRLCents wal,
           w_BalanceVibranium := w_BalanceVibranium wal, w_ReservedVibranium := w_ReservedVibranium wal\<rparr>) (db_wallets d)\<rparr>)"
proof -
  let ?f = "\<lambda>r. r\<lparr>w_BalanceBRLCents := w_BalanceBRLCents wal, w_ReservedBRLCents := w_ReservedBRLCents wal,
           w_BalanceVibranium := w_BalanceVibranium wal, w_ReservedVibranium := w_ReservedVibranium wal\<rparr>"
  have keys: "map w_UserID (write_rows w_UserID (w_UserID wal) ?f (db_wallets d)) = map w_UserID (db_wallets d)"
    by (rule wallets.modify_keys) simp
  then have "w_UserID ` set (write_rows w_UserID (w_UserID wal) ?f (db_wallets d)) = w_UserID ` set (db_wallets d)"
    by (metis set_map)
  moreover have "\<forall>w\<in>set (write_rows w_UserID (w_UserID wal) ?f (db_wallets d)). wallet_checks w"
    using assms by (auto simp: db_ok_def write_rows_def wallet_checks_def)
  ultimately show ?thesis using assms(1) keys by (simp add: db_ok_def)
qed

lemma keeps_wallet_repo:
  "keeps_schema (WalletRepo_GetForUpdate env u)" "keeps_schema (WalletRepo_Get env u)" "keeps_schema (WalletRepo_Update env wal)"
  unfolding repo_defs
proof (rule_tac [!] keeps_statement, goal_cases)
  case (3 n d x d')
  show ?case
  proof (cases "find_row w_UserID (w_UserID wal) (db_wallets d) = None")
    case True
    then have "w_UserID wal \<notin> w_UserID ` set (db_wallets d)"
      using 3(1) wallets.lookup_none [of "db_wallets d" "w_UserID wal"] by (simp add: db_ok_def)
    then have "w_UserID r \<noteq> w_UserID wal" if "r \<in> set (db_wallets d)" for r using that by (metis imageI)
    then have "write_rows w_UserID (w_UserID wal) f (db_wallets d) = db_wallets d" for f
      by (auto simp: write_rows_def intro: map_idI)
    with 3 True show ?thesis by simp
  next
    case False
    with 3 show ?thesis using db_ok_wallets by (auto split: if_splits)
  qed
qed (auto split: option.splits)

lemma keeps_order_repo:
  "keeps_schema (OrderRepo_Insert env ord)" "keeps_schema (OrderRepo_Get env i)" "keeps_schema (OrderRepo_GetTx env i)"
  "keeps_schema (OrderRepo_Update env ord)" "keeps_schema (OrderRepo_ListOpenForRecovery env)"
  unfolding repo_defs
proof (rule_tac [!] keeps_statement, goal_cases)
  case (1 n d x d')
  then have d: "distinct (map or_ID (db_orders d))" "distinct (map w_UserID (db_wallets d))" by (auto simp: db_ok_def)
  from 1 have new: "order_row_ok (row_of_order ord)" "o_ID ord \<notin> or_ID ` set (db_orders d)"
      "o_UserID ord \<in> w_UserID ` set (db_wallets d)" "d' = d\<lparr>db_orders := db_orders d @ [row_of_order ord]\<rparr>"
    using orders.lookup_none [OF d(1), of "o_ID ord"] wallets.lookup_none [OF d(2), of "o_UserID ord"]
    by (auto split: if_splits)
  moreover have "or_ID (row_of_order ord) = o_ID ord" "or_UserID (row_of_order ord) = o_UserID ord"
    by (simp_all add: row_of_order_def)
  ultimately show ?case using 1(1) by (auto simp: db_ok_def)
next
  case (4 n d x d')
  let ?f = "\<lambda>r. r\<lparr>or_FilledQuantity := o_FilledQuantity ord, or_Status := string_of_Status (o_Status ord), or_UpdatedAt := e_clock env n\<rparr>"
  from 4 have st: "status_enum (string_of_Status (o_Status ord))"
      "d' = d\<lparr>db_orders := write_rows or_ID (o_ID ord) ?f (db_orders d)\<rparr>" by (auto split: if_splits)
  have "map or_ID (write_rows or_ID (o_ID ord) ?f (db_orders d)) = map or_ID (db_orders d)"
    by (rule orders.modify_keys) simp
  moreover have "order_row_ok r \<and> or_UserID r \<in> w_UserID ` set (db_wallets d)"
    if "r \<in> set (write_rows or_ID (o_ID ord) ?f (db_orders d))" for r
    using that 4(1) st(1) by (auto simp: db_ok_def write_rows_def order_row_ok_def)
  ultimately show ?case using 4(1) st by (simp add: db_ok_def)
qed (auto split: option.splits)

lemma mark_rows_ids: "map ob_ID (mark_rows ids rows) = map ob_ID rows"
  by (simp add: mark_rows_def)

lemma mark_rows_below: "\<forall>r\<in>set rows. ob_ID r < n \<Longrightarrow> \<forall>r\<in>set (mark_rows ids rows). ob_ID r < n"
  by (auto simp: mark_rows_def)

lemma keeps_outbox_repo:
  "keeps_schema (OutboxRepo_Insert env sn p)" "keeps_schema (OutboxRepo_FetchUnpublishedBatch env l)"
  "keeps_schema (OutboxRepo_MarkPublished env ids)" "keeps_schema (OutboxRepo_LockIfUnpublished env j)"
  "keeps_schema (ProcessedRepo_TryMark env m sn)" "keeps_schema (TradeRepo_Insert env t)"
  "keeps_schema (UserRepo_Get env i)" "keeps_schema (UserRepo_Exists env i)" "keeps_schema (UserRepo_List env)"
proof -
  show "keeps_schema (OutboxRepo_Insert env sn p)"
    unfolding repo_defs by (rule keeps_statement) (force simp: db_ok_def split: option.splits)
  show "keeps_schema (OutboxRepo_MarkPublished env ids)"
  proof (cases "ids = []")
    case False
    have "db_ok (d\<lparr>db_outbox := mark_rows ids (db_outbox d)\<rparr>)" if "db_ok d" for d
      using that mark_rows_ids [of ids "db_outbox d"] mark_rows_below [of "db_outbox d" "db_outboxSeq d" ids] by (simp add: db_ok_def)
    with False show ?thesis unfolding repo_defs by (auto intro!: keeps_statement)
  qed (simp add: repo_defs)
qed (unfold repo_defs, (rule keeps_statement, force simp: db_ok_def split: option.splits if_splits)+)

lemma seq_grows_repo:
  "seq_grows (WalletRepo_GetForUpdate env u)" "seq_grows (WalletRepo_Update env wal)" "seq_grows (OrderRepo_Insert env ord)"
  "seq_grows (OrderRepo_GetTx env i)" "seq_grows (OrderRepo_Update env ord)" "seq_grows (OutboxRepo_Insert env sn p)"
  "seq_grows (OutboxRepo_FetchUnpublishedBatch env l)" "seq_grows (OutboxRepo_MarkPublished env ids)"
  "seq_grows (OutboxRepo_LockIfUnpublished env j)" "seq_grows (ProcessedRepo_TryMark env m sn)" "seq_grows (TradeRepo_Insert env t)"
  "seq_grows (WalletRepo_Get env u)" "seq_grows (OrderRepo_Get env i)" "seq_grows (OrderRepo_ListOpenForRecovery env)"
  "seq_grows (UserRepo_Get env i)" "seq_grows (UserRepo_Exists env i)" "seq_grows (UserRepo_List env)"
  unfolding repo_defs by (auto intro!: seq_grows_statement split: option.splits if_splits)

text \<open>Both facts at once, with one introduction rule per way of building an action.\<close>

definition schema_safe :: "('z World_scheme, 'a) action \<Rightarrow> bool" where
  "schema_safe act \<longleftrightarrow> keeps_schema act \<and> seq_grows act"

lemma safe_bind [safe_intros]: "schema_safe m \<Longrightarrow> (\<And>x. schema_safe (k x)) \<Longrightarrow> schema_safe (bind_ok m k)"
  by (simp add: schema_safe_def keeps_bind seq_grows_bind)

lemma safe_branch [safe_intros]:
  "(c \<Longrightarrow> schema_safe a) \<Longrightarrow> (\<not> c \<Longrightarrow> schema_safe b) \<Longrightarrow> schema_safe (if c then a else b)"
  "schema_safe a \<Longrightarrow> (\<And>x. schema_safe (f x)) \<Longrightarrow> schema_safe (case opt of None \<Rightarrow> a | Some x \<Rightarrow> f x)"
  "(\<And>x. schema_safe (g x)) \<Longrightarrow> (\<And>x. schema_safe (f x)) \<Longrightarrow> schema_safe (case sm of Inl x \<Rightarrow> g x | Inr x \<Rightarrow> f x)"
  by (auto split: option.split sum.split)

lemma safe_simple [safe_intros]:
  "schema_safe (return_ok x)" "schema_safe (return_err e)" "schema_safe (now env)" "schema_safe (new_uuid env)"
  by (simp_all add: schema_safe_def)

lemma safe_repo [safe_intros]:
  "schema_safe (WalletRepo_GetForUpdate env u)" "schema_safe (WalletRepo_Get env u)" "schema_safe (WalletRepo_Update env wal)"
  "schema_safe (OrderRepo_Insert env ord)" "schema_safe (OrderRepo_Get env i)" "schema_safe (OrderRepo_GetTx env i)"
  "schema_safe (OrderRepo_Update env ord)" "schema_safe (OrderRepo_ListOpenForRecovery env)"
  "schema_safe (OutboxRepo_Insert env sn p)" "schema_safe (OutboxRepo_FetchUnpublishedBatch env l)"
  "schema_safe (OutboxRepo_MarkPublished env ids)" "schema_safe (OutboxRepo_LockIfUnpublished env j)"
  "schema_safe (ProcessedRepo_TryMark env m sn)" "schema_safe (TradeRepo_Insert env t)"
  "schema_safe (UserRepo_Get env i)" "schema_safe (UserRepo_Exists env i)" "schema_safe (UserRepo_List env)"
  by (simp_all add: schema_safe_def keeps_wallet_repo keeps_order_repo keeps_outbox_repo seq_grows_repo)

lemma safe_in_tx [safe_intros]:
  assumes "schema_safe body"
  shows "schema_safe (in_tx env body)"
proof -
  have "seq_grows (in_tx env body)"
    unfolding seq_grows_def
  proof
    fix w
    obtain r w' where b: "body (tick w) = (r, w')" by fastforce
    then have "db_outboxSeq (w_db w) \<le> db_outboxSeq (w_db w')"
      using assms unfolding schema_safe_def seq_grows_def by (metis snd_conv tick_simps(1))
    with b show "db_outboxSeq (w_db w) \<le> db_outboxSeq (w_db (snd (in_tx env body w)))"
      by (auto simp: in_tx_def commit_def split: sum.split tx_exit.split fault.split)
  qed
  then show ?thesis using assms by (simp add: schema_safe_def keeps_in_tx)
qed

end
