(* ===== verification/Go_Heap.thy ===== *)
theory Go_Heap
  imports OB_Prelude
begin

text \<open>
  Go's \<open>container/heap\<close>, as the standard library writes it: the routines only see the container
  through its methods \<open>Len\<close>, \<open>Less\<close>, \<open>Swap\<close>, \<open>Push\<close> and \<open>Pop\<close> (\<open>heap.Interface\<close>), here
  arguments. The locale \<open>heap_interface\<close> states what an implementation of the five methods
  promises, and proves once that \<open>heap.Push\<close> and \<open>heap.Remove\<close> keep the heap order and change
  the contents by exactly one element.
\<close>

section \<open>The routines\<close>

function heap_up :: "('s \<Rightarrow> nat \<Rightarrow> nat \<Rightarrow> bool) \<Rightarrow> ('s \<Rightarrow> nat \<Rightarrow> nat \<Rightarrow> 's) \<Rightarrow> 's \<Rightarrow> nat \<Rightarrow> 's" where
  "heap_up lessF swapF h j =
     (let i = (j - 1) div 2
      in if i = j \<or> \<not> lessF h j i then h else heap_up lessF swapF (swapF h i j) i)"
  by pat_completeness auto
termination
  by (relation "measure (\<lambda>(lessF, swapF, h, j). j)") auto

declare heap_up.simps [simp del]

text \<open>\<open>down\<close> returns the final position with the container; Go's result is \<open>i > i0\<close>.\<close>

function heap_down ::
  "('s \<Rightarrow> nat \<Rightarrow> nat \<Rightarrow> bool) \<Rightarrow> ('s \<Rightarrow> nat \<Rightarrow> nat \<Rightarrow> 's) \<Rightarrow> 's \<Rightarrow> nat \<Rightarrow> nat \<Rightarrow> 's \<times> nat" where
  "heap_down lessF swapF h i n =
     (let j1 = 2 * i + 1
      in if j1 \<ge> n then (h, i)
         else let j = (if j1 + 1 < n \<and> lessF h (j1 + 1) j1 then j1 + 1 else j1)
              in if \<not> lessF h j i then (h, i) else heap_down lessF swapF (swapF h i j) j n)"
  by pat_completeness auto
termination
  by (relation "measure (\<lambda>(lessF, swapF, h, i, n). n - i)") (auto simp: Let_def split: if_splits)

declare heap_down.simps [simp del]

definition heap_Push ::
  "('s \<Rightarrow> nat) \<Rightarrow> ('s \<Rightarrow> nat \<Rightarrow> nat \<Rightarrow> bool) \<Rightarrow> ('s \<Rightarrow> nat \<Rightarrow> nat \<Rightarrow> 's) \<Rightarrow> ('x \<Rightarrow> 's \<Rightarrow> 's)
     \<Rightarrow> 'x \<Rightarrow> 's \<Rightarrow> 's" where
  "heap_Push lenF lessF swapF pushF x h = (let h' = pushF x h in heap_up lessF swapF h' (lenF h' - 1))"

text \<open>
  \<open>Remove\<close> indexes the container at \<open>i\<close>: Go panics when \<open>i\<close> is out of range. The other indexes the
  routines compute lie below \<open>Len\<close> (lemmas \<open>up_steps\<close> and \<open>down_steps\<close> below).
\<close>

definition heap_Remove ::
  "('s \<Rightarrow> nat) \<Rightarrow> ('s \<Rightarrow> nat \<Rightarrow> nat \<Rightarrow> bool) \<Rightarrow> ('s \<Rightarrow> nat \<Rightarrow> nat \<Rightarrow> 's) \<Rightarrow> ('s \<Rightarrow> 's)
     \<Rightarrow> 's \<Rightarrow> nat \<Rightarrow> go_panic + 's" where
  "heap_Remove lenF lessF swapF popF h i =
     (if i < lenF h then
        let n = lenF h - 1
        in if n \<noteq> i then
             let (h', k) = heap_down lessF swapF (swapF h i n) i n
             in Inr (popF (if k > i then h' else heap_up lessF swapF h' i))
           else Inr (popF h)
      else Inl IndexOutOfRange)"

section \<open>The routines on plain arrays\<close>

definition list_swap :: "'a list \<Rightarrow> nat \<Rightarrow> nat \<Rightarrow> 'a list" where
  "list_swap xs i j = xs[i := xs ! j, j := xs ! i]"

lemma length_list_swap [simp]: "length (list_swap xs i j) = length xs"
  by (simp add: list_swap_def)

lemma mset_list_swap [simp]:
  "i < length xs \<Longrightarrow> j < length xs \<Longrightarrow> mset (list_swap xs i j) = mset xs"
  by (simp add: list_swap_def mset_swap)

lemma nth_list_swap:
  "i < length xs \<Longrightarrow> j < length xs \<Longrightarrow>
     list_swap xs i j ! k = (if k = j then xs ! i else if k = i then xs ! j else xs ! k)"
  by (auto simp: list_swap_def nth_list_update)

definition par :: "nat \<Rightarrow> nat" where
  "par c = (c - 1) div 2"

lemma par_less: "0 < c \<Longrightarrow> par c < c"
  by (auto simp: par_def)

lemma par_eq_iff: "0 < c \<Longrightarrow> par c = i \<longleftrightarrow> c = 2 * i + 1 \<or> c = 2 * i + 2"
  by (auto simp: par_def)

locale strict_weak_order =
  fixes lt :: "'e \<Rightarrow> 'e \<Rightarrow> bool"
  assumes lt_irrefl: "\<not> lt x x"
    and lt_asym: "lt x y \<Longrightarrow> \<not> lt y x"
    and nlt_trans: "\<not> lt x y \<Longrightarrow> \<not> lt y z \<Longrightarrow> \<not> lt x z"
begin

definition heap_upto :: "nat \<Rightarrow> 'e list \<Rightarrow> bool" where
  "heap_upto n xs \<longleftrightarrow> (\<forall>c. 0 < c \<and> c < n \<longrightarrow> \<not> lt (xs ! c) (xs ! par c))"

text \<open>Heap order on the first \<open>n\<close> cells except on the edges that touch cell \<open>i\<close>.\<close>

definition hole :: "nat \<Rightarrow> nat \<Rightarrow> 'e list \<Rightarrow> bool" where
  "hole n i xs \<longleftrightarrow>
     (\<forall>c. 0 < c \<and> c < n \<and> c \<noteq> i \<and> par c \<noteq> i \<longrightarrow> \<not> lt (xs ! c) (xs ! par c)) \<and>
     (\<forall>c. 0 < c \<and> c < n \<and> par c = i \<and> 0 < i \<longrightarrow> \<not> lt (xs ! c) (xs ! par i))"

definition kids_ok :: "nat \<Rightarrow> nat \<Rightarrow> 'e list \<Rightarrow> bool" where
  "kids_ok n i xs \<longleftrightarrow> (\<forall>c. 0 < c \<and> c < n \<and> par c = i \<longrightarrow> \<not> lt (xs ! c) (xs ! i))"

abbreviation less_at :: "'e list \<Rightarrow> nat \<Rightarrow> nat \<Rightarrow> bool" where
  "less_at xs i j \<equiv> lt (xs ! i) (xs ! j)"

lemma heap_root_least: "heap_upto n xs \<Longrightarrow> k < n \<Longrightarrow> \<not> lt (xs ! k) (xs ! 0)"
proof (induction k rule: less_induct)
  case (less k)
  show ?case
  proof (cases "k = 0")
    case True
    then show ?thesis by (simp add: lt_irrefl)
  next
    case False
    then have "\<not> lt (xs ! par k) (xs ! 0)" using less by (simp add: par_less)
    moreover have "\<not> lt (xs ! k) (xs ! par k)" using less.prems False by (simp add: heap_upto_def)
    ultimately show ?thesis by (rule nlt_trans [rotated])
  qed
qed

lemma hole_closed:
  "hole n i xs \<Longrightarrow> kids_ok n i xs \<Longrightarrow> (0 < i \<Longrightarrow> i < n \<Longrightarrow> \<not> lt (xs ! i) (xs ! par i)) \<Longrightarrow> heap_upto n xs"
  unfolding heap_upto_def hole_def kids_ok_def by metis

lemma hole_heap_swap_last:
  assumes "heap_upto (Suc n) xs" "length xs = Suc n" "i < n"
  shows "hole n i (list_swap xs i n)"
proof -
  have sw: "list_swap xs i n ! k = (if k = n then xs ! i else if k = i then xs ! n else xs ! k)" for k
    using assms by (intro nth_list_swap) auto
  have ok: "\<not> lt (xs ! c) (xs ! par c)" if "0 < c" "c < n" for c
    using assms(1) that by (simp add: heap_upto_def)
  have "\<not> lt (xs ! c) (xs ! par i)" if "0 < c" "c < n" "par c = i" "0 < i" for c
    using ok [of c] ok [of i] that assms(3) by (metis nlt_trans)
  then show ?thesis
    using ok par_less assms(3) unfolding hole_def sw
    by (smt (verit) less_imp_neq less_trans)
qed

lemma up_swap:
  assumes "hole n j xs" "kids_ok n j xs" "0 < j" "j < n" "n \<le> length xs" "lt (xs ! j) (xs ! par j)"
  shows "hole n (par j) (list_swap xs (par j) j)" "kids_ok n (par j) (list_swap xs (par j) j)"
proof -
  let ?i = "par j"
  have i: "?i < j" using assms(3) by (rule par_less)
  have sw: "list_swap xs ?i j ! k = (if k = j then xs ! ?i else if k = ?i then xs ! j else xs ! k)" for k
    using assms i by (intro nth_list_swap) auto
  have away: "\<not> lt (xs ! c) (xs ! par c)" if "0 < c" "c < n" "c \<noteq> j" "par c \<noteq> j" for c
    using assms(1) that by (simp add: hole_def)
  have below: "\<not> lt (xs ! c) (xs ! ?i)" if "0 < c" "c < n" "par c = j" for c
    using assms(1,3) that by (simp add: hole_def)
  have sib: "\<not> lt (xs ! c) (xs ! j)" if "0 < c" "c < n" "par c = ?i" "c \<noteq> j" for c
    using away [of c] that assms(6) i par_less [of c] by (metis lt_asym nlt_trans less_irrefl)
  have up: "\<not> lt (xs ! ?i) (xs ! par ?i)" if "0 < ?i"
  proof -
    have "par ?i \<noteq> j" using less_trans [OF par_less [OF that] i] by simp
    with that i assms(4) show ?thesis by (intro away) auto
  qed
  show "kids_ok n ?i (list_swap xs ?i j)"
    unfolding kids_ok_def sw using sib i assms(6) lt_asym par_less by (metis less_irrefl)
  have "\<not> lt (list_swap xs ?i j ! c) (list_swap xs ?i j ! par c)"
    if "0 < c" "c < n" "c \<noteq> ?i" "par c \<noteq> ?i" for c
    using that i below [of c] away [of c] unfolding sw by (cases "par c = j") auto
  moreover have "\<not> lt (list_swap xs ?i j ! c) (list_swap xs ?i j ! par ?i)"
    if "0 < c" "c < n" "par c = ?i" "0 < ?i" for c
  proof -
    have "c \<noteq> ?i" "par ?i \<noteq> ?i" "par ?i \<noteq> j" using that par_less [of ?i] par_less [of c] i by auto
    then show ?thesis
      using up that away [of c] i par_less [of c] unfolding sw by (auto dest: nlt_trans)
  qed
  ultimately show "hole n ?i (list_swap xs ?i j)" by (simp add: hole_def)
qed

lemma up_heap:
  assumes "hole n j xs" "kids_ok n j xs" "j < n" "n \<le> length xs"
  shows "heap_upto n (heap_up less_at list_swap xs j)"
  using assms
proof (induction j arbitrary: xs rule: less_induct)
  case (less j)
  show ?case
  proof (cases "j = 0 \<or> \<not> lt (xs ! j) (xs ! par j)")
    case True
    then have "heap_up less_at list_swap xs j = xs"
      by (subst heap_up.simps) (auto simp: Let_def par_def)
    with less.prems True show ?thesis by (auto intro: hole_closed)
  next
    case False
    then have "heap_up less_at list_swap xs j
        = heap_up less_at list_swap (list_swap xs (par j) j) (par j)"
      by (subst heap_up.simps) (auto simp: Let_def par_def)
    with False less.prems show ?thesis
      using up_swap [of n j xs] less.IH [of "par j" "list_swap xs (par j) j"]
      by (simp add: par_less less_trans [OF par_less])
  qed
qed

lemma down_pick:
  assumes "j = (if 2 * i + 2 < n \<and> lt (xs ! (2 * i + 2)) (xs ! (2 * i + 1)) then 2 * i + 2 else 2 * i + 1)"
    and "2 * i + 1 < n" "0 < c" "c < n" "par c = i"
  shows "\<not> lt (xs ! c) (xs ! j)"
  using assms by (auto simp: par_eq_iff lt_irrefl lt_asym)

lemma down_swap:
  assumes "hole n i xs" "0 < j" "par j = i" "j < n" "n \<le> length xs" "lt (xs ! j) (xs ! i)"
    and least: "\<And>c. 0 < c \<Longrightarrow> c < n \<Longrightarrow> par c = i \<Longrightarrow> \<not> lt (xs ! c) (xs ! j)"
  shows "hole n j (list_swap xs i j)" "\<not> lt (list_swap xs i j ! j) (list_swap xs i j ! i)"
proof -
  have i: "i < j" using assms(2,3) par_less by metis
  have sw: "list_swap xs i j ! k = (if k = j then xs ! i else if k = i then xs ! j else xs ! k)" for k
    using assms i by (intro nth_list_swap) auto
  show "\<not> lt (list_swap xs i j ! j) (list_swap xs i j ! i)"
    using assms(6) i unfolding sw by (auto dest: lt_asym)
  have away: "\<not> lt (xs ! c) (xs ! par c)" if "0 < c" "c < n" "c \<noteq> i" "par c \<noteq> i" for c
    using assms(1) that by (simp add: hole_def)
  have top: "\<not> lt (xs ! j) (xs ! par i)" if "0 < i"
    using assms(1-4) that by (simp add: hole_def)
  have "\<not> lt (list_swap xs i j ! c) (list_swap xs i j ! par c)"
    if c: "0 < c" "c < n" "c \<noteq> j" "par c \<noteq> j" for c
  proof (cases "c = i")
    case True
    with c have "par i \<noteq> i" "par i \<noteq> j" using par_less [of i] by auto
    with True c top i show ?thesis unfolding sw by auto
  next
    case False
    with c least [of c] away [of c] show ?thesis unfolding sw by auto
  qed
  moreover have "\<not> lt (list_swap xs i j ! c) (list_swap xs i j ! par j)"
    if c: "0 < c" "c < n" "par c = j" for c
    using c away [of c] i par_less [of c] assms(3) unfolding sw by auto
  ultimately show "hole n j (list_swap xs i j)" by (simp add: hole_def)
qed

lemma down_heap:
  assumes "hole n i xs" "n \<le> length xs" "heap_down less_at list_swap xs i n = (ys, k)"
  shows "if k = i then ys = xs \<and> kids_ok n i xs else i < k \<and> heap_upto n ys"
  using assms
proof (induction "n - i" arbitrary: i xs rule: less_induct)
  case less
  define j where "j = (if 2 * i + 2 < n \<and> lt (xs ! (2 * i + 2)) (xs ! (2 * i + 1)) then 2 * i + 2 else 2 * i + 1)"
  have unf: "heap_down less_at list_swap xs i n =
      (if 2 * i + 1 \<ge> n \<or> \<not> lt (xs ! j) (xs ! i) then (xs, i)
       else heap_down less_at list_swap (list_swap xs i j) j n)"
    by (subst heap_down.simps) (simp add: Let_def j_def)
  show ?case
  proof (cases "2 * i + 1 \<ge> n \<or> \<not> lt (xs ! j) (xs ! i)")
    case True
    have "kids_ok n i xs"
    proof (cases "2 * i + 1 \<ge> n")
      case True
      have "\<not> (0 < c \<and> c < n \<and> par c = i)" for c
        using True par_eq_iff [of c i] by auto
      then show ?thesis by (auto simp: kids_ok_def)
    next
      case False
      have "\<not> lt (xs ! c) (xs ! i)" if "0 < c" "c < n" "par c = i" for c
      proof (rule nlt_trans)
        show "\<not> lt (xs ! c) (xs ! j)" using down_pick [OF j_def] False that by simp
        show "\<not> lt (xs ! j) (xs ! i)" using True False by simp
      qed
      then show ?thesis by (simp add: kids_ok_def)
    qed
    with True less.prems(3) unf show ?thesis by auto
  next
    case False
    then have j: "0 < j" "par j = i" "j < n" "i < j"
      by (auto simp: j_def par_def split: if_splits)
    from False have nxt: "heap_down less_at list_swap (list_swap xs i j) j n = (ys, k)"
      using less.prems(3) unf by simp
    note swapped = down_swap [OF less.prems(1) j(1-3) less.prems(2)]
    have "hole n j (list_swap xs i j)" and edge: "\<not> lt (list_swap xs i j ! j) (list_swap xs i j ! i)"
      using False swapped down_pick [OF j_def] by auto
    then have "if k = j then ys = list_swap xs i j \<and> kids_ok n j ys else j < k \<and> heap_upto n ys"
      using less.hyps [OF _ _ _ nxt] j less.prems(2) by auto
    then show ?thesis
      using j edge \<open>hole n j (list_swap xs i j)\<close> by (auto split: if_splits intro: hole_closed)
  qed
qed

end

section \<open>The interface and its contract\<close>

text \<open>
  \<open>arr\<close> is the array a container stands for, \<open>inv\<close> its representation invariant and \<open>lt\<close> the
  order its \<open>Less\<close> compares by. \<open>Push\<close> may assume \<open>fresh\<close> and appends the cell \<open>cell x\<close>.
\<close>

locale heap_interface = strict_weak_order lt
  for lt :: "'e \<Rightarrow> 'e \<Rightarrow> bool" +
  fixes Len :: "'s \<Rightarrow> nat"
    and Less :: "'s \<Rightarrow> nat \<Rightarrow> nat \<Rightarrow> bool"
    and Swap :: "'s \<Rightarrow> nat \<Rightarrow> nat \<Rightarrow> 's"
    and Push :: "'x \<Rightarrow> 's \<Rightarrow> 's"
    and Pop :: "'s \<Rightarrow> 's"
    and arr :: "'s \<Rightarrow> 'e list"
    and inv :: "'s \<Rightarrow> bool"
    and fresh :: "'x \<Rightarrow> 's \<Rightarrow> bool"
    and cell :: "'x \<Rightarrow> 's \<Rightarrow> 'e"
  assumes Len_arr: "inv s \<Longrightarrow> Len s = length (arr s)"
    and Less_arr: "inv s \<Longrightarrow> i < length (arr s) \<Longrightarrow> j < length (arr s) \<Longrightarrow>
      Less s i j = lt (arr s ! i) (arr s ! j)"
    and Swap_arr: "inv s \<Longrightarrow> i < length (arr s) \<Longrightarrow> j < length (arr s) \<Longrightarrow>
      arr (Swap s i j) = list_swap (arr s) i j"
    and Swap_inv: "inv s \<Longrightarrow> i < length (arr s) \<Longrightarrow> j < length (arr s) \<Longrightarrow> inv (Swap s i j)"
    and Push_arr: "inv s \<Longrightarrow> fresh x s \<Longrightarrow> arr (Push x s) = arr s @ [cell x s]"
    and Push_inv: "inv s \<Longrightarrow> fresh x s \<Longrightarrow> inv (Push x s)"
    and Pop_arr: "inv s \<Longrightarrow> arr s \<noteq> [] \<Longrightarrow> arr (Pop s) = butlast (arr s)"
    and Pop_inv: "inv s \<Longrightarrow> arr s \<noteq> [] \<Longrightarrow> inv (Pop s)"
begin

text \<open>Every position the loops touch is inside the array, so nothing a \<open>Swap\<close> keeps is lost.\<close>

lemma up_steps:
  assumes "\<And>s i j. P s \<Longrightarrow> inv s \<Longrightarrow> i < n \<Longrightarrow> j < n \<Longrightarrow> n \<le> length (arr s) \<Longrightarrow> P (Swap s i j)"
    and "P s" "inv s" "j < n" "n \<le> length (arr s)"
  shows "P (heap_up Less Swap s j) \<and> inv (heap_up Less Swap s j) \<and>
    arr (heap_up Less Swap s j) = heap_up less_at list_swap (arr s) j"
  using assms(2-)
proof (induction j arbitrary: s rule: less_induct)
  case (less j)
  have i: "(j - 1) div 2 < n" using less.prems(3) by arith
  show ?case
  proof (cases "(j - 1) div 2 = j \<or> \<not> Less s j ((j - 1) div 2)")
    case True
    with less.prems i show ?thesis
      by (subst (1 2 3 4) heap_up.simps) (auto simp: Let_def Less_arr)
  next
    case False
    then have "(j - 1) div 2 < j" by arith
    with False less.prems i less.IH [of "(j - 1) div 2" "Swap s ((j - 1) div 2) j"] assms(1)
    show ?thesis
      by (subst (1 2 3 4) heap_up.simps) (auto simp: Let_def Less_arr Swap_arr Swap_inv)
  qed
qed

lemma down_steps:
  assumes "\<And>s i j. P s \<Longrightarrow> inv s \<Longrightarrow> i < n \<Longrightarrow> j < n \<Longrightarrow> n \<le> length (arr s) \<Longrightarrow> P (Swap s i j)"
    and "P s" "inv s" "i < length (arr s)" "n \<le> length (arr s)"
  shows "P (fst (heap_down Less Swap s i n)) \<and> inv (fst (heap_down Less Swap s i n)) \<and>
    heap_down less_at list_swap (arr s) i n
      = (arr (fst (heap_down Less Swap s i n)), snd (heap_down Less Swap s i n))"
  using assms(2-)
proof (induction "n - i" arbitrary: s i rule: less_induct)
  case less
  define j where "j = (if 2 * i + 2 < n \<and> Less s (2 * i + 2) (2 * i + 1) then 2 * i + 2 else 2 * i + 1)"
  define stop where "stop \<longleftrightarrow> 2 * i + 1 \<ge> n \<or> \<not> Less s j i"
  have unf: "heap_down Less Swap s i n =
      (if stop then (s, i) else heap_down Less Swap (Swap s i j) j n)"
    by (subst heap_down.simps) (simp add: Let_def j_def stop_def)
  have unf_arr: "heap_down less_at list_swap (arr s) i n =
      (if stop then (arr s, i) else heap_down less_at list_swap (list_swap (arr s) i j) j n)"
    using less.prems by (subst heap_down.simps) (auto simp: Let_def j_def stop_def Less_arr)
  show ?case
  proof (cases stop)
    case True
    with unf unf_arr less.prems show ?thesis by simp
  next
    case False
    then have "i < j" "j < n" by (auto simp: stop_def j_def split: if_splits)
    with False unf unf_arr less.prems less.hyps [of j "Swap s i j"] assms(1) [of s i j]
    show ?thesis
      by (auto simp: Swap_arr Swap_inv)
  qed
qed

end

text \<open>A plain array with its own length, indexing and exchange is such a container.\<close>

sublocale strict_weak_order \<subseteq> arrays: heap_interface lt length less_at list_swap
    "\<lambda>x xs. xs @ [x]" butlast "\<lambda>xs. xs" "\<lambda>_. True" "\<lambda>_ _. True" "\<lambda>x _. x"
  by unfold_locales simp_all

context strict_weak_order
begin

lemma keep_tail_swap:
  "mset xs = m \<and> length xs = l \<and> (\<forall>k\<ge>n. xs ! k = f k) \<Longrightarrow> i < n \<Longrightarrow> j < n \<Longrightarrow> n \<le> length xs \<Longrightarrow>
   mset (list_swap xs i j) = m \<and> length (list_swap xs i j) = l \<and> (\<forall>k\<ge>n. list_swap xs i j ! k = f k)"
  by (auto simp: nth_list_swap)

lemma up_keeps:
  assumes "j < n" "n \<le> length xs"
  shows "mset (heap_up less_at list_swap xs j) = mset xs"
    "length (heap_up less_at list_swap xs j) = length xs"
    "n \<le> k \<Longrightarrow> heap_up less_at list_swap xs j ! k = xs ! k"
  using arrays.up_steps [where P = "\<lambda>ys. mset ys = mset xs \<and> length ys = length xs \<and> (\<forall>k\<ge>n. ys ! k = xs ! k)",
      OF keep_tail_swap, of n xs j] assms by auto

lemma down_keeps:
  assumes "i < n" "n \<le> length xs" "heap_down less_at list_swap xs i n = (ys, k)"
  shows "mset ys = mset xs" "length ys = length xs" "n \<le> c \<Longrightarrow> ys ! c = xs ! c"
  using arrays.down_steps [where P = "\<lambda>ys. mset ys = mset xs \<and> length ys = length xs \<and> (\<forall>k\<ge>n. ys ! k = xs ! k)",
      OF keep_tail_swap, of n xs i] assms by auto

lemma heap_upto_append:
  "heap_upto (length xs) xs \<Longrightarrow> hole (Suc (length xs)) (length xs) (xs @ [x]) \<and>
     kids_ok (Suc (length xs)) (length xs) (xs @ [x])"
proof -
  assume h: "heap_upto (length xs) xs"
  have "par c < length xs \<and> par c \<noteq> length xs" if "0 < c" "c < Suc (length xs)" for c
    using par_less [of c] that by simp
  moreover have "\<not> lt (xs ! c) (xs ! par c)" if "0 < c" "c < length xs" for c
    using h that by (simp add: heap_upto_def)
  ultimately show ?thesis
    unfolding hole_def kids_ok_def by (auto simp: nth_append)
qed

lemma array_Push_heap:
  assumes "heap_upto (length xs) xs"
  shows "heap_upto (Suc (length xs)) (heap_up less_at list_swap (xs @ [x]) (length xs))"
  using heap_upto_append [OF assms, of x] by (auto intro: up_heap)

lemma array_Remove_heap:
  assumes "heap_upto (Suc n) xs" "length xs = Suc n" "i < n"
    and "heap_down less_at list_swap (list_swap xs i n) i n = (ys, k)"
    and "zs = (if k > i then ys else heap_up less_at list_swap ys i)"
  shows "heap_upto n zs" "mset zs = mset xs" "length zs = Suc n" "zs ! n = xs ! i"
proof -
  have hole: "hole n i (list_swap xs i n)" using assms(1-3) by (rule hole_heap_swap_last)
  have len: "n \<le> length (list_swap xs i n)" using assms(2) by simp
  note ys = down_keeps [OF assms(3) len assms(4)]
  have i: "n \<le> length ys" using ys(2) len by simp
  note zs = up_keeps [OF assms(3) i]
  show "mset zs = mset xs" "length zs = Suc n" "zs ! n = xs ! i"
    using assms(2,3,5) ys zs by (auto simp: nth_list_swap)
  show "heap_upto n zs"
    using down_heap [OF hole len assms(4)] hole up_heap [of n i ys] assms(3,5) i
    by (auto split: if_splits)
qed

end

context heap_interface
begin

abbreviation is_heap :: "'s \<Rightarrow> bool" where
  "is_heap s \<equiv> inv s \<and> heap_upto (length (arr s)) (arr s)"

theorem heap_Push_correct:
  assumes "is_heap s" "fresh x s" "P (Push x s)"
    and "\<And>s i j. P s \<Longrightarrow> inv s \<Longrightarrow> i < length (arr s) \<Longrightarrow> j < length (arr s) \<Longrightarrow> P (Swap s i j)"
  defines "s' \<equiv> heap_Push Len Less Swap Push x s"
  shows "is_heap s'" "mset (arr s') = add_mset (cell x s) (mset (arr s))" "P s'"
proof -
  have p: "inv (Push x s)" "arr (Push x s) = arr s @ [cell x s]"
    using assms(1,2) by (auto simp: Push_inv Push_arr)
  then have s': "s' = heap_up Less Swap (Push x s) (length (arr s))"
    by (simp add: s'_def heap_Push_def Len_arr Let_def)
  have u: "P s' \<and> inv s' \<and> arr s' = heap_up less_at list_swap (arr s @ [cell x s]) (length (arr s))"
    unfolding s' using up_steps [of P "Suc (length (arr s))" "Push x s" "length (arr s)"] p assms(3,4)
    by simp
  then show "P s'" by simp
  show "mset (arr s') = add_mset (cell x s) (mset (arr s))"
    using u up_keeps(1) [of "length (arr s)" "Suc (length (arr s))" "arr s @ [cell x s]"] by simp
  show "is_heap s'"
    using u array_Push_heap [of "arr s" "cell x s"] assms(1)
      up_keeps(2) [of "length (arr s)" "Suc (length (arr s))" "arr s @ [cell x s]"] by simp
qed

lemma heap_upto_butlast: "heap_upto n xs \<Longrightarrow> length xs = Suc n \<Longrightarrow> heap_upto n (butlast xs)"
  by (auto simp: heap_upto_def nth_butlast less_trans [OF par_less])

lemma mset_butlast_nth: "length xs = Suc n \<Longrightarrow> mset (butlast xs) = mset xs - {#xs ! n#}"
  by (cases xs rule: rev_cases) auto

theorem heap_Remove_correct:
  assumes "is_heap s" "i < length (arr s)" "P s"
    and "\<And>s i j. P s \<Longrightarrow> inv s \<Longrightarrow> i < length (arr s) \<Longrightarrow> j < length (arr s) \<Longrightarrow> P (Swap s i j)"
    and "\<And>s. P s \<Longrightarrow> inv s \<Longrightarrow> arr s \<noteq> [] \<Longrightarrow> P (Pop s)"
  shows "\<exists>s'. heap_Remove Len Less Swap Pop s i = Inr s' \<and> is_heap s' \<and>
    mset (arr s') = mset (arr s) - {#arr s ! i#} \<and> P s'"
proof -
  obtain n where n: "length (arr s) = Suc n" using assms(2) by (cases "length (arr s)") auto
  define t where "t = (if n \<noteq> i then let (h', k) = heap_down Less Swap (Swap s i n) i n
      in (if k > i then h' else heap_up Less Swap h' i) else s)"
  have rem: "heap_Remove Len Less Swap Pop s i = Inr (Pop t)"
    using assms(1,2) n by (auto simp: heap_Remove_def Len_arr t_def Let_def split: prod.split)
  have t: "P t \<and> inv t \<and> length (arr t) = Suc n \<and> mset (arr t) = mset (arr s) \<and>
      arr t ! n = arr s ! i \<and> heap_upto n (arr t)"
  proof (cases "n = i")
    case True
    with assms n show ?thesis by (auto simp: t_def heap_upto_def)
  next
    case False
    with n assms(2) have i: "i < n" by simp
    obtain h' k where d: "heap_down Less Swap (Swap s i n) i n = (h', k)" by fastforce
    have sw: "P (Swap s i n)" "inv (Swap s i n)" "arr (Swap s i n) = list_swap (arr s) i n"
      using assms n i by (auto simp: Swap_inv Swap_arr)
    have h': "P h' \<and> inv h' \<and> heap_down less_at list_swap (list_swap (arr s) i n) i n = (arr h', k)"
      using down_steps [of P n "Swap s i n" i] sw d n i assms(4) by auto
    have len: "length (arr h') = Suc n"
      using h' down_keeps(2) [of i n "list_swap (arr s) i n"] n i by simp
    have "P t \<and> inv t \<and> arr t = (if k > i then arr h' else heap_up less_at list_swap (arr h') i)"
      using up_steps [of P n h' i] h' len i assms(4) d False by (auto simp: t_def)
    then show ?thesis
      using array_Remove_heap [OF _ n i, of "arr h'" k] h' assms(1) n by auto
  qed
  then have "arr t \<noteq> []" by auto
  with t assms(5) show ?thesis
    unfolding rem by (auto simp: Pop_inv Pop_arr heap_upto_butlast mset_butlast_nth)
qed

end

end
