(* ===== verification/Price_Book.thy ===== *)
theory Price_Book
  imports Go_Heap Order_Domain
begin

text \<open>
  File \<open>internal/domain/matching/book.go\<close>: price levels with FIFO queues, two heaps of levels, an
  index by price and a location per order id. Levels, list elements and orders are Go objects that
  several structures point to, so the book carries them in two stores: \<open>b_mem\<close> holds the level at
  an address, \<open>b_elems\<close> the order the value of a list element points to. An order object is put on
  at most one list element (\<open>AddResting\<close> is called with freshly made orders only), so the element
  stands for the order pointer too. Addresses are handed out by two counters and never reused.
\<close>

section \<open>Levels and their heap\<close>

type_synonym addr = nat
type_synonym elem = nat

record level =
  lv_priceCents :: int64
  lv_orders :: "elem list"
  lv_index :: nat

record levelHeap =
  lh_levels :: "addr list"
  lh_less :: "int64 \<Rightarrow> int64 \<Rightarrow> bool"

type_synonym mem = "addr \<Rightarrow> level"

definition lh_Len :: "mem \<times> levelHeap \<Rightarrow> nat" where
  "lh_Len s = length (lh_levels (snd s))"

definition lh_Less :: "mem \<times> levelHeap \<Rightarrow> nat \<Rightarrow> nat \<Rightarrow> bool" where
  "lh_Less s i j = lh_less (snd s) (lv_priceCents (fst s (lh_levels (snd s) ! i)))
                                   (lv_priceCents (fst s (lh_levels (snd s) ! j)))"

definition set_index :: "addr \<Rightarrow> nat \<Rightarrow> mem \<Rightarrow> mem" where
  "set_index a i m = m(a := (m a)\<lparr>lv_index := i\<rparr>)"

definition lh_Swap :: "mem \<times> levelHeap \<Rightarrow> nat \<Rightarrow> nat \<Rightarrow> mem \<times> levelHeap" where
  "lh_Swap s i j =
     (let ls = (lh_levels (snd s))[i := lh_levels (snd s) ! j, j := lh_levels (snd s) ! i]
      in (set_index (ls ! j) j (set_index (ls ! i) i (fst s)), (snd s)\<lparr>lh_levels := ls\<rparr>))"

definition lh_Push :: "addr \<Rightarrow> mem \<times> levelHeap \<Rightarrow> mem \<times> levelHeap" where
  "lh_Push lvl s = (set_index lvl (length (lh_levels (snd s))) (fst s),
                    (snd s)\<lparr>lh_levels := lh_levels (snd s) @ [lvl]\<rparr>)"

text \<open>The level \<open>Pop\<close> returns is dropped by the only caller, \<open>heap.Remove\<close> in \<open>removeFront\<close>.\<close>

definition lh_Pop :: "mem \<times> levelHeap \<Rightarrow> mem \<times> levelHeap" where
  "lh_Pop s = (fst s, (snd s)\<lparr>lh_levels := butlast (lh_levels (snd s))\<rparr>)"

definition lh_peek :: "levelHeap \<Rightarrow> addr option" where
  "lh_peek h = (case lh_levels h of [] \<Rightarrow> None | a # _ \<Rightarrow> Some a)"

section \<open>The book\<close>

record orderLocation =
  loc_side :: Side
  loc_lvl :: addr
  loc_elem :: elem

record Book =
  b_bids :: levelHeap
  b_asks :: levelHeap
  b_bidsByPrice :: "int64 \<rightharpoonup> addr"
  b_asksByPrice :: "int64 \<rightharpoonup> addr"
  b_locations :: "uuid \<rightharpoonup> orderLocation"
  b_mem :: mem
  b_elems :: "elem \<Rightarrow> Order"
  b_nextLevel :: addr
  b_nextElem :: elem

text \<open>What the stores hold at addresses not handed out yet is irrelevant; a fixed value keeps \<open>NewBook\<close> executable.\<close>

definition no_level :: level where
  "no_level = \<lparr>lv_priceCents = 0, lv_orders = [], lv_index = 0\<rparr>"

definition no_order :: Order where
  "no_order = \<lparr>o_ID = 0, o_UserID = 0, o_Side = SideRaw [], o_Type = TypeRaw [], o_PriceCents = None,
     o_Quantity = 0, o_FilledQuantity = 0, o_Status = StatusRaw [], o_CreatedAt = 0, o_UpdatedAt = 0\<rparr>"

definition NewBook :: Book where
  "NewBook = \<lparr>b_bids = \<lparr>lh_levels = [], lh_less = (\<lambda>a b. a > b)\<rparr>,
              b_asks = \<lparr>lh_levels = [], lh_less = (\<lambda>a b. a < b)\<rparr>,
              b_bidsByPrice = Map.empty, b_asksByPrice = Map.empty, b_locations = Map.empty,
              b_mem = (\<lambda>_. no_level), b_elems = (\<lambda>_. no_order), b_nextLevel = 0, b_nextElem = 0\<rparr>"

definition heapAndIndex :: "Book \<Rightarrow> Side \<Rightarrow> levelHeap \<times> (int64 \<rightharpoonup> addr)" where
  "heapAndIndex b side =
     (if side = SideBuy then (b_bids b, b_bidsByPrice b) else (b_asks b, b_asksByPrice b))"

text \<open>Writing back through the two pointers \<open>heapAndIndex\<close> returned.\<close>

definition put_heapAndIndex :: "Side \<Rightarrow> mem \<times> levelHeap \<Rightarrow> (int64 \<rightharpoonup> addr) \<Rightarrow> Book \<Rightarrow> Book" where
  "put_heapAndIndex side mh idx b =
     (if side = SideBuy then b\<lparr>b_mem := fst mh, b_bids := snd mh, b_bidsByPrice := idx\<rparr>
      else b\<lparr>b_mem := fst mh, b_asks := snd mh, b_asksByPrice := idx\<rparr>)"

definition BestOpposite :: "Book \<Rightarrow> Side \<Rightarrow> addr option" where
  "BestOpposite b incomingSide =
     (if incomingSide = SideBuy then lh_peek (b_asks b) else lh_peek (b_bids b))"

text \<open>The result is the pointer to the order, that is, the list element that holds it.\<close>

definition FrontOrder :: "Book \<Rightarrow> addr option \<Rightarrow> elem option" where
  "FrontOrder b lv =
     (case lv of None \<Rightarrow> None
      | Some a \<Rightarrow> (case lv_orders (b_mem b a) of [] \<Rightarrow> None | e # _ \<Rightarrow> Some e))"

text \<open>The part of \<open>AddResting\<close> that finds or makes the level.\<close>

definition level_for :: "Side \<Rightarrow> int64 \<Rightarrow> Book \<Rightarrow> Book \<times> addr" where
  "level_for side price b =
     (case heapAndIndex b side of (h, idx) \<Rightarrow>
        (case idx price of
           Some lvl \<Rightarrow> (b, lvl)
         | None \<Rightarrow>
             let lvl = b_nextLevel b;
                 m = (b_mem b)(lvl := \<lparr>lv_priceCents = price, lv_orders = [], lv_index = 0\<rparr>)
             in (put_heapAndIndex side (heap_Push lh_Len lh_Less lh_Swap lh_Push lvl (m, h))
                   (idx(price \<mapsto> lvl)) (b\<lparr>b_nextLevel := Suc lvl\<rparr>), lvl)))"

definition push_back :: "addr \<Rightarrow> Order \<Rightarrow> Book \<Rightarrow> Book" where
  "push_back lvl ord b =
     (let e = b_nextElem b
      in b\<lparr>b_elems := (b_elems b)(e := ord),
           b_mem := (b_mem b)(lvl := (b_mem b lvl)\<lparr>lv_orders := lv_orders (b_mem b lvl) @ [e]\<rparr>),
           b_locations := (b_locations b)(o_ID ord \<mapsto> \<lparr>loc_side = o_Side ord, loc_lvl = lvl, loc_elem = e\<rparr>),
           b_nextElem := Suc e\<rparr>)"

definition AddResting :: "Order \<Rightarrow> Book \<Rightarrow> go_panic + Book" where
  "AddResting ord b =
     (case o_PriceCents ord of
        None \<Rightarrow> Inl NilDereference
      | Some price \<Rightarrow> (case level_for (o_Side ord) price b of (b', lvl) \<Rightarrow> Inr (push_back lvl ord b')))"

text \<open>\<open>list.Remove\<close> unlinks the element if it is on that list and does nothing otherwise: \<open>remove1\<close>.\<close>

definition removeFront :: "Order \<Rightarrow> Side \<Rightarrow> addr \<Rightarrow> Book \<Rightarrow> go_panic + Book" where
  "removeFront ord side lvl b =
     (case b_locations b (o_ID ord) of
        None \<Rightarrow> Inr b
      | Some loc \<Rightarrow>
          let b1 = b\<lparr>b_mem := (b_mem b)(lvl := (b_mem b lvl)\<lparr>lv_orders := remove1 (loc_elem loc) (lv_orders (b_mem b lvl))\<rparr>),
                     b_locations := (b_locations b)(o_ID ord := None)\<rparr>
          in if lv_orders (b_mem b1 lvl) = [] then
               (case heapAndIndex b1 side of (h, idx) \<Rightarrow>
                  (case heap_Remove lh_Len lh_Less lh_Swap lh_Pop (b_mem b1, h) (lv_index (b_mem b1 lvl)) of
                     Inl p \<Rightarrow> Inl p
                   | Inr mh \<Rightarrow> Inr (put_heapAndIndex side mh (idx(lv_priceCents (b_mem b1 lvl) := None)) b1)))
             else Inr b1)"

definition CancelResting :: "uuid \<Rightarrow> Book \<Rightarrow> go_panic + (Order option \<times> Book)" where
  "CancelResting i b =
     (case b_locations b i of
        None \<Rightarrow> Inr (None, b)
      | Some loc \<Rightarrow>
          (case removeFront (b_elems b (loc_elem loc)) (loc_side loc) (loc_lvl loc) b of
             Inl p \<Rightarrow> Inl p
           | Inr b' \<Rightarrow> Inr (Some (b_elems b (loc_elem loc)), b')))"

section \<open>The level heap implements \<open>heap.Interface\<close>\<close>

definition cmp_of :: "Side \<Rightarrow> int64 \<Rightarrow> int64 \<Rightarrow> bool" where
  "cmp_of side = (if side = SideBuy then (\<lambda>a b. a > b) else (\<lambda>a b. a < b))"

abbreviation lvl_lt :: "Side \<Rightarrow> addr \<times> int64 \<Rightarrow> addr \<times> int64 \<Rightarrow> bool" where
  "lvl_lt side x y \<equiv> cmp_of side (snd x) (snd y)"

definition lh_arr :: "mem \<times> levelHeap \<Rightarrow> (addr \<times> int64) list" where
  "lh_arr s = map (\<lambda>a. (a, lv_priceCents (fst s a))) (lh_levels (snd s))"

text \<open>Every level knows its position in the heap, which is what makes \<open>heap.Remove(h, lvl.index)\<close> right.\<close>

definition lh_inv :: "Side \<Rightarrow> mem \<times> levelHeap \<Rightarrow> bool" where
  "lh_inv side s \<longleftrightarrow> lh_less (snd s) = cmp_of side \<and> distinct (lh_levels (snd s)) \<and>
     (\<forall>i < length (lh_levels (snd s)). lv_index (fst s (lh_levels (snd s) ! i)) = i)"

lemma set_index_simps [simp]:
  "lv_priceCents (set_index a i m x) = lv_priceCents (m x)"
  "lv_orders (set_index a i m x) = lv_orders (m x)"
  "lv_index (set_index a i m x) = (if x = a then i else lv_index (m x))"
  "x \<noteq> a \<Longrightarrow> set_index a i m x = m x"
  by (simp_all add: set_index_def)

lemma lh_arr_simps [simp]: "length (lh_arr s) = length (lh_levels (snd s))" "fst ` set (lh_arr s) = set (lh_levels (snd s))"
  by (auto simp: lh_arr_def image_iff)

lemma lh_arr_nth [simp]: "i < length (lh_levels (snd s)) \<Longrightarrow>
    lh_arr s ! i = (lh_levels (snd s) ! i, lv_priceCents (fst s (lh_levels (snd s) ! i)))"
  by (simp add: lh_arr_def)

lemma lh_Swap_levels: "lh_levels (snd (lh_Swap s i j)) = list_swap (lh_levels (snd s)) i j"
  by (simp add: lh_Swap_def list_swap_def Let_def)

lemma map_list_swap: "i < length xs \<Longrightarrow> j < length xs \<Longrightarrow> map f (list_swap xs i j) = list_swap (map f xs) i j"
  by (simp add: list_swap_def map_update)

lemma lh_Swap_mem [simp]:
  "lv_priceCents (fst (lh_Swap s i j) a) = lv_priceCents (fst s a)"
  "lv_orders (fst (lh_Swap s i j) a) = lv_orders (fst s a)"
  by (simp_all add: lh_Swap_def Let_def)

lemma lh_Swap_less [simp]: "lh_less (snd (lh_Swap s i j)) = lh_less (snd s)"
  by (simp add: lh_Swap_def Let_def)

lemma set_list_swap [simp]: "i < length xs \<Longrightarrow> j < length xs \<Longrightarrow> set (list_swap xs i j) = set xs"
  by (metis mset_list_swap set_mset_mset)

lemma distinct_list_swap [simp]: "i < length xs \<Longrightarrow> j < length xs \<Longrightarrow> distinct (list_swap xs i j) = distinct xs"
  by (simp add: list_swap_def distinct_swap)

lemma lh_Swap_outside:
  assumes "i < length (lh_levels (snd s))" "j < length (lh_levels (snd s))" "a \<notin> set (lh_levels (snd s))"
  shows "fst (lh_Swap s i j) a = fst s a"
proof -
  let ?ls = "list_swap (lh_levels (snd s)) i j"
  have "?ls ! i \<in> set (lh_levels (snd s))" "?ls ! j \<in> set (lh_levels (snd s))"
    using assms nth_mem [of i ?ls] nth_mem [of j ?ls] by simp_all
  then have "a \<noteq> ?ls ! i" "a \<noteq> ?ls ! j" using assms(3) by metis+
  then show ?thesis by (simp add: lh_Swap_def Let_def list_swap_def)
qed

lemma lh_Swap_inv:
  assumes "lh_inv side s" "i < length (lh_levels (snd s))" "j < length (lh_levels (snd s))"
  shows "lh_inv side (lh_Swap s i j)"
proof -
  let ?ls = "list_swap (lh_levels (snd s)) i j"
  have d: "distinct ?ls" using assms by (simp add: lh_inv_def)
  have "lv_index (fst (lh_Swap s i j) (?ls ! k)) = k" if k: "k < length (lh_levels (snd s))" for k
  proof -
    have "lv_index (fst (lh_Swap s i j) (?ls ! k)) =
        (if ?ls ! k = ?ls ! j then j else if ?ls ! k = ?ls ! i then i else lv_index (fst s (?ls ! k)))"
      by (simp add: lh_Swap_def Let_def list_swap_def)
    then show ?thesis
      using d k assms by (auto simp: nth_eq_iff_index_eq nth_list_swap lh_inv_def)
  qed
  with assms show ?thesis by (simp add: lh_inv_def lh_Swap_levels)
qed

interpretation lh: heap_interface "lvl_lt side" lh_Len lh_Less lh_Swap lh_Push lh_Pop lh_arr
    "lh_inv side" "\<lambda>a s. a \<notin> set (lh_levels (snd s))" "\<lambda>a s. (a, lv_priceCents (fst s a))" for side
proof unfold_locales
  show "lh_inv side s \<Longrightarrow> i < length (lh_arr s) \<Longrightarrow> j < length (lh_arr s) \<Longrightarrow>
      lh_arr (lh_Swap s i j) = list_swap (lh_arr s) i j" for s i j
    by (simp add: lh_arr_def lh_Swap_levels map_list_swap)
  show "lh_inv side s \<Longrightarrow> i < length (lh_arr s) \<Longrightarrow> j < length (lh_arr s) \<Longrightarrow>
      lh_inv side (lh_Swap s i j)" for s i j
    by (simp add: lh_Swap_inv)
  show "lh_inv side s \<Longrightarrow> a \<notin> set (lh_levels (snd s)) \<Longrightarrow> lh_inv side (lh_Push a s)" for a s
    by (auto simp: lh_inv_def lh_Push_def nth_append less_Suc_eq)
  show "lh_inv side s \<Longrightarrow> lh_arr s \<noteq> [] \<Longrightarrow> lh_inv side (lh_Pop s)" for s
    by (auto simp: lh_inv_def lh_Pop_def nth_butlast distinct_butlast)
qed (auto simp: cmp_of_def lh_Len_def lh_Less_def lh_inv_def lh_arr_def lh_Push_def lh_Pop_def
    map_butlast split: if_splits)

definition lh_ok :: "Side \<Rightarrow> mem \<times> levelHeap \<Rightarrow> bool" where
  "lh_ok side s \<longleftrightarrow> lh_inv side s \<and>
     (\<forall>c. 0 < c \<and> c < length (lh_levels (snd s)) \<longrightarrow>
        \<not> cmp_of side (lv_priceCents (fst s (lh_levels (snd s) ! c)))
                       (lv_priceCents (fst s (lh_levels (snd s) ! par c))))"

lemma lh_ok_iff: "lh_ok side s \<longleftrightarrow>
    lh_inv side s \<and> strict_weak_order.heap_upto (lvl_lt side) (length (lh_arr s)) (lh_arr s)"
proof -
  have "par c < length (lh_levels (snd s))" if "0 < c" "c < length (lh_levels (snd s))" for c
    using par_less [OF that(1)] that(2) by simp
  then show ?thesis by (auto simp: lh_ok_def lh.heap_upto_def)
qed

lemma lh_root_best:
  assumes "lh_ok side (m, h)" "lh_levels h = a # as" "x \<in> set (lh_levels h)"
  shows "\<not> cmp_of side (lv_priceCents (m x)) (lv_priceCents (m a))"
proof -
  obtain k where k: "k < length (lh_levels h)" "lh_levels h ! k = x"
    using assms(3) by (auto simp: in_set_conv_nth)
  then show ?thesis
    using lh.heap_root_least [of side "length (lh_arr (m, h))" "lh_arr (m, h)" k] assms(1,2)
    by (simp add: lh_ok_iff)
qed

text \<open>What no \<open>Swap\<close> and no \<open>Pop\<close> touches: prices, queues and levels off the heap.\<close>

definition lh_frame :: "mem \<Rightarrow> addr set \<Rightarrow> mem \<times> levelHeap \<Rightarrow> bool" where
  "lh_frame m0 A s \<longleftrightarrow> set (lh_levels (snd s)) \<subseteq> A \<and> (\<forall>a. a \<notin> A \<longrightarrow> fst s a = m0 a) \<and>
     (\<forall>a. lv_priceCents (fst s a) = lv_priceCents (m0 a) \<and> lv_orders (fst s a) = lv_orders (m0 a))"

lemma lh_frame_Swap:
  "lh_frame m0 A s \<Longrightarrow> i < length (lh_arr s) \<Longrightarrow> j < length (lh_arr s) \<Longrightarrow> lh_frame m0 A (lh_Swap s i j)"
  using lh_Swap_outside [of i s j] by (simp add: lh_frame_def lh_Swap_levels) (metis subsetD)

lemma lh_frame_Pop: "lh_frame m0 A s \<Longrightarrow> lh_frame m0 A (lh_Pop s)"
  by (auto simp: lh_frame_def lh_Pop_def dest: in_set_butlastD)

lemma set_lh_levels: "set (lh_levels (snd s)) = fst ` set_mset (mset (lh_arr s))"
  by simp

lemma lh_heap_Push:
  assumes "lh_ok side (m, h)" "a \<notin> set (lh_levels h)"
    and "heap_Push lh_Len lh_Less lh_Swap lh_Push a (m, h) = (m', h')"
  shows "lh_ok side (m', h')" "set (lh_levels h') = insert a (set (lh_levels h))"
    "lh_frame m (insert a (set (lh_levels h))) (m', h')"
proof -
  let ?A = "insert a (set (lh_levels h))"
  have "lh_frame m ?A (lh_Push a (m, h))"
    by (auto simp: lh_frame_def lh_Push_def)
  note c = lh.heap_Push_correct [of side "(m, h)" a "lh_frame m ?A", OF _ _ this, simplified assms(3)]
  have heap: "lh_inv side (m, h) \<and> strict_weak_order.heap_upto (lvl_lt side) (length (lh_arr (m, h))) (lh_arr (m, h))"
    using assms(1) by (simp add: lh_ok_iff)
  show "lh_ok side (m', h')"
    using c(1) [OF heap] assms(2) lh_frame_Swap by (simp add: lh_ok_iff)
  show "lh_frame m ?A (m', h')"
    using c(3) [OF heap] assms(2) lh_frame_Swap by simp
  show "set (lh_levels h') = ?A"
    using c(2) [OF heap] assms(2) lh_frame_Swap set_lh_levels [of "(m', h')"] set_lh_levels [of "(m, h)"] by simp
qed

lemma lh_heap_Remove:
  assumes "lh_ok side (m, h)" "a \<in> set (lh_levels h)"
  shows "\<exists>m' h'. heap_Remove lh_Len lh_Less lh_Swap lh_Pop (m, h) (lv_index (m a)) = Inr (m', h') \<and>
    lh_ok side (m', h') \<and> set (lh_levels h') = set (lh_levels h) - {a} \<and>
    lh_frame m (set (lh_levels h)) (m', h')"
proof -
  obtain i where i: "i < length (lh_levels h)" "lh_levels h ! i = a"
    using assms(2) by (auto simp: in_set_conv_nth)
  with assms(1) have ix: "lv_index (m a) = i" by (auto simp: lh_ok_def lh_inv_def)
  have "lh_frame m (set (lh_levels h)) (m, h)" by (simp add: lh_frame_def)
  moreover have "lh_inv side (m, h) \<and>
      strict_weak_order.heap_upto (lvl_lt side) (length (lh_arr (m, h))) (lh_arr (m, h))"
    using assms(1) by (simp add: lh_ok_iff)
  moreover have "i < length (lh_arr (m, h))" using i by simp
  ultimately obtain s' where s': "heap_Remove lh_Len lh_Less lh_Swap lh_Pop (m, h) i = Inr s'"
      "lh_ok side s'" "mset (lh_arr s') = mset (lh_arr (m, h)) - {#lh_arr (m, h) ! i#}"
      "lh_frame m (set (lh_levels h)) s'"
    using lh.heap_Remove_correct [of side "(m, h)" i "lh_frame m (set (lh_levels h))"]
      lh_frame_Swap lh_frame_Pop unfolding lh_ok_iff by blast
  have "distinct (lh_arr (m, h))"
    using assms(1) by (auto simp: lh_ok_def lh_inv_def lh_arr_def distinct_map inj_on_def)
  then have "set (lh_arr s') = set (lh_arr (m, h)) - {lh_arr (m, h) ! i}"
    by (metis s'(3) set_mset_mset set_remove1_eq mset_remove1)
  then have "set (lh_levels (snd s')) = fst ` (set (lh_arr (m, h)) - {(a, lv_priceCents (m a))})"
    using i lh_arr_simps(2) [of s'] by simp
  also have "\<dots> = set (lh_levels h) - {a}"
    by (force simp: lh_arr_def)
  finally have "set (lh_levels (snd s')) = set (lh_levels h) - {a}" .
  with s' show ?thesis unfolding ix by (cases s') auto
qed

end
