(* ===== verification/Book_Invariant.thy ===== *)
theory Book_Invariant
  imports Price_Book
begin

text \<open>
  The representation invariant of the book and the effect of its operations on what it stands for:
  per side and price, the FIFO queue of resting orders.
\<close>

section \<open>The invariant\<close>

abbreviation sides :: "Side set" where
  "sides \<equiv> {SideBuy, SideSell}"

definition levels_of :: "Book \<Rightarrow> Side \<Rightarrow> addr set" where
  "levels_of b s = set (lh_levels (fst (heapAndIndex b s)))"

text \<open>
  Inside an operation the invariant is broken at one level (its queue may be empty) or at one order
  (it may have nothing left): \<open>X\<close> and \<open>Y\<close> are the excused levels and elements.
\<close>

definition elem_ok :: "elem set \<Rightarrow> Book \<Rightarrow> Side \<Rightarrow> addr \<Rightarrow> elem \<Rightarrow> bool" where
  "elem_ok Y b s a e \<longleftrightarrow> e < b_nextElem b \<and> (e \<in> Y \<or> resting_ok (b_elems b e)) \<and>
     o_Side (b_elems b e) = s \<and> o_PriceCents (b_elems b e) = Some (lv_priceCents (b_mem b a))"

definition level_ok :: "addr set \<Rightarrow> elem set \<Rightarrow> Book \<Rightarrow> Side \<Rightarrow> addr \<Rightarrow> bool" where
  "level_ok X Y b s a \<longleftrightarrow> a < b_nextLevel b \<and> (lv_orders (b_mem b a) \<noteq> [] \<or> a \<in> X) \<and>
     distinct (lv_orders (b_mem b a)) \<and> (\<forall>e\<in>set (lv_orders (b_mem b a)). elem_ok Y b s a e)"

definition index_ok :: "Book \<Rightarrow> Side \<Rightarrow> bool" where
  "index_ok b s \<longleftrightarrow> (\<forall>p a. snd (heapAndIndex b s) p = Some a \<longleftrightarrow>
     a \<in> levels_of b s \<and> lv_priceCents (b_mem b a) = p)"

definition side_ok :: "addr set \<Rightarrow> elem set \<Rightarrow> Book \<Rightarrow> Side \<Rightarrow> bool" where
  "side_ok X Y b s \<longleftrightarrow> lh_ok s (b_mem b, fst (heapAndIndex b s)) \<and> index_ok b s \<and>
     (\<forall>a\<in>levels_of b s. level_ok X Y b s a)"

definition located :: "Book \<Rightarrow> orderLocation \<Rightarrow> bool" where
  "located b l \<longleftrightarrow> loc_side l \<in> sides \<and> loc_lvl l \<in> levels_of b (loc_side l) \<and>
     loc_elem l \<in> set (lv_orders (b_mem b (loc_lvl l)))"

definition locations_ok :: "Book \<Rightarrow> bool" where
  "locations_ok b \<longleftrightarrow> (\<forall>i l. b_locations b i = Some l \<longleftrightarrow> located b l \<and> o_ID (b_elems b (loc_elem l)) = i)"

definition book_ok_ex :: "addr set \<Rightarrow> elem set \<Rightarrow> Book \<Rightarrow> bool" where
  "book_ok_ex X Y b \<longleftrightarrow> (\<forall>s\<in>sides. side_ok X Y b s) \<and>
     levels_of b SideBuy \<inter> levels_of b SideSell = {} \<and> locations_ok b"

abbreviation book_ok :: "Book \<Rightarrow> bool" where
  "book_ok \<equiv> book_ok_ex {} {}"

section \<open>The queues\<close>

definition queue :: "Book \<Rightarrow> Side \<Rightarrow> int64 \<Rightarrow> Order list" where
  "queue b s p =
     (case snd (heapAndIndex b s) p of None \<Rightarrow> [] | Some a \<Rightarrow> map (b_elems b) (lv_orders (b_mem b a)))"

definition resting_ids :: "Book \<Rightarrow> uuid set" where
  "resting_ids b = dom (b_locations b)"

lemma book_okD:
  assumes "book_ok_ex X Y b" "s \<in> sides"
  shows "lh_ok s (b_mem b, fst (heapAndIndex b s))" "index_ok b s"
    "a \<in> levels_of b s \<Longrightarrow> level_ok X Y b s a" "locations_ok b"
  using assms by (auto simp: book_ok_ex_def side_ok_def)

lemma level_side_unique:
  "book_ok_ex X Y b \<Longrightarrow> s \<in> sides \<Longrightarrow> s' \<in> sides \<Longrightarrow> a \<in> levels_of b s \<Longrightarrow> a \<in> levels_of b s' \<Longrightarrow> s = s'"
  by (auto simp: book_ok_ex_def)

lemma location_of:
  assumes "book_ok_ex X Y b" "s \<in> sides" "a \<in> levels_of b s" "e \<in> set (lv_orders (b_mem b a))"
  shows "b_locations b (o_ID (b_elems b e)) = Some \<lparr>loc_side = s, loc_lvl = a, loc_elem = e\<rparr>"
  using book_okD(4) [OF assms(1,2)] assms by (simp add: locations_ok_def located_def)

text \<open>An element sits on one level only, and an id on one element only.\<close>

lemma elem_unique:
  assumes "book_ok_ex X Y b" "s \<in> sides" "a \<in> levels_of b s" "e \<in> set (lv_orders (b_mem b a))"
    and "s' \<in> sides" "a' \<in> levels_of b s'" "e' \<in> set (lv_orders (b_mem b a'))"
    and "o_ID (b_elems b e) = o_ID (b_elems b e')"
  shows "s = s' \<and> a = a' \<and> e = e'"
proof -
  have "Some \<lparr>loc_side = s, loc_lvl = a, loc_elem = e\<rparr> = Some \<lparr>loc_side = s', loc_lvl = a', loc_elem = e'\<rparr>"
    unfolding location_of [OF assms(1-4), symmetric] location_of [OF assms(1,5-7), symmetric]
    by (simp only: assms(8))
  then show ?thesis by simp
qed

lemma index_lookup:
  "book_ok_ex X Y b \<Longrightarrow> s \<in> sides \<Longrightarrow> a \<in> levels_of b s \<Longrightarrow> snd (heapAndIndex b s) (lv_priceCents (b_mem b a)) = Some a"
  using book_okD(2) unfolding index_ok_def by blast

lemma index_level:
  "book_ok_ex X Y b \<Longrightarrow> s \<in> sides \<Longrightarrow> snd (heapAndIndex b s) p = Some a \<Longrightarrow>
   a \<in> levels_of b s \<and> lv_priceCents (b_mem b a) = p"
  using book_okD(2) unfolding index_ok_def by blast

lemma queue_level:
  assumes "book_ok_ex X Y b" "s \<in> sides" "a \<in> levels_of b s"
  shows "queue b s (lv_priceCents (b_mem b a)) = map (b_elems b) (lv_orders (b_mem b a))"
  using index_lookup [OF assms] by (simp add: queue_def)

lemma queue_frame:
  assumes "book_ok_ex X Y b" "s \<in> sides" "heapAndIndex b' s = heapAndIndex b s"
    and "\<And>x. x \<in> levels_of b s \<Longrightarrow> lv_orders (b_mem b' x) = lv_orders (b_mem b x)"
    and "\<And>x e. x \<in> levels_of b s \<Longrightarrow> e \<in> set (lv_orders (b_mem b x)) \<Longrightarrow> b_elems b' e = b_elems b e"
  shows "queue b' s = queue b s"
proof
  show "queue b' s p = queue b s p" for p
    using index_level [OF assms(1,2), of p] assms(3-5) by (auto simp: queue_def split: option.split)
qed

lemma queue_Nil_iff:
  assumes "book_ok_ex {} Y b" "s \<in> sides"
  shows "queue b s p = [] \<longleftrightarrow> snd (heapAndIndex b s) p = None"
  using book_okD(2,3) [OF assms] by (auto simp: queue_def index_ok_def level_ok_def split: option.splits)

lemma heapAndIndex_frame [simp]:
  "heapAndIndex (b\<lparr>b_mem := m\<rparr>) s = heapAndIndex b s"
  "heapAndIndex (b\<lparr>b_elems := el\<rparr>) s = heapAndIndex b s"
  "heapAndIndex (b\<lparr>b_locations := ls\<rparr>) s = heapAndIndex b s"
  "heapAndIndex (b\<lparr>b_nextElem := n\<rparr>) s = heapAndIndex b s"
  "heapAndIndex (b\<lparr>b_nextLevel := n\<rparr>) s = heapAndIndex b s"
  by (simp_all add: heapAndIndex_def)

lemma heapAndIndex_put:
  "s \<in> sides \<Longrightarrow> s' \<in> sides \<Longrightarrow>
   heapAndIndex (put_heapAndIndex s mh idx b) s' = (if s' = s then (snd mh, idx) else heapAndIndex b s')"
  by (auto simp: heapAndIndex_def put_heapAndIndex_def)

lemma put_simps [simp]:
  "b_mem (put_heapAndIndex s mh idx b) = fst mh"
  "b_elems (put_heapAndIndex s mh idx b) = b_elems b"
  "b_locations (put_heapAndIndex s mh idx b) = b_locations b"
  "b_nextElem (put_heapAndIndex s mh idx b) = b_nextElem b"
  "b_nextLevel (put_heapAndIndex s mh idx b) = b_nextLevel b"
  by (simp_all add: put_heapAndIndex_def)

lemma NewBook_ok: "book_ok NewBook"
  by (auto simp: book_ok_ex_def side_ok_def lh_ok_def lh_inv_def index_ok_def levels_of_def heapAndIndex_def
      NewBook_def locations_ok_def located_def cmp_of_def)

lemma queue_NewBook [simp]: "queue NewBook s p = []"
  by (simp add: queue_def NewBook_def heapAndIndex_def)

section \<open>Congruences: what the invariant reads\<close>

lemma lh_ok_cong:
  assumes "lh_ok s (m, h)"
    and "\<And>x. x \<in> set (lh_levels h) \<Longrightarrow> lv_priceCents (m' x) = lv_priceCents (m x) \<and> lv_index (m' x) = lv_index (m x)"
  shows "lh_ok s (m', h)"
proof -
  have eq: "lv_priceCents (m' (lh_levels h ! c)) = lv_priceCents (m (lh_levels h ! c))"
      "lv_index (m' (lh_levels h ! c)) = lv_index (m (lh_levels h ! c))"
    if "c < length (lh_levels h)" for c
    using assms(2) that by auto
  have "par c < length (lh_levels h)" if "0 < c" "c < length (lh_levels h)" for c
    using par_less [OF that(1)] that(2) by simp
  with assms(1) eq show ?thesis by (auto simp: lh_ok_def lh_inv_def)
qed

lemma level_ok_mono: "level_ok X Y b s a \<Longrightarrow> X \<subseteq> X' \<Longrightarrow> Y \<subseteq> Y' \<Longrightarrow> level_ok X' Y' b s a"
  by (auto simp: level_ok_def elem_ok_def)

lemma book_ok_mono: "book_ok_ex X Y b \<Longrightarrow> X \<subseteq> X' \<Longrightarrow> Y \<subseteq> Y' \<Longrightarrow> book_ok_ex X' Y' b"
  unfolding book_ok_ex_def side_ok_def by (blast intro: level_ok_mono)

lemma level_ok_cong:
  assumes "level_ok X Y b s a"
    and "lv_priceCents (b_mem b' a) = lv_priceCents (b_mem b a)" "lv_orders (b_mem b' a) = lv_orders (b_mem b a)"
    and "b_elems b' = b_elems b" "b_nextElem b' = b_nextElem b" "b_nextLevel b \<le> b_nextLevel b'"
  shows "level_ok X Y b' s a"
  using assms by (auto simp: level_ok_def elem_ok_def)

section \<open>\<open>AddResting\<close>\<close>

lemma fresh_level: "book_ok_ex X Y b \<Longrightarrow> s \<in> sides \<Longrightarrow> b_nextLevel b \<notin> levels_of b s"
  by (auto dest: book_okD(3) simp: level_ok_def)

lemma side_ok_frame:
  assumes "side_ok X Y b s" "heapAndIndex b' s = heapAndIndex b s"
    and "\<And>x. x \<in> levels_of b s \<Longrightarrow> b_mem b' x = b_mem b x"
    and "\<And>x e. x \<in> levels_of b s \<Longrightarrow> e \<in> set (lv_orders (b_mem b x)) \<Longrightarrow> b_elems b' e = b_elems b e"
    and "b_nextElem b \<le> b_nextElem b'" "b_nextLevel b \<le> b_nextLevel b'"
  shows "side_ok X Y b' s"
proof -
  have lev: "levels_of b' s = levels_of b s" using assms(2) by (simp add: levels_of_def)
  have "lh_ok s (b_mem b', fst (heapAndIndex b' s))"
    unfolding assms(2) using assms(1,3) by (auto simp: side_ok_def levels_of_def intro: lh_ok_cong)
  moreover have "index_ok b' s"
    using assms(1,2,3) lev by (auto simp: side_ok_def index_ok_def)
  moreover have "level_ok X Y b' s a" if a: "a \<in> levels_of b s" for a
  proof -
    have "level_ok X Y b s a" using assms(1) a by (simp add: side_ok_def)
    moreover have "elem_ok Y b' s a e" if "elem_ok Y b s a e" "e \<in> set (lv_orders (b_mem b a))" for e
      using that assms(3) [OF a] assms(4) [OF a that(2)] assms(5) by (auto simp: elem_ok_def)
    ultimately show ?thesis
      using assms(3) [OF a] assms(6) by (simp add: level_ok_def)
  qed
  ultimately show ?thesis by (simp add: side_ok_def lev)
qed

text \<open>What a new level changes: the heap and index of its side, and nothing else anyone can see.\<close>

lemma level_for_new_effect:
  assumes ok: "book_ok b" and s: "s \<in> sides" and none: "snd (heapAndIndex b s) p = None"
    and lf: "level_for s p b = (b', a)"
  shows "a = b_nextLevel b" "b_nextLevel b' = Suc a" "b_elems b' = b_elems b"
    "b_locations b' = b_locations b" "b_nextElem b' = b_nextElem b"
    "lh_ok s (b_mem b', fst (heapAndIndex b' s))"
    "snd (heapAndIndex b' s) = (snd (heapAndIndex b s))(p \<mapsto> a)"
    "s' \<in> sides \<Longrightarrow> s' \<noteq> s \<Longrightarrow> heapAndIndex b' s' = heapAndIndex b s'"
    "levels_of b' s = insert a (levels_of b s)"
    "x \<noteq> a \<Longrightarrow> x \<notin> levels_of b s \<Longrightarrow> b_mem b' x = b_mem b x"
    "lv_priceCents (b_mem b' x) = (if x = a then p else lv_priceCents (b_mem b x))"
    "lv_orders (b_mem b' x) = (if x = a then [] else lv_orders (b_mem b x))"
proof -
  define h idx where "h = fst (heapAndIndex b s)" and "idx = snd (heapAndIndex b s)"
  define m where "m = (b_mem b)(b_nextLevel b := \<lparr>lv_priceCents = p, lv_orders = [], lv_index = 0\<rparr>)"
  obtain m' h' where push: "heap_Push lh_Len lh_Less lh_Swap lh_Push (b_nextLevel b) (m, h) = (m', h')"
    by fastforce
  have a: "a = b_nextLevel b"
    and b': "b' = put_heapAndIndex s (m', h') (idx(p \<mapsto> a)) (b\<lparr>b_nextLevel := Suc a\<rparr>)"
    using lf none push by (auto simp: level_for_def h_def idx_def m_def Let_def split: prod.splits)
  have h: "set (lh_levels h) = levels_of b s" by (simp add: levels_of_def h_def)
  have new: "b_nextLevel b \<notin> set (lh_levels h)"
    using fresh_level [OF ok s] h by simp
  have "lh_ok s (b_mem b, h)" using book_okD(1) [OF ok s] by (simp add: h_def)
  then have "lh_ok s (m, h)"
    by (rule lh_ok_cong) (use new in \<open>auto simp: m_def\<close>)
  note hp = lh_heap_Push [OF this new push, unfolded h]
  show "a = b_nextLevel b" "b_nextLevel b' = Suc a" "b_elems b' = b_elems b"
    "b_locations b' = b_locations b" "b_nextElem b' = b_nextElem b"
    using a by (simp_all add: b')
  have hai: "heapAndIndex b' s = (h', idx(p \<mapsto> a))" using s by (simp add: b' heapAndIndex_put)
  then show "lh_ok s (b_mem b', fst (heapAndIndex b' s))"
    "snd (heapAndIndex b' s) = (snd (heapAndIndex b s))(p \<mapsto> a)"
    "levels_of b' s = insert a (levels_of b s)"
    using hp(1,2) a by (simp_all add: b' idx_def levels_of_def)
  show "s' \<in> sides \<Longrightarrow> s' \<noteq> s \<Longrightarrow> heapAndIndex b' s' = heapAndIndex b s'"
    using s by (simp add: b' heapAndIndex_put)
  show "x \<noteq> a \<Longrightarrow> x \<notin> levels_of b s \<Longrightarrow> b_mem b' x = b_mem b x"
    "lv_priceCents (b_mem b' x) = (if x = a then p else lv_priceCents (b_mem b x))"
    "lv_orders (b_mem b' x) = (if x = a then [] else lv_orders (b_mem b x))"
    using hp(3) by (auto simp: lh_frame_def m_def a b')
qed

lemma level_for_new_side:
  assumes ok: "book_ok b" and s: "s \<in> sides" and none: "snd (heapAndIndex b s) p = None"
    and lf: "level_for s p b = (b', a)" and s': "s' \<in> sides"
  shows "side_ok {a} {} b' s' \<and> queue b' s' = queue b s'"
proof (cases "s' = s")
  case False
  note ef = level_for_new_effect [OF ok s none lf]
  have mem: "b_mem b' x = b_mem b x" if x: "x \<in> levels_of b s'" for x
  proof (rule ef(10))
    show "x \<noteq> a" using x fresh_level [OF ok s'] ef(1) by blast
    show "x \<notin> levels_of b s" using x False level_side_unique [OF ok s' s] by blast
  qed
  have "side_ok {a} {} b s'"
    using book_ok_mono [OF ok, of "{a}" "{}"] s' by (auto simp: book_ok_ex_def)
  then have "side_ok {a} {} b' s'"
    by (rule side_ok_frame) (use ef(1-5) ef(8) [OF s' False] mem in simp_all)
  moreover have "queue b' s' = queue b s'"
    using ok s' ef(8) [OF s' False] by (rule queue_frame) (simp_all add: mem ef(3))
  ultimately show ?thesis by blast
next
  case True
  note ef = level_for_new_effect [OF ok s none lf]
  have new: "a \<notin> levels_of b s" using fresh_level [OF ok s] ef(1) by simp
  note ix = book_okD(2) [OF ok s, unfolded index_ok_def, rule_format]
  have "((snd (heapAndIndex b s))(p \<mapsto> a)) q = Some x \<longleftrightarrow>
      x \<in> insert a (levels_of b s) \<and> (if x = a then p else lv_priceCents (b_mem b x)) = q" for q x
    using ix [of q x] none index_lookup [OF ok s, of x] new
    by (cases "q = p"; cases "x = a") auto
  then have "index_ok b' s"
    unfolding index_ok_def ef(7,9,11) by blast
  moreover have "level_ok {a} {} b' s x" if x: "x \<in> levels_of b' s" for x
  proof (cases "x = a")
    case True
    then show ?thesis using ef(1,2,12) by (simp add: level_ok_def)
  next
    case False
    with x have "x \<in> levels_of b s" by (simp add: ef(9))
    from book_okD(3) [OF ok s this] have "level_ok {a} {} b s x"
      by (rule level_ok_mono) auto
    then show ?thesis
      by (rule level_ok_cong) (use False ef(1-5,11,12) in simp_all)
  qed
  moreover have "queue b' s q = queue b s q" for q
    using index_level [OF ok s, of q] new none ef(3,12) by (auto simp: queue_def ef(7) split: option.split)
  ultimately show ?thesis
    using True ef(6) by (auto simp: side_ok_def)
qed

lemma level_for_new:
  assumes ok: "book_ok b" and s: "s \<in> sides" and none: "snd (heapAndIndex b s) p = None"
    and lf: "level_for s p b = (b', a)"
  shows "book_ok_ex {a} {} b' \<and> a \<in> levels_of b' s \<and> lv_priceCents (b_mem b' a) = p \<and>
    b_elems b' = b_elems b \<and> b_locations b' = b_locations b \<and> b_nextElem b' = b_nextElem b \<and>
    (\<forall>s'\<in>sides. queue b' s' = queue b s')"
proof -
  note ef = level_for_new_effect [OF ok s none lf]
  have lev: "levels_of b' s' = (if s' = s then insert a (levels_of b s) else levels_of b s')" if "s' \<in> sides" for s'
    using ef(8) [OF that] ef(9) by (auto simp: levels_of_def)
  have new: "a \<notin> levels_of b s'" if "s' \<in> sides" for s'
    using fresh_level [OF ok that] ef(1) by simp
  have "levels_of b' SideBuy \<inter> levels_of b' SideSell = {}"
    using ok new s by (auto simp: book_ok_ex_def lev)
  moreover have "located b' l = located b l" for l
    using new by (auto simp: located_def lev ef(12) split: if_splits)
  then have "locations_ok b'" using book_okD(4) [OF ok s] by (simp add: locations_ok_def ef(3,4))
  ultimately show ?thesis
    using level_for_new_side [OF ok s none lf] ef by (simp add: book_ok_ex_def)
qed

lemma level_for_ok:
  assumes "book_ok b" "s \<in> sides" "level_for s p b = (b', a)"
  shows "book_ok_ex {a} {} b' \<and> a \<in> levels_of b' s \<and> lv_priceCents (b_mem b' a) = p \<and>
    b_elems b' = b_elems b \<and> b_locations b' = b_locations b \<and> b_nextElem b' = b_nextElem b \<and>
    (\<forall>s'\<in>sides. queue b' s' = queue b s')"
proof (cases "snd (heapAndIndex b s) p")
  case None
  then show ?thesis using level_for_new [OF assms(1,2) None assms(3)] by blast
next
  case (Some x)
  then have "b' = b" "a = x"
    using assms(3) by (auto simp: level_for_def split: prod.splits)
  moreover have "x \<in> levels_of b s \<and> lv_priceCents (b_mem b x) = p"
    using Some book_okD(2) [OF assms(1,2)] by (simp add: index_ok_def)
  moreover have "book_ok_ex {a} {} b" using assms(1) by (rule book_ok_mono) auto
  ultimately show ?thesis by auto
qed

text \<open>\<open>PushBack\<close> and the new location: the queue of that level grows at its end.\<close>

lemma push_back_simps [simp]:
  "heapAndIndex (push_back a ord b) s = heapAndIndex b s"
  "levels_of (push_back a ord b) s = levels_of b s"
  "b_nextElem (push_back a ord b) = Suc (b_nextElem b)"
  "b_nextLevel (push_back a ord b) = b_nextLevel b"
  "b_elems (push_back a ord b) = (b_elems b)(b_nextElem b := ord)"
  "b_locations (push_back a ord b) = (b_locations b)(o_ID ord \<mapsto>
     \<lparr>loc_side = o_Side ord, loc_lvl = a, loc_elem = b_nextElem b\<rparr>)"
  "lv_priceCents (b_mem (push_back a ord b) x) = lv_priceCents (b_mem b x)"
  "lv_index (b_mem (push_back a ord b) x) = lv_index (b_mem b x)"
  "lv_orders (b_mem (push_back a ord b) x) =
     (if x = a then lv_orders (b_mem b a) @ [b_nextElem b] else lv_orders (b_mem b x))"
  by (simp_all add: push_back_def Let_def levels_of_def)

lemma elem_bound:
  "book_ok_ex X Y b \<Longrightarrow> s \<in> sides \<Longrightarrow> x \<in> levels_of b s \<Longrightarrow> e \<in> set (lv_orders (b_mem b x)) \<Longrightarrow> e < b_nextElem b"
  by (auto dest: book_okD(3) simp: level_ok_def elem_ok_def)

lemma push_back_side:
  assumes ok: "book_ok_ex {a} {} b" and a: "a \<in> levels_of b (o_Side ord)"
    and price: "o_PriceCents ord = Some (lv_priceCents (b_mem b a))" and rest: "resting_ok ord"
    and s: "s \<in> sides"
  shows "side_ok {} {} (push_back a ord b) s"
proof -
  let ?b = "push_back a ord b"
  have os: "o_Side ord \<in> sides" using rest by (auto simp: resting_ok_def)
  have "lh_ok s (b_mem ?b, fst (heapAndIndex ?b s))"
    using book_okD(1) [OF ok s] by (auto intro: lh_ok_cong)
  moreover have "index_ok ?b s"
    using book_okD(2) [OF ok s] by (simp add: index_ok_def)
  moreover have "level_ok {} {} ?b s x" if x: "x \<in> levels_of b s" for x
  proof -
    have lo: "level_ok {a} {} b s x" by (rule book_okD(3) [OF ok s x])
    have "elem_ok {} ?b s x e" if "e \<in> set (lv_orders (b_mem b x))" for e
      using lo that by (auto simp: level_ok_def elem_ok_def)
    moreover have "elem_ok {} ?b s x (b_nextElem b)" if "x = a"
      using that rest price level_side_unique [OF ok os s a] x by (auto simp: elem_ok_def)
    moreover have "b_nextElem b \<notin> set (lv_orders (b_mem b x))"
      using elem_bound [OF ok s x] by blast
    ultimately show ?thesis using lo by (auto simp: level_ok_def)
  qed
  ultimately show ?thesis by (simp add: side_ok_def)
qed

lemma push_back_located:
  assumes ok: "book_ok_ex {a} {} b" and a: "a \<in> levels_of b (o_Side ord)" and os: "o_Side ord \<in> sides"
  shows "located (push_back a ord b) l \<longleftrightarrow>
    located b l \<or> l = \<lparr>loc_side = o_Side ord, loc_lvl = a, loc_elem = b_nextElem b\<rparr>"
proof (cases "loc_lvl l = a")
  case True
  have "loc_side l = o_Side ord" if "loc_side l \<in> sides" "a \<in> levels_of b (loc_side l)"
    using level_side_unique [OF ok that(1) os that(2) a] .
  with True a os show ?thesis by (cases l) (auto simp: located_def simp del: insert_iff)
next
  case False
  then show ?thesis by (auto simp: located_def simp del: insert_iff)
qed

lemma push_back_ok:
  assumes ok: "book_ok_ex {a} {} b" and a: "a \<in> levels_of b (o_Side ord)"
    and price: "o_PriceCents ord = Some (lv_priceCents (b_mem b a))" and rest: "resting_ok ord"
    and fresh: "o_ID ord \<notin> resting_ids b"
  shows "book_ok (push_back a ord b)"
proof -
  have os: "o_Side ord \<in> sides" using rest by (auto simp: resting_ok_def)
  note locs = book_okD(4) [OF ok os, unfolded locations_ok_def, rule_format]
  have bound: "loc_elem l \<noteq> b_nextElem b" if "located b l" for l
    using that elem_bound [OF ok, of "loc_side l" "loc_lvl l" "loc_elem l"] by (auto simp: located_def)
  have other: "o_ID (b_elems b (loc_elem l)) \<noteq> o_ID ord" if "located b l" for l
    using that fresh locs [of "o_ID (b_elems b (loc_elem l))" l] by (metis resting_ids_def domI)
  let ?l = "\<lparr>loc_side = o_Side ord, loc_lvl = a, loc_elem = b_nextElem b\<rparr>"
  have nl: "\<not> located b ?l" using bound [of ?l] by auto
  have "b_locations (push_back a ord b) i = Some l \<longleftrightarrow>
      (located b l \<or> l = ?l) \<and> o_ID (b_elems (push_back a ord b) (loc_elem l)) = i" for i l
  proof (cases "l = ?l")
    case True
    have "b_locations b i \<noteq> Some ?l" using nl locs [of i ?l] by simp
    with True show ?thesis by auto
  next
    case False
    have "o_ID (b_elems (push_back a ord b) (loc_elem l)) = o_ID (b_elems b (loc_elem l))" if "located b l"
      using bound [OF that] by simp
    moreover have "b_locations (push_back a ord b) i = Some l \<longleftrightarrow> i \<noteq> o_ID ord \<and> b_locations b i = Some l"
      using False by auto
    ultimately show ?thesis using False locs [of i l] other [of l] by (cases "located b l") auto
  qed
  then have "locations_ok (push_back a ord b)"
    by (simp add: locations_ok_def push_back_located [OF ok a os])
  moreover have "levels_of b SideBuy \<inter> levels_of b SideSell = {}" using ok by (simp add: book_ok_ex_def)
  ultimately show ?thesis
    using push_back_side [OF ok a price rest] by (simp add: book_ok_ex_def)
qed

lemma push_back_queue:
  assumes ok: "book_ok_ex {a} {} b" and a: "a \<in> levels_of b (o_Side ord)" and os: "o_Side ord \<in> sides"
    and s: "s \<in> sides"
  shows "queue (push_back a ord b) s q =
    (if s = o_Side ord \<and> q = lv_priceCents (b_mem b a) then queue b s q @ [ord] else queue b s q)"
proof (cases "snd (heapAndIndex b s) q")
  case None
  then show ?thesis
    using index_lookup [OF ok os a] by (auto simp: queue_def)
next
  case (Some x)
  then have x: "x \<in> levels_of b s" "lv_priceCents (b_mem b x) = q"
    using index_level [OF ok s] by auto
  have "b_elems (push_back a ord b) e = b_elems b e" if "e \<in> set (lv_orders (b_mem b x))" for e
    using elem_bound [OF ok s x(1) that] by simp
  then have "map (b_elems (push_back a ord b)) (lv_orders (b_mem b x)) = map (b_elems b) (lv_orders (b_mem b x))"
    by simp
  moreover have "x = a \<longleftrightarrow> s = o_Side ord \<and> q = lv_priceCents (b_mem b a)"
    by (metis x Some option.inject level_side_unique [OF ok s os _ a] index_lookup [OF ok os a])
  ultimately show ?thesis
    using Some by (cases "x = a") (auto simp: queue_def)
qed

text \<open>
  \<open>AddResting\<close> of a fresh well-formed order: no panic, invariant kept, the order at the back of the
  queue of its side and price and every other queue untouched.
\<close>

lemma AddResting_ok:
  assumes ok: "book_ok b" and rest: "resting_ok ord" and fresh: "o_ID ord \<notin> resting_ids b"
  shows "\<exists>b'. AddResting ord b = Inr b' \<and> book_ok b' \<and>
    resting_ids b' = insert (o_ID ord) (resting_ids b) \<and>
    (\<forall>s\<in>sides. \<forall>q. queue b' s q =
       (if s = o_Side ord \<and> o_PriceCents ord = Some q then queue b s q @ [ord] else queue b s q))"
proof -
  obtain p where p: "o_PriceCents ord = Some p" and os: "o_Side ord \<in> sides"
    using rest by (auto simp: resting_ok_def)
  obtain b1 a where lf: "level_for (o_Side ord) p b = (b1, a)" by fastforce
  note l = level_for_ok [OF ok os lf]
  then have ok1: "book_ok_ex {a} {} b1" and a: "a \<in> levels_of b1 (o_Side ord)"
    and pa: "lv_priceCents (b_mem b1 a) = p" by auto
  have "book_ok (push_back a ord b1)"
    using ok1 a _ rest by (rule push_back_ok) (use p pa fresh l in \<open>auto simp: resting_ids_def\<close>)
  moreover have "queue (push_back a ord b1) s q =
      (if s = o_Side ord \<and> o_PriceCents ord = Some q then queue b s q @ [ord] else queue b s q)"
    if "s \<in> sides" for s q
    using push_back_queue [OF ok1 a os that] l that p pa by auto
  moreover have "resting_ids (push_back a ord b1) = insert (o_ID ord) (resting_ids b)"
    using l by (auto simp: resting_ids_def)
  ultimately show ?thesis by (simp add: AddResting_def p lf)
qed

section \<open>\<open>removeFront\<close>\<close>

text \<open>Taking the element off the list and the id out of the locations.\<close>

definition unlink :: "addr \<Rightarrow> elem \<Rightarrow> uuid \<Rightarrow> Book \<Rightarrow> Book" where
  "unlink a e i b =
     b\<lparr>b_mem := (b_mem b)(a := (b_mem b a)\<lparr>lv_orders := remove1 e (lv_orders (b_mem b a))\<rparr>),
       b_locations := (b_locations b)(i := None)\<rparr>"

lemma unlink_simps [simp]:
  "heapAndIndex (unlink a e i b) s = heapAndIndex b s"
  "levels_of (unlink a e i b) s = levels_of b s"
  "b_nextElem (unlink a e i b) = b_nextElem b"
  "b_nextLevel (unlink a e i b) = b_nextLevel b"
  "b_elems (unlink a e i b) = b_elems b"
  "b_locations (unlink a e i b) = (b_locations b)(i := None)"
  "lv_priceCents (b_mem (unlink a e i b) x) = lv_priceCents (b_mem b x)"
  "lv_index (b_mem (unlink a e i b) x) = lv_index (b_mem b x)"
  "lv_orders (b_mem (unlink a e i b) x) =
     (if x = a then remove1 e (lv_orders (b_mem b a)) else lv_orders (b_mem b x))"
  by (simp_all add: unlink_def levels_of_def)

lemma unlink_side:
  assumes ok: "book_ok_ex {} {e} b" and s: "s \<in> sides" and a: "a \<in> levels_of b s"
    and e: "e \<in> set (lv_orders (b_mem b a))" and s': "s' \<in> sides"
  shows "side_ok {a} {} (unlink a e i b) s'"
proof -
  let ?b = "unlink a e i b"
  have "lh_ok s' (b_mem ?b, fst (heapAndIndex ?b s'))"
    using book_okD(1) [OF ok s'] by (auto intro: lh_ok_cong)
  moreover have "index_ok ?b s'"
    using book_okD(2) [OF ok s'] by (simp add: index_ok_def)
  moreover have "level_ok {a} {} ?b s' x" if x: "x \<in> levels_of b s'" for x
  proof -
    have lo: "level_ok {} {e} b s' x" by (rule book_okD(3) [OF ok s' x])
    have "x = a" if "e \<in> set (lv_orders (b_mem b x))"
      using elem_unique [OF ok s a e s' x that] by simp
    with lo show ?thesis by (auto simp: level_ok_def elem_ok_def)
  qed
  ultimately show ?thesis by (simp add: side_ok_def)
qed

lemma unlink_ok:
  assumes ok: "book_ok_ex {} {e} b" and s: "s \<in> sides" and a: "a \<in> levels_of b s"
    and e: "e \<in> set (lv_orders (b_mem b a))" and i: "i = o_ID (b_elems b e)"
  shows "book_ok_ex {a} {} (unlink a e i b)"
proof -
  let ?b = "unlink a e i b"
  note locs = book_okD(4) [OF ok s, unfolded locations_ok_def, rule_format]
  have "distinct (lv_orders (b_mem b a))" using book_okD(3) [OF ok s a] by (simp add: level_ok_def)
  then have *: "located ?b l \<longleftrightarrow> located b l \<and> \<not> (loc_lvl l = a \<and> loc_elem l = e)" for l
    by (auto simp: located_def simp del: insert_iff)
  have "loc_lvl l = a \<and> loc_elem l = e \<longleftrightarrow> o_ID (b_elems b (loc_elem l)) = i" if "located b l" for l
    using that elem_unique [OF ok, of "loc_side l" "loc_lvl l" "loc_elem l" s a e] s a e i
    by (auto simp: located_def simp del: insert_iff)
  then have "locations_ok ?b"
    using locs by (auto simp: locations_ok_def *)
  moreover have "levels_of b SideBuy \<inter> levels_of b SideSell = {}" using ok by (simp add: book_ok_ex_def)
  ultimately show ?thesis using unlink_side [OF ok s a e] by (simp add: book_ok_ex_def)
qed

lemma unlink_queue:
  assumes ok: "book_ok_ex {} {e} b" and s: "s \<in> sides" and a: "a \<in> levels_of b s"
    and e: "e \<in> set (lv_orders (b_mem b a))" and i: "i = o_ID (b_elems b e)" and s': "s' \<in> sides"
  shows "queue (unlink a e i b) s' q = filter (\<lambda>x. o_ID x \<noteq> i) (queue b s' q)"
proof (cases "snd (heapAndIndex b s') q")
  case None
  then show ?thesis by (simp add: queue_def)
next
  case (Some x)
  then have x: "x \<in> levels_of b s'" using index_level [OF ok s'] by blast
  have d: "distinct (lv_orders (b_mem b x))" using book_okD(3) [OF ok s' x] by (simp add: level_ok_def)
  have u: "e' = e \<and> x = a \<longleftrightarrow> o_ID (b_elems b e') = i" if "e' \<in> set (lv_orders (b_mem b x))" for e'
    using elem_unique [OF ok s' x that s a e] i by auto
  have "filter (\<lambda>e'. o_ID (b_elems b e') \<noteq> i) (lv_orders (b_mem b x)) = filter (\<lambda>e'. \<not> (e' = e \<and> x = a)) (lv_orders (b_mem b x))"
    using u by (intro filter_cong) auto
  also have "\<dots> = lv_orders (b_mem (unlink a e i b) x)"
    using d by (auto simp: distinct_remove1_removeAll removeAll_filter_not_eq intro!: filter_cong)
  finally show ?thesis using Some by (simp add: queue_def filter_map o_def)
qed

text \<open>Removing an emptied level from the heap and the index.\<close>

definition pruned :: "Side \<Rightarrow> addr \<Rightarrow> mem \<times> levelHeap \<Rightarrow> Book \<Rightarrow> Book" where
  "pruned s a mh b = put_heapAndIndex s mh ((snd (heapAndIndex b s))(lv_priceCents (b_mem b a) := None)) b"

lemma pruned_simps [simp]:
  "b_elems (pruned s a mh b) = b_elems b" "b_locations (pruned s a mh b) = b_locations b"
  "b_nextElem (pruned s a mh b) = b_nextElem b" "b_nextLevel (pruned s a mh b) = b_nextLevel b"
  by (simp_all add: pruned_def)

lemma prune_effect:
  assumes ok: "book_ok_ex {a} {} b" and s: "s \<in> sides" and a: "a \<in> levels_of b s"
    and r: "heap_Remove lh_Len lh_Less lh_Swap lh_Pop (b_mem b, fst (heapAndIndex b s)) (lv_index (b_mem b a)) = Inr mh"
  shows "lh_ok s (b_mem (pruned s a mh b), fst (heapAndIndex (pruned s a mh b) s))"
    "snd (heapAndIndex (pruned s a mh b) s) = (snd (heapAndIndex b s))(lv_priceCents (b_mem b a) := None)"
    "s' \<in> sides \<Longrightarrow> s' \<noteq> s \<Longrightarrow> heapAndIndex (pruned s a mh b) s' = heapAndIndex b s'"
    "levels_of (pruned s a mh b) s = levels_of b s - {a}"
    "x \<notin> levels_of b s \<Longrightarrow> b_mem (pruned s a mh b) x = b_mem b x"
    "lv_priceCents (b_mem (pruned s a mh b) x) = lv_priceCents (b_mem b x)"
    "lv_orders (b_mem (pruned s a mh b) x) = lv_orders (b_mem b x)"
proof -
  have h: "set (lh_levels (fst (heapAndIndex b s))) = levels_of b s" by (simp add: levels_of_def)
  have hp: "lh_ok s mh" "set (lh_levels (snd mh)) = levels_of b s - {a}" "lh_frame (b_mem b) (levels_of b s) mh"
  proof -
    obtain m' h' where r': "heap_Remove lh_Len lh_Less lh_Swap lh_Pop (b_mem b, fst (heapAndIndex b s))
        (lv_index (b_mem b a)) = Inr (m', h')" and *: "lh_ok s (m', h')"
      "set (lh_levels h') = levels_of b s - {a}" "lh_frame (b_mem b) (levels_of b s) (m', h')"
      using lh_heap_Remove [OF book_okD(1) [OF ok s], of a] a unfolding h by blast
    from r r' have "mh = (m', h')" by simp
    with * show "lh_ok s mh" "set (lh_levels (snd mh)) = levels_of b s - {a}" "lh_frame (b_mem b) (levels_of b s) mh"
      by simp_all
  qed
  have hai: "heapAndIndex (pruned s a mh b) s' =
      (if s' = s then (snd mh, (snd (heapAndIndex b s))(lv_priceCents (b_mem b a) := None)) else heapAndIndex b s')"
    if "s' \<in> sides" for s'
    using that s by (simp add: pruned_def heapAndIndex_put)
  show "lh_ok s (b_mem (pruned s a mh b), fst (heapAndIndex (pruned s a mh b) s))"
    "snd (heapAndIndex (pruned s a mh b) s) = (snd (heapAndIndex b s))(lv_priceCents (b_mem b a) := None)"
    "s' \<in> sides \<Longrightarrow> s' \<noteq> s \<Longrightarrow> heapAndIndex (pruned s a mh b) s' = heapAndIndex b s'"
    "levels_of (pruned s a mh b) s = levels_of b s - {a}"
    using hp(1,2) hai [OF s] by (simp_all add: levels_of_def hai) (simp add: pruned_def)
  show "x \<notin> levels_of b s \<Longrightarrow> b_mem (pruned s a mh b) x = b_mem b x"
    "lv_priceCents (b_mem (pruned s a mh b) x) = lv_priceCents (b_mem b x)"
    "lv_orders (b_mem (pruned s a mh b) x) = lv_orders (b_mem b x)"
    using hp(3) by (simp_all add: pruned_def lh_frame_def)
qed

lemma prune_side:
  assumes ok: "book_ok_ex {a} {} b" and s: "s \<in> sides" and a: "a \<in> levels_of b s"
    and r: "heap_Remove lh_Len lh_Less lh_Swap lh_Pop (b_mem b, fst (heapAndIndex b s)) (lv_index (b_mem b a)) = Inr mh"
    and s': "s' \<in> sides"
  shows "side_ok {} {} (pruned s a mh b) s'"
proof -
  note ef = prune_effect [OF ok s a r]
  have lvl: "level_ok {} {} b s' x" if "x \<in> levels_of b s'" "x \<noteq> a" for x
    using book_okD(3) [OF ok s' that(1)] that(2) by (auto simp: level_ok_def)
  show ?thesis
  proof (cases "s' = s")
    case True
    have "((snd (heapAndIndex b s))(lv_priceCents (b_mem b a) := None)) q = Some x \<longleftrightarrow>
        x \<in> levels_of b s - {a} \<and> lv_priceCents (b_mem b x) = q" for q x
      using index_lookup [OF ok s a] index_level [OF ok s, of q x] index_lookup [OF ok s, of x]
      by (cases "q = lv_priceCents (b_mem b a)") auto
    then have "index_ok (pruned s a mh b) s" unfolding index_ok_def ef(2,4,6) by blast
    moreover have "level_ok {} {} (pruned s a mh b) s x" if "x \<in> levels_of b s" "x \<noteq> a" for x
      using lvl [unfolded True, OF that] by (rule level_ok_cong) (simp_all add: ef(6,7))
    ultimately show ?thesis using ef(1) by (auto simp: True side_ok_def ef(4))
  next
    case False
    have na: "x \<notin> levels_of b s \<and> x \<noteq> a" if "x \<in> levels_of b s'" for x
      using level_side_unique [OF ok s' s that] a False by blast
    have "side_ok {} {} b s'"
      using book_okD [OF ok s'] lvl na by (auto simp: side_ok_def)
    then show ?thesis
      by (rule side_ok_frame) (use ef(3) [OF s' False] na ef(5) in auto)
  qed
qed

lemma prune_ok:
  assumes ok: "book_ok_ex {a} {} b" and s: "s \<in> sides" and a: "a \<in> levels_of b s"
    and r: "heap_Remove lh_Len lh_Less lh_Swap lh_Pop (b_mem b, fst (heapAndIndex b s)) (lv_index (b_mem b a)) = Inr mh"
    and empty: "lv_orders (b_mem b a) = []"
  shows "book_ok (pruned s a mh b) \<and> (\<forall>s'\<in>sides. queue (pruned s a mh b) s' = queue b s')"
proof -
  note ef = prune_effect [OF ok s a r]
  have lev: "levels_of (pruned s a mh b) s' = (if s' = s then levels_of b s - {a} else levels_of b s')" if "s' \<in> sides" for s'
    using ef(4) ef(3) [OF that] by (auto simp: levels_of_def)
  have "levels_of (pruned s a mh b) SideBuy \<inter> levels_of (pruned s a mh b) SideSell = {}"
    using ok by (auto simp: book_ok_ex_def lev)
  moreover have "located (pruned s a mh b) l = located b l" for l
    using empty by (auto simp: located_def lev ef(7) split: if_splits)
  then have "locations_ok (pruned s a mh b)" using book_okD(4) [OF ok s] by (simp add: locations_ok_def)
  moreover have "queue (pruned s a mh b) s' q = queue b s' q" if "s' \<in> sides" for s' q
    using ef(3) [OF that] ef(2) empty index_lookup [OF ok s a] ef(7) by (cases "s' = s") (auto simp: queue_def split: option.split)
  ultimately show ?thesis
    using prune_side [OF ok s a r] by (auto simp: book_ok_ex_def)
qed

text \<open>
  \<open>removeFront\<close> of an order that is on that level, wherever in the queue: no panic, invariant kept,
  the id gone from every queue and from the locations, and nothing else changed. One order may have
  been filled completely (it is the one removed).
\<close>

lemma removeFront_ok:
  assumes ok: "book_ok_ex {} {e} b" and s: "s \<in> sides" and a: "a \<in> levels_of b s"
    and e: "e \<in> set (lv_orders (b_mem b a))" and i: "o_ID ord = o_ID (b_elems b e)"
  shows "\<exists>b'. removeFront ord s a b = Inr b' \<and> book_ok b' \<and> b_elems b' = b_elems b \<and>
    b_locations b' = (b_locations b)(o_ID ord := None) \<and> resting_ids b' = resting_ids b - {o_ID ord} \<and>
    (\<forall>s'\<in>sides. \<forall>q. queue b' s' q = filter (\<lambda>x. o_ID x \<noteq> o_ID ord) (queue b s' q))"
proof -
  define b1 where "b1 = unlink a e (o_ID ord) b"
  have ok1: "book_ok_ex {a} {} b1" unfolding b1_def using ok s a e i by (rule unlink_ok)
  have q1: "queue b1 s' q = filter (\<lambda>x. o_ID x \<noteq> o_ID ord) (queue b s' q)" if "s' \<in> sides" for s' q
    unfolding b1_def using ok s a e i that by (rule unlink_queue)
  have a1: "a \<in> levels_of b1 s" using a by (simp add: b1_def)
  have loc: "b_locations b (o_ID ord) = Some \<lparr>loc_side = s, loc_lvl = a, loc_elem = e\<rparr>"
    using location_of [OF ok s a e] i by simp
  have ids: "resting_ids b1 = resting_ids b - {o_ID ord}" "b_elems b1 = b_elems b"
      "b_locations b1 = (b_locations b)(o_ID ord := None)"
    by (auto simp: resting_ids_def b1_def)
  have rf: "removeFront ord s a b = (if lv_orders (b_mem b1 a) = [] then
      (case heap_Remove lh_Len lh_Less lh_Swap lh_Pop (b_mem b1, fst (heapAndIndex b1 s)) (lv_index (b_mem b1 a)) of
         Inl p \<Rightarrow> Inl p | Inr mh \<Rightarrow> Inr (pruned s a mh b1)) else Inr b1)"
    by (simp add: removeFront_def loc b1_def unlink_def pruned_def Let_def split: prod.split sum.split)
  show ?thesis
  proof (cases "lv_orders (b_mem b1 a) = []")
    case True
    obtain mh where r: "heap_Remove lh_Len lh_Less lh_Swap lh_Pop (b_mem b1, fst (heapAndIndex b1 s))
        (lv_index (b_mem b1 a)) = Inr mh"
      using lh_heap_Remove [OF book_okD(1) [OF ok1 s], of a] a1 by (auto simp: levels_of_def)
    with prune_ok [OF ok1 s a1 r True] True ids q1 rf show ?thesis
      by (simp add: resting_ids_def)
  next
    case False
    then have "side_ok {} {} b1 s'" if "s' \<in> sides" for s'
      using ok1 that by (auto simp: book_ok_ex_def side_ok_def level_ok_def)
    with ok1 have "book_ok b1" by (auto simp: book_ok_ex_def)
    with False ids q1 rf show ?thesis by simp
  qed
qed

text \<open>\<open>Cancel\<close> by id, on both branches.\<close>

lemma CancelResting_ok:
  assumes ok: "book_ok b"
  shows "i \<notin> resting_ids b \<Longrightarrow> CancelResting i b = Inr (None, b)"
    and "i \<in> resting_ids b \<Longrightarrow>
      \<exists>b' ord. CancelResting i b = Inr (Some ord, b') \<and> book_ok b' \<and> o_ID ord = i \<and> resting_ok ord \<and>
        resting_ids b' = resting_ids b - {i} \<and>
        (\<exists>p. o_PriceCents ord = Some p \<and> ord \<in> set (queue b (o_Side ord) p)) \<and>
        (\<forall>s\<in>sides. \<forall>q. queue b' s q = filter (\<lambda>x. o_ID x \<noteq> i) (queue b s q))"
proof -
  show "i \<notin> resting_ids b \<Longrightarrow> CancelResting i b = Inr (None, b)"
    by (simp add: CancelResting_def resting_ids_def dom_def)
  assume "i \<in> resting_ids b"
  then obtain l where l: "b_locations b i = Some l" by (auto simp: resting_ids_def)
  have "locations_ok b" using ok by (simp add: book_ok_ex_def)
  with l have loc: "loc_side l \<in> sides" "loc_lvl l \<in> levels_of b (loc_side l)"
      "loc_elem l \<in> set (lv_orders (b_mem b (loc_lvl l)))" "o_ID (b_elems b (loc_elem l)) = i"
    unfolding locations_ok_def located_def by blast+
  let ?o = "b_elems b (loc_elem l)"
  have ok': "book_ok_ex {} {loc_elem l} b" using ok by (rule book_ok_mono) auto
  have e: "elem_ok {} b (loc_side l) (loc_lvl l) (loc_elem l)"
    using book_okD(3) [OF ok loc(1,2)] loc(3) by (simp add: level_ok_def)
  have "?o \<in> set (queue b (loc_side l) (lv_priceCents (b_mem b (loc_lvl l))))"
    using queue_level [OF ok loc(1,2)] loc(3) by simp
  with e have "resting_ok ?o \<and> (\<exists>p. o_PriceCents ?o = Some p \<and> ?o \<in> set (queue b (o_Side ?o) p))"
    by (simp add: elem_ok_def)
  moreover obtain b' where "removeFront ?o (loc_side l) (loc_lvl l) b = Inr b'" "book_ok b'"
      "resting_ids b' = resting_ids b - {i}"
      "\<forall>s\<in>sides. \<forall>q. queue b' s q = filter (\<lambda>x. o_ID x \<noteq> i) (queue b s q)"
    using removeFront_ok [OF ok' loc(1-3), of ?o] loc(4) by auto
  ultimately show "\<exists>b' ord. CancelResting i b = Inr (Some ord, b') \<and> book_ok b' \<and> o_ID ord = i \<and> resting_ok ord \<and>
        resting_ids b' = resting_ids b - {i} \<and>
        (\<exists>p. o_PriceCents ord = Some p \<and> ord \<in> set (queue b (o_Side ord) p)) \<and>
        (\<forall>s\<in>sides. \<forall>q. queue b' s q = filter (\<lambda>x. o_ID x \<noteq> i) (queue b s q))"
    using l loc(4) by (simp add: CancelResting_def)
qed

end
