(* ===== verification/Book_Priority.thy ===== *)
theory Book_Priority
  imports Book_Invariant
begin

text \<open>
  The abstract view of the book: per side one list of resting orders in price-time priority. The
  heap, the index, the lists and the locations of the concrete book implement exactly this list:
  \<open>BestOpposite\<close> and \<open>FrontOrder\<close> read its head, \<open>AddResting\<close> inserts behind everything at
  least as good, \<open>removeFront\<close> and \<open>Cancel\<close> delete by id.
\<close>

section \<open>Lists indexed by price\<close>

definition in_order :: "Side \<Rightarrow> int64 set \<Rightarrow> int64 list" where
  "in_order s A = (if s = SideBuy then rev (sorted_list_of_set A) else sorted_list_of_set A)"

definition flat :: "Side \<Rightarrow> (int64 \<Rightarrow> 'a list) \<Rightarrow> int64 set \<Rightarrow> 'a list" where
  "flat s f A = concat (map f (in_order s A))"

text \<open>\<open>better s p q\<close>: on side \<open>s\<close> price \<open>p\<close> is matched before price \<open>q\<close>.\<close>

abbreviation better :: "Side \<Rightarrow> int64 \<Rightarrow> int64 \<Rightarrow> bool" where
  "better \<equiv> cmp_of"

lemma better_irrefl [simp]: "\<not> better s p p"
  by (simp add: cmp_of_def)

lemma better_trans: "better s p q \<Longrightarrow> better s q r \<Longrightarrow> better s p r"
  by (auto simp: cmp_of_def split: if_splits)

lemma better_total: "\<not> better s p q \<Longrightarrow> \<not> better s q p \<Longrightarrow> p = q"
  by (auto simp: cmp_of_def split: if_splits)

lemma set_in_order [simp]: "finite A \<Longrightarrow> set (in_order s A) = A"
  by (simp add: in_order_def)

lemma sorted_in_order: "finite A \<Longrightarrow> sorted_wrt (better s) (in_order s A)"
  by (auto simp: in_order_def cmp_of_def sorted_wrt_rev)

lemma in_order_unique:
  assumes "sorted_wrt (better s) xs" "sorted_wrt (better s) ys" "set xs = set ys"
  shows "xs = ys"
proof -
  have d: "distinct zs" if "sorted_wrt (better s) zs" for zs
    using that by (induction zs) auto
  show ?thesis
  proof (cases "s = SideBuy")
    case True
    then have "sorted (rev zs)" if "sorted_wrt (better s) zs" for zs
      using that sorted_wrt_mono_rel [of zs "better s" "\<lambda>x y. y \<le> x"]
      by (simp add: cmp_of_def sorted_wrt_rev)
    then have "rev xs = rev ys"
      using assms d by (intro sorted_distinct_set_unique) auto
    then show ?thesis by simp
  next
    case False
    then have "sorted zs" if "sorted_wrt (better s) zs" for zs
      using that sorted_wrt_mono_rel [of zs "better s" "(\<le>)"] by (simp add: cmp_of_def)
    then show ?thesis
      using assms d by (intro sorted_distinct_set_unique) auto
  qed
qed

lemma in_order_filter: "finite A \<Longrightarrow> in_order s {p \<in> A. P p} = filter P (in_order s A)"
  by (rule in_order_unique [of s]) (auto simp: sorted_in_order sorted_wrt_filter)

lemma concat_drop_empty: "concat (map f (filter (\<lambda>p. f p \<noteq> []) ps)) = concat (map f ps)"
  by (induction ps) auto

lemma flat_superset:
  assumes "finite A" "{p. f p \<noteq> []} \<subseteq> A"
  shows "flat s f {p. f p \<noteq> []} = flat s f A"
proof -
  have "{p. f p \<noteq> []} = {p \<in> A. f p \<noteq> []}" using assms(2) by auto
  then show ?thesis by (simp add: flat_def in_order_filter assms(1) concat_drop_empty)
qed

section \<open>The priority list of a side\<close>

text \<open>The prices of the side's levels, best first, and the concatenation of their queues.\<close>

definition side_prices :: "Book \<Rightarrow> Side \<Rightarrow> int64 list" where
  "side_prices b s =
     (let ps = sort (map (\<lambda>a. lv_priceCents (b_mem b a)) (lh_levels (fst (heapAndIndex b s))))
      in if s = SideBuy then rev ps else ps)"

definition priority :: "Book \<Rightarrow> Side \<Rightarrow> Order list" where
  "priority b s = concat (map (queue b s) (side_prices b s))"

definition price_of :: "Order \<Rightarrow> int64" where
  "price_of ord = (case o_PriceCents ord of Some p \<Rightarrow> p | None \<Rightarrow> 0)"

lemma level_prices:
  assumes "book_ok b" "s \<in> sides"
  shows "(\<lambda>a. lv_priceCents (b_mem b a)) ` levels_of b s = {p. queue b s p \<noteq> []}"
proof -
  have "p \<in> (\<lambda>a. lv_priceCents (b_mem b a)) ` levels_of b s \<longleftrightarrow> snd (heapAndIndex b s) p \<noteq> None" for p
    using index_lookup [OF assms] index_level [OF assms, of p] by force
  then show ?thesis using queue_Nil_iff [OF assms] by auto
qed

lemma finite_prices: "book_ok b \<Longrightarrow> s \<in> sides \<Longrightarrow> finite {p. queue b s p \<noteq> []}"
  unfolding level_prices [symmetric] by (simp add: levels_of_def)

lemma distinct_level_prices:
  assumes "book_ok b" "s \<in> sides"
  shows "distinct (map (\<lambda>a. lv_priceCents (b_mem b a)) (lh_levels (fst (heapAndIndex b s))))"
proof -
  have "inj_on (\<lambda>a. lv_priceCents (b_mem b a)) (levels_of b s)"
    by (intro inj_onI) (metis index_lookup [OF assms] option.inject)
  then show ?thesis
    using book_okD(1) [OF assms] by (simp add: distinct_map lh_ok_def lh_inv_def levels_of_def)
qed

lemma side_prices_eq:
  assumes "book_ok b" "s \<in> sides"
  shows "side_prices b s = in_order s {p. queue b s p \<noteq> []}"
proof -
  let ?ps = "map (\<lambda>a. lv_priceCents (b_mem b a)) (lh_levels (fst (heapAndIndex b s)))"
  have "set ?ps = {p. queue b s p \<noteq> []}"
    using level_prices [OF assms] by (simp add: levels_of_def)
  then have "sort ?ps = sorted_list_of_set {p. queue b s p \<noteq> []}"
    using distinct_level_prices [OF assms] sorted_list_of_set_sort_remdups [of ?ps]
    by (simp add: distinct_remdups_id)
  then show ?thesis by (simp add: side_prices_def in_order_def Let_def)
qed

lemma priority_flat:
  assumes "book_ok b" "s \<in> sides" "finite A" "{p. queue b s p \<noteq> []} \<subseteq> A"
  shows "priority b s = flat s (queue b s) A"
  using flat_superset [OF assms(3,4)] side_prices_eq [OF assms(1,2)] by (simp add: priority_def flat_def)

section \<open>What the list contains\<close>

lemma queue_members:
  assumes "book_ok b" "s \<in> sides" "ord \<in> set (queue b s p)"
  shows "resting_ok ord \<and> o_Side ord = s \<and> o_PriceCents ord = Some p \<and> o_ID ord \<in> resting_ids b"
proof -
  obtain a where a: "snd (heapAndIndex b s) p = Some a" "ord \<in> b_elems b ` set (lv_orders (b_mem b a))"
    using assms(3) by (cases "snd (heapAndIndex b s) p") (auto simp: queue_def)
  then obtain e where e: "e \<in> set (lv_orders (b_mem b a))" "ord = b_elems b e" by auto
  have l: "a \<in> levels_of b s" "lv_priceCents (b_mem b a) = p" using index_level [OF assms(1,2) a(1)] by auto
  have "elem_ok {} b s a e" using book_okD(3) [OF assms(1,2) l(1)] e by (simp add: level_ok_def)
  then show ?thesis
    using e l location_of [OF assms(1,2) l(1) e(1)] by (auto simp: elem_ok_def resting_ids_def)
qed

lemma set_priority:
  assumes "book_ok b" "s \<in> sides"
  shows "set (priority b s) = (\<Union>p. set (queue b s p))"
proof -
  have "set (side_prices b s) = {p. queue b s p \<noteq> []}"
    using side_prices_eq [OF assms] finite_prices [OF assms] by simp
  then have "set (priority b s) = (\<Union>p\<in>{p. queue b s p \<noteq> []}. set (queue b s p))"
    by (simp add: priority_def)
  also have "\<dots> = (\<Union>p. set (queue b s p))"
    by (rule set_eqI, rule iffI) (auto, metis empty_iff list.set(1))
  finally show ?thesis .
qed

lemma priority_members:
  assumes "book_ok b" "s \<in> sides" "ord \<in> set (priority b s)"
  shows "resting_ok ord" "o_Side ord = s" "o_PriceCents ord = Some (price_of ord)"
    "o_ID ord \<in> resting_ids b" "ord \<in> set (queue b s (price_of ord))"
proof -
  obtain p where "ord \<in> set (queue b s p)" using assms set_priority by auto
  with queue_members [OF assms(1,2) this]
  show "resting_ok ord" "o_Side ord = s" "o_PriceCents ord = Some (price_of ord)"
    "o_ID ord \<in> resting_ids b" "ord \<in> set (queue b s (price_of ord))"
    by (auto simp: price_of_def)
qed

lemma resting_ids_priority:
  assumes ok: "book_ok b"
  shows "resting_ids b = o_ID ` set (priority b SideBuy) \<union> o_ID ` set (priority b SideSell)"
proof
  show "o_ID ` set (priority b SideBuy) \<union> o_ID ` set (priority b SideSell) \<subseteq> resting_ids b"
    using priority_members(4) [OF ok] by blast
  show "resting_ids b \<subseteq> o_ID ` set (priority b SideBuy) \<union> o_ID ` set (priority b SideSell)"
  proof
    fix i assume "i \<in> resting_ids b"
    then obtain ord p where o: "o_ID ord = i" "resting_ok ord" "o_PriceCents ord = Some p" "ord \<in> set (queue b (o_Side ord) p)"
      using CancelResting_ok(2) [OF ok, of i] by auto
    then have "o_Side ord \<in> sides" "ord \<in> set (priority b (o_Side ord))"
      using set_priority [OF ok, of "o_Side ord"] by (auto simp: resting_ok_def)
    with o(1) show "i \<in> o_ID ` set (priority b SideBuy) \<union> o_ID ` set (priority b SideSell)" by auto
  qed
qed

section \<open>The operations on the list\<close>

text \<open>Deleting by id and updating one order, on any number of queues at once.\<close>

lemma priority_filter:
  assumes "book_ok b" "book_ok b'" "s \<in> sides" "\<And>p. queue b' s p = filter P (queue b s p)"
  shows "priority b' s = filter P (priority b s)"
proof -
  let ?A = "{p. queue b s p \<noteq> []}"
  have "{p. queue b' s p \<noteq> []} \<subseteq> ?A" using assms(4) by auto
  then have "priority b' s = flat s (\<lambda>p. filter P (queue b s p)) ?A"
    using priority_flat [OF assms(2,3) finite_prices [OF assms(1,3)]] ext [of "queue b' s", OF assms(4)]
    by simp
  also have "\<dots> = filter P (flat s (queue b s) ?A)"
    by (simp add: flat_def filter_concat o_def)
  also have "\<dots> = filter P (priority b s)"
    using priority_flat [OF assms(1,3) finite_prices [OF assms(1,3)]] by simp
  finally show ?thesis .
qed

lemma priority_map:
  assumes "book_ok b" "book_ok b'" "s \<in> sides" "\<And>p. queue b' s p = map f (queue b s p)"
  shows "priority b' s = map f (priority b s)"
proof -
  have "{p. queue b' s p \<noteq> []} = {p. queue b s p \<noteq> []}" using assms(4) by auto
  then show ?thesis
    using side_prices_eq [OF assms(1,3)] side_prices_eq [OF assms(2,3)] ext [of "queue b' s", OF assms(4)]
    by (simp add: priority_def map_concat o_def)
qed

text \<open>Insertion: behind every order at a price at least as good, before every worse one.\<close>

definition insert_priority :: "Order \<Rightarrow> Order list \<Rightarrow> Order list" where
  "insert_priority ord xs =
     takeWhile (\<lambda>x. \<not> better (o_Side ord) (price_of ord) (price_of x)) xs @ [ord] @
     dropWhile (\<lambda>x. \<not> better (o_Side ord) (price_of ord) (price_of x)) xs"

lemma span_append:
  "(\<And>x. x \<in> set xs \<Longrightarrow> P x) \<Longrightarrow> (\<And>x. x \<in> set ys \<Longrightarrow> \<not> P x) \<Longrightarrow>
   takeWhile P (xs @ ys) = xs \<and> dropWhile P (xs @ ys) = ys"
  by (induction xs) (cases ys; auto)+

lemma in_order_split:
  assumes "finite A" "p \<in> A"
  obtains L R where "in_order s A = L @ p # R" "\<forall>q\<in>set L. better s q p" "\<forall>q\<in>set R. better s p q"
proof -
  obtain L R where "in_order s A = L @ p # R"
    using assms by (metis set_in_order split_list)
  moreover from this have "\<forall>q\<in>set L. better s q p" "\<forall>q\<in>set R. better s p q"
    using sorted_in_order [OF assms(1), of s] by (auto simp: sorted_wrt_append)
  ultimately show ?thesis using that by blast
qed

lemma priority_insert:
  assumes ok: "book_ok b" "book_ok b'" and s: "s \<in> sides" "o_Side ord = s" and p: "o_PriceCents ord = Some p"
    and q: "\<And>r. queue b' s r = (if r = p then queue b s p @ [ord] else queue b s r)"
  shows "priority b' s = insert_priority ord (priority b s)"
proof -
  let ?A = "insert p {q. queue b s q \<noteq> []}" and ?f = "queue b s"
  let ?P = "\<lambda>x. \<not> better s p (price_of x)"
  have fin: "finite ?A" using finite_prices [OF ok(1) s(1)] by simp
  obtain L R where o: "in_order s ?A = L @ p # R" and L: "\<forall>q\<in>set L. better s q p" and R: "\<forall>q\<in>set R. better s p q"
    using in_order_split [OF fin] by blast
  have mem: "price_of x = r" if "x \<in> set (?f r)" for x r
    using queue_members [OF ok(1) s(1) that] by (simp add: price_of_def)
  have pL: "?P x" if "x \<in> set (concat (map ?f L @ [?f p]))" for x
    using that mem L better_trans [of s] better_irrefl [of s] by fastforce
  have pR: "\<not> ?P x" if "x \<in> set (concat (map ?f R))" for x
    using that mem R by fastforce
  have old: "priority b s = concat (map ?f L @ [?f p]) @ concat (map ?f R)"
    using priority_flat [OF ok(1) s(1) fin] by (auto simp: flat_def o)
  have "p \<notin> set L" "p \<notin> set R" using L R better_irrefl by metis+
  then have same: "concat (map (queue b' s) L) = concat (map ?f L)" "concat (map (queue b' s) R) = concat (map ?f R)"
    using q by (auto intro!: arg_cong [of _ _ concat])
  have "{r. queue b' s r \<noteq> []} \<subseteq> ?A" by (auto simp: q)
  then have "priority b' s = flat s (queue b' s) ?A" by (rule priority_flat [OF ok(2) s(1) fin])
  then have "priority b' s = concat (map ?f L @ [?f p]) @ [ord] @ concat (map ?f R)"
    by (simp add: flat_def o same q [of p])
  moreover have "takeWhile ?P (priority b s) = concat (map ?f L @ [?f p])"
    "dropWhile ?P (priority b s) = concat (map ?f R)"
    unfolding old using span_append [of _ ?P, OF pL pR] by blast+
  ultimately show ?thesis
    using s(2) p by (simp add: insert_priority_def price_of_def)
qed

section \<open>Ids are unique, prices sorted\<close>

lemma distinct_concat_map:
  "distinct ps \<Longrightarrow> (\<And>p. p \<in> set ps \<Longrightarrow> distinct (g p)) \<Longrightarrow>
   (\<And>p q. p \<noteq> q \<Longrightarrow> set (g p) \<inter> set (g q) = {}) \<Longrightarrow> distinct (concat (map g ps))"
  by (induction ps) (auto, metis disjoint_iff)

lemma queue_ids_distinct:
  assumes ok: "book_ok b" "s \<in> sides"
  shows "distinct (map o_ID (queue b s p))"
proof (cases "snd (heapAndIndex b s) p")
  case None
  then show ?thesis by (simp add: queue_def)
next
  case (Some a)
  have a: "a \<in> levels_of b s" using index_level [OF ok Some] by simp
  have "distinct (lv_orders (b_mem b a))" using book_okD(3) [OF ok a] by (simp add: level_ok_def)
  moreover have "inj_on (\<lambda>e. o_ID (b_elems b e)) (set (lv_orders (b_mem b a)))"
    by (intro inj_onI) (use elem_unique [OF ok a _ ok(2) a] in blast)
  ultimately show ?thesis using Some by (simp add: queue_def distinct_map comp_def)
qed

lemma queue_same_id:
  assumes ok: "book_ok b" and "s \<in> sides" "x \<in> set (queue b s p)" "t \<in> sides" "y \<in> set (queue b t q)" "o_ID x = o_ID y"
  shows "x = y \<and> s = t \<and> p = q"
proof -
  have in_level: "\<exists>a e. a \<in> levels_of b u \<and> lv_priceCents (b_mem b a) = r \<and> e \<in> set (lv_orders (b_mem b a)) \<and> z = b_elems b e"
    if "u \<in> sides" "z \<in> set (queue b u r)" for u z r
    using that(2) index_level [OF ok that(1), of r] by (cases "snd (heapAndIndex b u) r") (auto simp: queue_def)
  show ?thesis
    using in_level [OF assms(2,3)] in_level [OF assms(4,5)] elem_unique [OF ok assms(2) _ _ assms(4)] assms(6)
    by metis
qed

lemma priority_ids_distinct:
  assumes ok: "book_ok b" "s \<in> sides"
  shows "distinct (map o_ID (priority b s))"
proof -
  have "distinct (concat (map (\<lambda>p. map o_ID (queue b s p)) (side_prices b s)))"
  proof (rule distinct_concat_map)
    show "distinct (side_prices b s)"
      using distinct_level_prices [OF ok] by (auto simp: side_prices_def Let_def)
    show "distinct (map o_ID (queue b s p))" for p by (rule queue_ids_distinct [OF ok])
    show "set (map o_ID (queue b s p)) \<inter> set (map o_ID (queue b s q)) = {}" if "p \<noteq> q" for p q
      using queue_same_id [OF ok(1) ok(2) _ ok(2)] that by (auto simp: image_iff)
  qed
  then show ?thesis by (simp add: priority_def map_concat o_def)
qed

lemma priority_sides_disjoint:
  assumes "book_ok b" "x \<in> set (priority b SideBuy)" "y \<in> set (priority b SideSell)"
  shows "o_ID x \<noteq> o_ID y"
  using queue_same_id [OF assms(1), of SideBuy x _ SideSell y] priority_members(5) [OF assms(1) _ assms(2)]
    priority_members(5) [OF assms(1) _ assms(3)] by auto

lemma sorted_concat_map:
  assumes "sorted_wrt (better s) ps" "\<And>x p. x \<in> set (g p) \<Longrightarrow> key x = p"
  shows "sorted_wrt (\<lambda>x y. \<not> better s (key y) (key x)) (concat (map g ps))"
  using assms(1)
proof (induction ps)
  case (Cons p ps)
  have "sorted_wrt (\<lambda>x y. \<not> better s (key y) (key x)) (g p)"
    by (auto simp: sorted_wrt_iff_nth_less assms(2) [OF nth_mem])
  moreover have "\<not> better s q p" if "q \<in> set ps" for q
    using Cons.prems that better_trans [of s p q p] by auto
  ultimately show ?case
    using Cons assms(2) by (auto simp: sorted_wrt_append)
qed simp

lemma priority_sorted:
  assumes ok: "book_ok b" "s \<in> sides"
  shows "sorted_wrt (\<lambda>x y. \<not> better s (price_of y) (price_of x)) (priority b s)"
proof -
  have "sorted_wrt (better s) (side_prices b s)"
    using side_prices_eq [OF ok] sorted_in_order [OF finite_prices [OF ok]] by simp
  moreover have "price_of x = p" if "x \<in> set (queue b s p)" for x p
    using queue_members [OF ok that] by (simp add: price_of_def)
  ultimately show ?thesis
    unfolding priority_def by (rule sorted_concat_map)
qed

section \<open>The head of the list\<close>

definition opposite :: "Side \<Rightarrow> Side" where
  "opposite s = (if s = SideSell then SideBuy else SideSell)"

lemma opposite_sides [simp]: "opposite s = SideBuy \<or> opposite s = SideSell"
  by (simp add: opposite_def)

lemma BestOpposite_opposite:
  "s \<in> sides \<Longrightarrow> BestOpposite b s = lh_peek (fst (heapAndIndex b (opposite s)))"
  by (auto simp: BestOpposite_def heapAndIndex_def opposite_def)

lemma best_empty:
  assumes ok: "book_ok b" "s \<in> sides"
  shows "priority b s = [] \<longleftrightarrow> lh_peek (fst (heapAndIndex b s)) = None"
proof -
  have "priority b s = [] \<longleftrightarrow> (\<forall>p. queue b s p = [])"
    using set_priority [OF ok] by (metis (no_types, lifting) UN_I UNIV_I empty_iff empty_set ex_in_conv set_empty UN_E)
  also have "\<dots> \<longleftrightarrow> levels_of b s = {}" using level_prices [OF ok] by auto
  finally show ?thesis by (simp add: levels_of_def lh_peek_def split: list.split)
qed

text \<open>The level on top of the heap has the best price, and its front order is the head of the list.\<close>

lemma best_price:
  assumes ok: "book_ok b" "s \<in> sides" and a: "lh_peek (fst (heapAndIndex b s)) = Some a"
  shows "a \<in> levels_of b s" "x \<in> levels_of b s \<Longrightarrow> \<not> better s (lv_priceCents (b_mem b x)) (lv_priceCents (b_mem b a))"
proof -
  obtain as where as: "lh_levels (fst (heapAndIndex b s)) = a # as"
    using a by (auto simp: lh_peek_def split: list.splits)
  then show "a \<in> levels_of b s" by (simp add: levels_of_def)
  show "x \<in> levels_of b s \<Longrightarrow> \<not> better s (lv_priceCents (b_mem b x)) (lv_priceCents (b_mem b a))"
    using lh_root_best [OF book_okD(1) [OF ok] as] by (simp add: levels_of_def)
qed

lemma best_head:
  assumes ok: "book_ok b" "s \<in> sides" and a: "lh_peek (fst (heapAndIndex b s)) = Some a"
  obtains e es ms where "lv_orders (b_mem b a) = e # es" "priority b s = b_elems b e # ms"
    "lv_priceCents (b_mem b a) = price_of (b_elems b e)" "resting_ok (b_elems b e)"
    "o_PriceCents (b_elems b e) = Some (price_of (b_elems b e))"
proof -
  note best = best_price [OF ok a]
  let ?p = "lv_priceCents (b_mem b a)"
  have lo: "level_ok {} {} b s a" by (rule book_okD(3) [OF ok best(1)])
  then obtain e es where es: "lv_orders (b_mem b a) = e # es"
    by (cases "lv_orders (b_mem b a)") (auto simp: level_ok_def)
  have e: "resting_ok (b_elems b e)" "o_PriceCents (b_elems b e) = Some ?p"
    using lo es by (auto simp: level_ok_def elem_ok_def)
  have q: "queue b s ?p = b_elems b e # map (b_elems b) es"
    using queue_level [OF ok best(1)] es by simp
  have pin: "?p \<in> {p. queue b s p \<noteq> []}" using q by simp
  obtain L R where LR: "in_order s {p. queue b s p \<noteq> []} = L @ ?p # R" "\<forall>q\<in>set L. better s q ?p"
    using in_order_split [OF finite_prices [OF ok] pin] by metis
  have "L = []"
  proof (rule ccontr)
    assume "L \<noteq> []"
    then obtain r where r: "r \<in> set L" by (cases L) auto
    have "set (in_order s {p. queue b s p \<noteq> []}) = {p. queue b s p \<noteq> []}"
      using finite_prices [OF ok] by simp
    with r LR(1) have "r \<in> {p. queue b s p \<noteq> []}" by auto
    then obtain x where "x \<in> levels_of b s" "lv_priceCents (b_mem b x) = r"
      unfolding level_prices [OF ok, symmetric] by auto
    with best(2) r LR(2) show False by blast
  qed
  then have "priority b s = b_elems b e # map (b_elems b) es @ concat (map (queue b s) R)"
    using LR(1) q by (simp add: priority_def side_prices_eq [OF ok])
  moreover have "price_of (b_elems b e) = ?p" using e(2) by (simp add: price_of_def)
  ultimately show thesis using that es e by simp
qed

section \<open>Filling a resting order in place\<close>

definition put_order :: "elem \<Rightarrow> Order \<Rightarrow> Book \<Rightarrow> Book" where
  "put_order e ord b = b\<lparr>b_elems := (b_elems b)(e := ord)\<rparr>"

lemma put_order_simps [simp]:
  "heapAndIndex (put_order e ord b) s = heapAndIndex b s" "levels_of (put_order e ord b) s = levels_of b s"
  "b_mem (put_order e ord b) = b_mem b" "b_locations (put_order e ord b) = b_locations b"
  "b_nextElem (put_order e ord b) = b_nextElem b" "b_nextLevel (put_order e ord b) = b_nextLevel b"
  "b_elems (put_order e ord b) = (b_elems b)(e := ord)" "resting_ids (put_order e ord b) = resting_ids b"
  by (simp_all add: put_order_def levels_of_def resting_ids_def)

text \<open>The id, side and price must stay; the quantities may be anything while the order is excused.\<close>

lemma put_order_ok_ex:
  assumes ok: "book_ok b" and s: "s \<in> sides" and a: "a \<in> levels_of b s" and e: "e \<in> set (lv_orders (b_mem b a))"
    and same: "o_ID ord = o_ID (b_elems b e)" "o_Side ord = o_Side (b_elems b e)" "o_PriceCents ord = o_PriceCents (b_elems b e)"
    and Y: "resting_ok ord \<or> e \<in> Y"
  shows "book_ok_ex {} Y (put_order e ord b)"
proof -
  have "side_ok {} Y (put_order e ord b) t" if t: "t \<in> sides" for t
  proof -
    have "level_ok {} Y (put_order e ord b) t x" if "x \<in> levels_of b t" for x
      using book_okD(3) [OF ok t that] same Y by (auto simp: level_ok_def elem_ok_def)
    then show ?thesis
      using book_okD(1,2) [OF ok t] by (simp add: side_ok_def index_ok_def)
  qed
  moreover have "locations_ok (put_order e ord b)"
    using book_okD(4) [OF ok s] same by (simp add: locations_ok_def located_def)
  ultimately show ?thesis using ok by (simp add: book_ok_ex_def)
qed

lemma put_order_queue:
  assumes ok: "book_ok b" and s: "s \<in> sides" and a: "a \<in> levels_of b s" and e: "e \<in> set (lv_orders (b_mem b a))"
    and id: "o_ID ord = o_ID (b_elems b e)" and t: "t \<in> sides"
  shows "queue (put_order e ord b) t q = map (\<lambda>x. if o_ID x = o_ID ord then ord else x) (queue b t q)"
proof (cases "snd (heapAndIndex b t) q")
  case None
  then show ?thesis by (simp add: queue_def)
next
  case (Some x)
  have x: "x \<in> levels_of b t" using index_level [OF ok t Some] by simp
  have "e' = e \<longleftrightarrow> o_ID (b_elems b e') = o_ID ord" if "e' \<in> set (lv_orders (b_mem b x))" for e'
    using elem_unique [OF ok t x that s a e] id by auto
  then show ?thesis using Some by (auto simp: queue_def)
qed

section \<open>The operations refine the list\<close>

lemma AddResting_priority:
  assumes "book_ok b" "resting_ok ord" "o_ID ord \<notin> resting_ids b"
  shows "\<exists>b'. AddResting ord b = Inr b' \<and> book_ok b' \<and> resting_ids b' = insert (o_ID ord) (resting_ids b) \<and>
    (\<forall>s\<in>sides. priority b' s = (if s = o_Side ord then insert_priority ord (priority b s) else priority b s))"
proof -
  obtain b' where b': "AddResting ord b = Inr b'" "book_ok b'" "resting_ids b' = insert (o_ID ord) (resting_ids b)"
    and q: "\<And>s q. s \<in> sides \<Longrightarrow> queue b' s q =
      (if s = o_Side ord \<and> o_PriceCents ord = Some q then queue b s q @ [ord] else queue b s q)"
    using AddResting_ok [OF assms] by blast
  obtain p where p: "o_PriceCents ord = Some p" "o_Side ord \<in> sides" using assms(2) by (auto simp: resting_ok_def)
  have "priority b' (o_Side ord) = insert_priority ord (priority b (o_Side ord))"
    using assms(1) b'(2) p(2) refl p(1) by (rule priority_insert) (use q [OF p(2)] p in auto)
  moreover have "priority b' s = priority b s" if "s \<in> sides" "s \<noteq> o_Side ord" for s
    using priority_map [OF assms(1) b'(2) that(1), of id] q [OF that(1)] that(2) by simp
  ultimately show ?thesis using b' by auto
qed

lemma CancelResting_priority:
  assumes ok: "book_ok b" and i: "i \<in> resting_ids b"
  shows "\<exists>b' ord. CancelResting i b = Inr (Some ord, b') \<and> book_ok b' \<and> resting_ids b' = resting_ids b - {i} \<and>
    o_ID ord = i \<and> ord \<in> set (priority b (o_Side ord)) \<and> o_Side ord \<in> sides \<and>
    (\<forall>s\<in>sides. priority b' s = filter (\<lambda>x. o_ID x \<noteq> i) (priority b s))"
proof -
  obtain b' ord p where *: "CancelResting i b = Inr (Some ord, b')" "book_ok b'" "o_ID ord = i" "resting_ok ord"
      "resting_ids b' = resting_ids b - {i}" "ord \<in> set (queue b (o_Side ord) p)"
    and q: "\<forall>s\<in>sides. \<forall>q. queue b' s q = filter (\<lambda>x. o_ID x \<noteq> i) (queue b s q)"
    using CancelResting_ok(2) [OF ok i] by blast
  have os: "o_Side ord \<in> sides" using *(4) by (auto simp: resting_ok_def)
  have "\<forall>s\<in>sides. priority b' s = filter (\<lambda>x. o_ID x \<noteq> i) (priority b s)"
    using priority_filter [OF ok *(2)] q by blast
  moreover have "ord \<in> set (priority b (o_Side ord))" using set_priority [OF ok os] *(6) by blast
  ultimately show ?thesis using * os by blast
qed

lemma insert_priority_append:
  obtains us vs where "xs = us @ vs" "insert_priority ord xs = us @ ord # vs"
  using that [OF takeWhile_dropWhile_id [symmetric]] by (simp add: insert_priority_def)

lemma set_insert_priority [simp]: "set (insert_priority ord xs) = insert ord (set xs)"
  by (rule insert_priority_append [of xs ord]) auto

lemma filter_insert_priority:
  "\<forall>x\<in>set xs. o_ID x \<noteq> o_ID ord \<Longrightarrow> filter (\<lambda>x. o_ID x \<noteq> o_ID ord) (insert_priority ord xs) = xs"
  by (rule insert_priority_append [of xs ord]) (auto intro: filter_True)

section \<open>The contract of a price-time book\<close>

text \<open>What the matcher relies on: an invariant, the ids at rest, and one list per side that adding and cancelling act on.\<close>

locale priority_book =
  fixes inv :: "'b \<Rightarrow> bool"
    and ids :: "'b \<Rightarrow> uuid set"
    and prio :: "'b \<Rightarrow> Side \<Rightarrow> Order list"
    and new :: "'b"
    and add :: "Order \<Rightarrow> 'b \<Rightarrow> go_panic + 'b"
    and cancel :: "uuid \<Rightarrow> 'b \<Rightarrow> go_panic + (Order option \<times> 'b)"
  assumes new_law: "inv new \<and> ids new = {} \<and> (\<forall>s\<in>sides. prio new s = [])"
    and ids_law: "inv b \<Longrightarrow> ids b = o_ID ` set (prio b SideBuy) \<union> o_ID ` set (prio b SideSell)"
    and distinct_law: "inv b \<Longrightarrow> s \<in> sides \<Longrightarrow> distinct (map o_ID (prio b s))"
    and side_law: "inv b \<Longrightarrow> s \<in> sides \<Longrightarrow> ord \<in> set (prio b s) \<Longrightarrow> o_Side ord = s"
    and add_law: "inv b \<Longrightarrow> resting_ok ord \<Longrightarrow> o_ID ord \<notin> ids b \<Longrightarrow>
      \<exists>b'. add ord b = Inr b' \<and> inv b' \<and> ids b' = insert (o_ID ord) (ids b) \<and>
        (\<forall>s\<in>sides. prio b' s = (if s = o_Side ord then insert_priority ord (prio b s) else prio b s))"
    and hit_law: "inv b \<Longrightarrow> i \<in> ids b \<Longrightarrow>
      \<exists>b' ord. cancel i b = Inr (Some ord, b') \<and> inv b' \<and> ids b' = ids b - {i} \<and>
        o_ID ord = i \<and> ord \<in> set (prio b (o_Side ord)) \<and> o_Side ord \<in> sides \<and>
        (\<forall>s\<in>sides. prio b' s = filter (\<lambda>x. o_ID x \<noteq> i) (prio b s))"
    and miss_law: "inv b \<Longrightarrow> i \<notin> ids b \<Longrightarrow> cancel i b = Inr (None, b)"
begin

lemma member_id: "inv b \<Longrightarrow> s \<in> sides \<Longrightarrow> x \<in> set (prio b s) \<Longrightarrow> o_ID x \<in> ids b"
  by (auto simp: ids_law)

text \<open>Adding a fresh order and cancelling it gives back the order and the lists as they were.\<close>

lemma add_cancel:
  assumes "inv b" "resting_ok ord" "o_ID ord \<notin> ids b" "add ord b = Inr b1"
  shows "\<exists>b2. cancel (o_ID ord) b1 = Inr (Some ord, b2) \<and> inv b2 \<and> ids b2 = ids b \<and> (\<forall>s\<in>sides. prio b2 s = prio b s)"
proof -
  have b1: "inv b1" "ids b1 = insert (o_ID ord) (ids b)"
      "\<And>s. s \<in> sides \<Longrightarrow> prio b1 s = (if s = o_Side ord then insert_priority ord (prio b s) else prio b s)"
    using add_law [OF assms(1-3)] assms(4) by auto
  obtain b2 ord' where c: "cancel (o_ID ord) b1 = Inr (Some ord', b2)" "inv b2" "ids b2 = ids b1 - {o_ID ord}"
      "o_ID ord' = o_ID ord" "ord' \<in> set (prio b1 (o_Side ord'))" "o_Side ord' \<in> sides"
      "\<And>s. s \<in> sides \<Longrightarrow> prio b2 s = filter (\<lambda>x. o_ID x \<noteq> o_ID ord) (prio b1 s)"
    using hit_law [OF b1(1), of "o_ID ord"] b1(2) by auto
  have other: "\<forall>x\<in>set (prio b s). o_ID x \<noteq> o_ID ord" if "s \<in> sides" for s
    using member_id [OF assms(1) that] assms(3) by metis
  have "prio b2 s = prio b s" if "s \<in> sides" for s
    using c(7) [OF that] b1(3) [OF that] other [OF that] by (auto simp: filter_insert_priority intro: filter_True)
  moreover have "ord' = ord"
    using c(4,5) b1(3) [OF c(6)] other [OF c(6)] by (auto split: if_splits)
  ultimately show ?thesis using c b1(2) assms(3) by simp
qed

text \<open>Cancelling is idempotent, and never touches another id.\<close>

lemma cancel_twice:
  assumes "inv b" "cancel i b = Inr (r, b1)"
  shows "inv b1 \<and> ids b1 = ids b - {i} \<and> cancel i b1 = Inr (None, b1)"
proof (cases "i \<in> ids b")
  case True
  then show ?thesis using hit_law [OF assms(1) True] assms(2) miss_law by auto
next
  case False
  then show ?thesis using miss_law [OF assms(1) False] assms by auto
qed

text \<open>Loading a list of orders with distinct ids, one by one, into a book.\<close>

fun load :: "Order list \<Rightarrow> 'b \<Rightarrow> go_panic + 'b" where
  "load [] b = Inr b"
| "load (ord # os) b = (case add ord b of Inl p \<Rightarrow> Inl p | Inr b' \<Rightarrow> load os b')"

lemma load_ok:
  assumes "inv b" "\<forall>ord\<in>set os. resting_ok ord" "distinct (map o_ID os)" "\<forall>ord\<in>set os. o_ID ord \<notin> ids b"
  shows "\<exists>b'. load os b = Inr b' \<and> inv b' \<and> ids b' = ids b \<union> o_ID ` set os \<and>
    (\<forall>s\<in>sides. prio b' s = fold insert_priority (filter (\<lambda>x. o_Side x = s) os) (prio b s))"
  using assms
proof (induction os arbitrary: b)
  case (Cons ord os)
  then obtain b1 where b1: "add ord b = Inr b1" "inv b1" "ids b1 = insert (o_ID ord) (ids b)"
      "\<And>s. s \<in> sides \<Longrightarrow> prio b1 s = (if s = o_Side ord then insert_priority ord (prio b s) else prio b s)"
    using add_law [of b ord] by auto
  have "\<forall>x\<in>set os. o_ID x \<notin> ids b1" using Cons.prems b1(3) by (auto simp: image_iff)
  moreover have "\<forall>x\<in>set os. resting_ok x" "distinct (map o_ID os)" using Cons.prems by simp_all
  ultimately obtain b' where b': "load os b1 = Inr b'" "inv b'" "ids b' = ids b1 \<union> o_ID ` set os"
      "\<forall>s\<in>sides. prio b' s = fold insert_priority (filter (\<lambda>x. o_Side x = s) os) (prio b1 s)"
    using Cons.IH [OF b1(2)] by blast
  have "prio b' s = fold insert_priority (filter (\<lambda>x. o_Side x = s) (ord # os)) (prio b s)" if "s \<in> sides" for s
    using bspec [OF b'(4) that] b1(4) [OF that] by simp
  with b1 b' show ?case by (intro exI [of _ b']) simp
qed auto

end

lemma priority_NewBook: "s \<in> sides \<Longrightarrow> priority NewBook s = []"
  by (simp add: priority_def)

interpretation book: priority_book book_ok resting_ids priority NewBook AddResting CancelResting
proof unfold_locales
  show "book_ok NewBook \<and> resting_ids NewBook = {} \<and> (\<forall>s\<in>sides. priority NewBook s = [])"
    using NewBook_ok priority_NewBook by (simp add: resting_ids_def NewBook_def)
next
  show "\<exists>b'. AddResting ord b = Inr b' \<and> book_ok b' \<and> resting_ids b' = insert (o_ID ord) (resting_ids b) \<and>
      (\<forall>s\<in>sides. priority b' s = (if s = o_Side ord then insert_priority ord (priority b s) else priority b s))"
    if "book_ok b" "resting_ok ord" "o_ID ord \<notin> resting_ids b" for b ord
    using that by (rule AddResting_priority)
  show "\<exists>b' ord. CancelResting i b = Inr (Some ord, b') \<and> book_ok b' \<and> resting_ids b' = resting_ids b - {i} \<and>
      o_ID ord = i \<and> ord \<in> set (priority b (o_Side ord)) \<and> o_Side ord \<in> sides \<and>
      (\<forall>s\<in>sides. priority b' s = filter (\<lambda>x. o_ID x \<noteq> i) (priority b s))"
    if "book_ok b" "i \<in> resting_ids b" for b i
    using that by (rule CancelResting_priority)
  show "CancelResting i b = Inr (None, b)" if "book_ok b" "i \<notin> resting_ids b" for b i
    using that by (rule CancelResting_ok(1))
qed (simp_all only: resting_ids_priority priority_ids_distinct priority_members(2))

section \<open>Properties\<close>

text \<open>
  C9: on a well-formed book, resting a well-formed order with a fresh id succeeds and inserts it in the
  priority list of its side behind every order at the same or a better price and before every worse
  one; cancelling an id removes exactly that id from the list and returns its order, or does nothing
  when the id is not at rest. Both keep the heaps, indexes, queues and locations consistent.
\<close>

theorem book_refines_priority_list:
  assumes "book_ok b" "resting_ok ord" "o_ID ord \<notin> resting_ids b"
  shows "(\<exists>b'. AddResting ord b = Inr b' \<and> book_ok b' \<and>
      (\<forall>s\<in>sides. priority b' s = (if s = o_Side ord then insert_priority ord (priority b s) else priority b s))) \<and>
    (\<exists>r b'. CancelResting i b = Inr (r, b') \<and> book_ok b' \<and>
      (\<forall>s\<in>sides. priority b' s = filter (\<lambda>x. o_ID x \<noteq> i) (priority b s)) \<and>
      (case r of None \<Rightarrow> i \<notin> resting_ids b \<and> b' = b
       | Some x \<Rightarrow> o_ID x = i \<and> x \<in> set (priority b (o_Side x))))"
proof (cases "i \<in> resting_ids b")
  case True
  then show ?thesis
    using book.add_law [OF assms] book.hit_law [OF assms(1) True] by fastforce
next
  case False
  then have "\<forall>s\<in>sides. priority b s = filter (\<lambda>x. o_ID x \<noteq> i) (priority b s)"
    using book.member_id [OF assms(1)] by (metis (mono_tags, lifting) filter_True)
  then show ?thesis
    using book.add_law [OF assms] book.miss_law [OF assms(1) False] assms(1) False by auto
qed

theorem book_refines_priority_list_witness:
  "\<exists>b'. AddResting \<lparr>o_ID = 1, o_UserID = 2, o_Side = SideBuy, o_Type = TypeLimit, o_PriceCents = Some 1000,
      o_Quantity = 10, o_FilledQuantity = 0, o_Status = StatusOpen, o_CreatedAt = 0, o_UpdatedAt = 0\<rparr> NewBook = Inr b' \<and>
    book_ok b' \<and> length (priority b' SideBuy) = 1 \<and> priority b' SideSell = []"
  using book_refines_priority_list [of NewBook "\<lparr>o_ID = 1, o_UserID = 2, o_Side = SideBuy, o_Type = TypeLimit,
      o_PriceCents = Some 1000, o_Quantity = 10, o_FilledQuantity = 0, o_Status = StatusOpen, o_CreatedAt = 0, o_UpdatedAt = 0\<rparr>" 1,
      OF NewBook_ok]
  by (auto simp: resting_ok_def order_ok_def MaxInt64_def IsDone_def resting_ids_def NewBook_def priority_def
      side_prices_def heapAndIndex_def insert_priority_def)

text \<open>
  C28: \<open>BestOpposite\<close> and \<open>FrontOrder\<close> find the order with the highest priority on the other side: the
  level has the best price of that side and its front order is the oldest order at that price; there
  is no level exactly when the side is empty.
\<close>

theorem BestOpposite_is_head:
  assumes "book_ok b" "s = SideBuy \<or> s = SideSell"
  shows "case BestOpposite b s of
      None \<Rightarrow> priority b (opposite s) = []
    | Some a \<Rightarrow> (\<exists>e ms. FrontOrder b (Some a) = Some e \<and> priority b (opposite s) = b_elems b e # ms \<and>
        o_PriceCents (b_elems b e) = Some (lv_priceCents (b_mem b a)) \<and>
        (\<forall>x\<in>set ms. \<not> better (opposite s) (price_of x) (lv_priceCents (b_mem b a))))"
proof -
  have t: "opposite s \<in> sides" by simp
  have peek: "BestOpposite b s = lh_peek (fst (heapAndIndex b (opposite s)))"
    using assms(2) by (simp add: BestOpposite_opposite)
  show ?thesis
  proof (cases "BestOpposite b s")
    case None
    then show ?thesis using best_empty [OF assms(1) t] peek by simp
  next
    case (Some a)
    then obtain e es ms where "lv_orders (b_mem b a) = e # es" "priority b (opposite s) = b_elems b e # ms"
        "lv_priceCents (b_mem b a) = price_of (b_elems b e)" "o_PriceCents (b_elems b e) = Some (price_of (b_elems b e))"
      using best_head [OF assms(1) t] peek by metis
    then show ?thesis
      using Some priority_sorted [OF assms(1) t] by (simp add: FrontOrder_def)
  qed
qed

theorem BestOpposite_is_head_witness:
  "priority NewBook (opposite SideBuy) = []"
  using BestOpposite_is_head [of NewBook SideBuy, OF NewBook_ok]
  by (simp add: BestOpposite_def NewBook_def lh_peek_def)

text \<open>
  Resting an order and cancelling it again gives back that order and leaves both priority lists and
  the set of resting ids as they were.
\<close>

theorem add_cancel_roundtrip:
  assumes "book_ok b" "resting_ok ord" "o_ID ord \<notin> resting_ids b"
  shows "\<exists>b1 b2. AddResting ord b = Inr b1 \<and> CancelResting (o_ID ord) b1 = Inr (Some ord, b2) \<and> book_ok b2 \<and>
    resting_ids b2 = resting_ids b \<and> priority b2 SideBuy = priority b SideBuy \<and> priority b2 SideSell = priority b SideSell"
proof -
  obtain b1 where b1: "AddResting ord b = Inr b1" using book.add_law [OF assms] by blast
  from book.add_cancel [OF assms b1] b1 show ?thesis by auto
qed

theorem add_cancel_roundtrip_witness:
  "\<exists>b1 b2. AddResting \<lparr>o_ID = 1, o_UserID = 2, o_Side = SideSell, o_Type = TypeLimit, o_PriceCents = Some 1000,
      o_Quantity = 10, o_FilledQuantity = 3, o_Status = StatusPartiallyFilled, o_CreatedAt = 0, o_UpdatedAt = 0\<rparr> NewBook = Inr b1 \<and>
    CancelResting 1 b1 = Inr (Some \<lparr>o_ID = 1, o_UserID = 2, o_Side = SideSell, o_Type = TypeLimit, o_PriceCents = Some 1000,
      o_Quantity = 10, o_FilledQuantity = 3, o_Status = StatusPartiallyFilled, o_CreatedAt = 0, o_UpdatedAt = 0\<rparr>, b2) \<and>
    priority b2 SideSell = []"
  using add_cancel_roundtrip [of NewBook "\<lparr>o_ID = 1, o_UserID = 2, o_Side = SideSell, o_Type = TypeLimit, o_PriceCents = Some 1000,
      o_Quantity = 10, o_FilledQuantity = 3, o_Status = StatusPartiallyFilled, o_CreatedAt = 0, o_UpdatedAt = 0\<rparr>", OF NewBook_ok]
  by (auto simp: resting_ok_def order_ok_def MaxInt64_def IsDone_def resting_ids_def NewBook_def priority_def
      side_prices_def heapAndIndex_def)

end
