(* ===== verification/Match_Engine.thy ===== *)
theory Match_Engine
  imports Book_Priority
begin

text \<open>
  File \<open>internal/domain/matching/engine.go\<close>. \<open>Match\<close> is a loop over the book with one state: the
  book, the incoming order, the buyer's funds behind their pointer, and the result under
  construction. \<open>match_iter\<close> is one pass through the loop body, \<open>match_loop\<close> the loop (\<open>None\<close>
  when it never ends), \<open>Match\<close> the function. \<open>clk n\<close> is the \<open>n\<close>-th reading of \<open>time.Now\<close>.
\<close>

section \<open>Data\<close>

record MTrade =
  mt_BuyOrderID :: uuid
  mt_SellOrderID :: uuid
  mt_BuyerUserID :: uuid
  mt_SellerUserID :: uuid
  mt_PriceCents :: int64
  mt_Quantity :: int64

text \<open>The makers are pointers into the book's store, read through it at the end.\<close>

record MatchState =
  ms_book :: Book
  ms_incoming :: Order
  ms_funds :: "int64 option"
  ms_trades :: "MTrade list"
  ms_makers :: "elem list"
  ms_clock :: nat

record MatchResult =
  mr_Trades :: "MTrade list"
  mr_Incoming :: Order
  mr_TouchedMakers :: "Order list"
  mr_RestedOnBook :: bool
  mr_CancelledQuantity :: int64

datatype loop_exit = Broke MatchState | Continues MatchState

section \<open>The loop body\<close>

definition min64 :: "int64 \<Rightarrow> int64 \<Rightarrow> int64" where
  "min64 a b = (if a < b then a else b)"

text \<open>Line 47: whether a LIMIT order stops at this price; \<open>*incoming.PriceCents\<close> is read only behind the side test.\<close>

definition beyond_limit :: "Order \<Rightarrow> int64 \<Rightarrow> go_panic + bool" where
  "beyond_limit incoming price =
     (if o_Type incoming = TypeLimit \<and> (o_Side incoming = SideBuy \<or> o_Side incoming = SideSell)
      then (case o_PriceCents incoming of
              None \<Rightarrow> Inl NilDereference
            | Some l \<Rightarrow> Inr (if o_Side incoming = SideBuy then l < price else price < l))
      else Inr False)"

definition isBuyMarket :: "Order \<Rightarrow> bool" where
  "isBuyMarket incoming \<longleftrightarrow> o_Side incoming = SideBuy \<and> o_Type incoming = TypeMarket"

definition match_qty :: "Order \<Rightarrow> int64 option \<Rightarrow> Order \<Rightarrow> int64 \<Rightarrow> go_panic + int64" where
  "match_qty incoming funds maker price =
     (let matchQty = min64 (Remaining incoming) (Remaining maker)
      in (case funds of
           Some f \<Rightarrow>
             if isBuyMarket incoming then
               (case i64_quot f price of
                  Inl p \<Rightarrow> Inl p
                | Inr affordableQty \<Rightarrow> Inr (if affordableQty < matchQty then affordableQty else matchQty))
             else Inr matchQty
         | None \<Rightarrow> Inr matchQty))"

definition make_trade :: "Order \<Rightarrow> Order \<Rightarrow> int64 \<Rightarrow> int64 \<Rightarrow> MTrade" where
  "make_trade incoming maker price qty =
     (if o_Side incoming = SideBuy
      then \<lparr>mt_BuyOrderID = o_ID incoming, mt_SellOrderID = o_ID maker, mt_BuyerUserID = o_UserID incoming,
            mt_SellerUserID = o_UserID maker, mt_PriceCents = price, mt_Quantity = qty\<rparr>
      else \<lparr>mt_BuyOrderID = o_ID maker, mt_SellOrderID = o_ID incoming, mt_BuyerUserID = o_UserID maker,
            mt_SellerUserID = o_UserID incoming, mt_PriceCents = price, mt_Quantity = qty\<rparr>)"

text \<open>\<open>_ = o.Fill(qty)\<close>: a rejected fill leaves the order as it is and its error is dropped.\<close>

definition fill_ignoring_error :: "time \<Rightarrow> int64 \<Rightarrow> Order \<Rightarrow> Order" where
  "fill_ignoring_error now qty ord = (case Fill now qty ord of Inl _ \<Rightarrow> ord | Inr ord' \<Rightarrow> ord')"

text \<open>Lines 74 to 98: record the trade, fill both orders, charge the funds, drop an exhausted maker.\<close>

definition match_exec :: "(nat \<Rightarrow> time) \<Rightarrow> addr \<Rightarrow> elem \<Rightarrow> int64 \<Rightarrow> MatchState \<Rightarrow> go_panic + loop_exit" where
  "match_exec clk lvl e matchQty st =
     (let b = ms_book st; incoming = ms_incoming st; price = lv_priceCents (b_mem b lvl);
          trade = make_trade incoming (b_elems b e) price matchQty;
          incoming' = fill_ignoring_error (clk (ms_clock st)) matchQty incoming;
          maker' = fill_ignoring_error (clk (Suc (ms_clock st))) matchQty (b_elems b e);
          b' = put_order e maker' b;
          funds' = (case ms_funds st of
                      Some f \<Rightarrow> if isBuyMarket incoming then Some (i64_sub f (i64_mul matchQty price)) else Some f
                    | None \<Rightarrow> None);
          st' = st\<lparr>ms_book := b', ms_incoming := incoming', ms_funds := funds',
                   ms_trades := ms_trades st @ [trade], ms_makers := ms_makers st @ [e],
                   ms_clock := ms_clock st + 2\<rparr>
      in if Remaining maker' = 0
         then (case removeFront maker' (if o_Side incoming = SideSell then SideBuy else SideSell) lvl b' of
                 Inl p \<Rightarrow> Inl p
               | Inr b'' \<Rightarrow> Inr (Continues (st'\<lparr>ms_book := b''\<rparr>)))
         else Inr (Continues st'))"

definition match_iter :: "(nat \<Rightarrow> time) \<Rightarrow> MatchState \<Rightarrow> go_panic + loop_exit" where
  "match_iter clk st =
     (case BestOpposite (ms_book st) (o_Side (ms_incoming st)) of
        None \<Rightarrow> Inr (Broke st)
      | Some lvl \<Rightarrow>
          let price = lv_priceCents (b_mem (ms_book st) lvl)
          in (case beyond_limit (ms_incoming st) price of
               Inl p \<Rightarrow> Inl p
             | Inr True \<Rightarrow> Inr (Broke st)
             | Inr False \<Rightarrow>
                 (case FrontOrder (ms_book st) (Some lvl) of
                    None \<Rightarrow> Inr (Broke st)
                  | Some e \<Rightarrow>
                      (case match_qty (ms_incoming st) (ms_funds st) (b_elems (ms_book st) e) price of
                         Inl p \<Rightarrow> Inl p
                       | Inr matchQty \<Rightarrow>
                           if matchQty = 0 then Inr (Broke st)
                           else match_exec clk lvl e matchQty st))))"

section \<open>The loop and the function\<close>

partial_function (option) match_loop :: "(nat \<Rightarrow> time) \<Rightarrow> MatchState \<Rightarrow> (go_panic + MatchState) option" where
  "match_loop clk st =
     (if Remaining (ms_incoming st) > 0
      then (case match_iter clk st of
              Inl p \<Rightarrow> Some (Inl p)
            | Inr (Broke st') \<Rightarrow> Some (Inr st')
            | Inr (Continues st') \<Rightarrow> match_loop clk st')
      else Some (Inr st))"

declare match_loop.simps [code]

definition match_end :: "(nat \<Rightarrow> time) \<Rightarrow> MatchState \<Rightarrow> go_panic + (MatchResult \<times> Book \<times> int64 option)" where
  "match_end clk st =
     (let incoming = ms_incoming st; b = ms_book st;
          result = \<lparr>mr_Trades = ms_trades st, mr_Incoming = incoming, mr_TouchedMakers = map (b_elems b) (ms_makers st),
                    mr_RestedOnBook = False, mr_CancelledQuantity = 0\<rparr>
      in if Remaining incoming > 0 then
           (if o_Type incoming = TypeLimit then
              (case AddResting incoming b of
                 Inl p \<Rightarrow> Inl p
               | Inr b' \<Rightarrow> Inr (result\<lparr>mr_RestedOnBook := True\<rparr>, b', ms_funds st))
            else Inr (result\<lparr>mr_CancelledQuantity := Remaining incoming,
                             mr_Incoming := CancelOrder (clk (ms_clock st)) incoming\<rparr>, b, ms_funds st))
         else Inr (result, b, ms_funds st))"

definition Match :: "(nat \<Rightarrow> time) \<Rightarrow> Book \<Rightarrow> Order \<Rightarrow> int64 option
    \<Rightarrow> (go_panic + (MatchResult \<times> Book \<times> int64 option)) option" where
  "Match clk book incoming availableBuyerFundsCents =
     (case match_loop clk \<lparr>ms_book = book, ms_incoming = incoming, ms_funds = availableBuyerFundsCents,
                           ms_trades = [], ms_makers = [], ms_clock = 0\<rparr> of
        None \<Rightarrow> None
      | Some (Inl p) \<Rightarrow> Some (Inl p)
      | Some (Inr st) \<Rightarrow> Some (match_end clk st))"

end
