(* ===== verification/Match_Correct.thy ===== *)
theory Match_Correct
  imports Match_Engine
begin

text \<open>
  \<open>Match\<close> implements a walk down the priority list of the other side. The specification works on that
  list alone, in unbounded arithmetic; the refinement shows that on a well-formed book the Go loop ends,
  does not panic, never wraps, and produces exactly the trades, makers, funds and book of the walk.
\<close>

section \<open>The specification\<close>

definition crosses :: "Order \<Rightarrow> Order \<Rightarrow> bool" where
  "crosses inc m \<longleftrightarrow> (o_Type inc = TypeLimit \<longrightarrow>
     (if o_Side inc = SideBuy then price_of m \<le> price_of inc else price_of inc \<le> price_of m))"

definition open_qty :: "Order \<Rightarrow> int" where
  "open_qty ord = o_Quantity ord - o_FilledQuantity ord"

definition spec_qty :: "Order \<Rightarrow> int option \<Rightarrow> Order \<Rightarrow> int" where
  "spec_qty inc funds m =
     (let q = min (open_qty inc) (open_qty m)
      in (case funds of Some f \<Rightarrow> if isBuyMarket inc then min q (f div price_of m) else q | None \<Rightarrow> q))"

definition charge :: "Order \<Rightarrow> int option \<Rightarrow> int \<Rightarrow> Order \<Rightarrow> int option" where
  "charge inc funds q m = (if isBuyMarket inc then map_option (\<lambda>f. f - q * price_of m) funds else funds)"

record spec_out =
  so_trades :: "MTrade list"
  so_makers :: "Order list"
  so_incoming :: Order
  so_funds :: "int option"
  so_rest :: "Order list"

fun match_spec :: "(nat \<Rightarrow> time) \<Rightarrow> nat \<Rightarrow> Order \<Rightarrow> int option \<Rightarrow> Order list \<Rightarrow> spec_out" where
  "match_spec clk n inc funds [] =
     \<lparr>so_trades = [], so_makers = [], so_incoming = inc, so_funds = funds, so_rest = []\<rparr>"
| "match_spec clk n inc funds (m # ms) =
     (let q = spec_qty inc funds m;
          inc' = filled_by (clk n) q inc; m' = filled_by (clk (Suc n)) q m; funds' = charge inc funds q m;
          t = make_trade inc m (price_of m) q
      in if q = 0 \<or> \<not> crosses inc m
         then \<lparr>so_trades = [], so_makers = [], so_incoming = inc, so_funds = funds, so_rest = m # ms\<rparr>
         else if q < open_qty m
         then \<lparr>so_trades = [t], so_makers = [m'], so_incoming = inc', so_funds = funds', so_rest = m' # ms\<rparr>
         else (let r = match_spec clk (n + 2) inc' funds' ms
               in r\<lparr>so_trades := t # so_trades r, so_makers := m' # so_makers r\<rparr>))"

section \<open>Incoming orders and funds\<close>

definition inc_ok :: "Order \<Rightarrow> bool" where
  "inc_ok inc \<longleftrightarrow> order_ok inc \<and> o_Status inc \<noteq> StatusCancelled \<and> o_Side inc \<in> sides \<and>
     (o_Type inc = TypeMarket \<or>
      o_Type inc = TypeLimit \<and> (\<exists>p. o_PriceCents inc = Some p \<and> 0 < p \<and> p \<le> MaxInt64))"

definition funds_ok :: "int option \<Rightarrow> bool" where
  "funds_ok funds \<longleftrightarrow> (\<forall>f. funds = Some f \<longrightarrow> 0 \<le> f \<and> f \<le> MaxInt64)"

declare Remaining_eq [simp del]

lemma Remaining_open [simp]: "order_ok ord \<Longrightarrow> Remaining ord = open_qty ord"
  by (simp add: open_qty_def Remaining_eq)

lemma open_filled [simp]: "open_qty (filled_by t q ord) = open_qty ord - q"
  by (simp add: open_qty_def)

lemma resting_open:
  assumes "resting_ok m"
  shows "order_ok m" "0 < open_qty m" "0 < price_of m" "price_of m \<le> MaxInt64" "o_PriceCents m = Some (price_of m)"
  using assms resting_remaining [OF assms] Remaining_open [of m]
  by (auto simp: resting_ok_def price_of_def)

lemma inc_ok_filled: "inc_ok inc \<Longrightarrow> 0 < q \<Longrightarrow> q \<le> open_qty inc \<Longrightarrow> inc_ok (filled_by t q inc)"
  using order_ok_filled [of inc q t] Remaining_open [of inc] by (auto simp: inc_ok_def)

lemma inc_rests: "inc_ok inc \<Longrightarrow> 0 < open_qty inc \<Longrightarrow> o_Type inc = TypeLimit \<Longrightarrow> resting_ok inc"
  using live_iff_remaining [of inc] Remaining_open [of inc] by (auto simp: inc_ok_def resting_ok_def)

lemma isBuyMarket_filled [simp]: "isBuyMarket (filled_by t q inc) = isBuyMarket inc"
  by (simp add: isBuyMarket_def)

lemma spec_qty_bounds:
  assumes "resting_ok m" "0 < open_qty inc" "funds_ok funds"
  shows "0 \<le> spec_qty inc funds m" "spec_qty inc funds m \<le> open_qty inc" "spec_qty inc funds m \<le> open_qty m"
  using assms resting_open [OF assms(1)]
  by (auto simp: spec_qty_def Let_def funds_ok_def pos_imp_zdiv_nonneg_iff split: option.split)

lemma funds_cover:
  assumes "resting_ok m" "funds_ok (Some f)" "isBuyMarket inc" "q \<le> spec_qty inc (Some f) m"
  shows "q * price_of m \<le> f"
proof -
  have "q \<le> f div price_of m" using assms(3,4) by (simp add: spec_qty_def Let_def split: if_splits)
  then have "q * price_of m \<le> f div price_of m * price_of m"
    using resting_open(3) [OF assms(1)] by (simp add: mult_right_mono)
  also have "\<dots> \<le> f"
    using resting_open(3) [OF assms(1)] by (metis mod_int_pos_iff add_le_same_cancel1 div_mult_mod_eq le_add_same_cancel1 mult.commute less_le)
  finally show ?thesis .
qed

lemma charge_ok:
  assumes "resting_ok m" "0 < open_qty inc" "funds_ok funds"
  shows "funds_ok (charge inc funds (spec_qty inc funds m) m)"
proof (cases funds)
  case (Some f)
  have "0 \<le> spec_qty inc funds m * price_of m"
    using spec_qty_bounds(1) [OF assms] resting_open(3) [OF assms(1)] by simp
  with Some show ?thesis
    using funds_cover [OF assms(1), of f inc "spec_qty inc funds m"] assms(3)
    by (auto simp: funds_ok_def charge_def)
qed (simp add: funds_ok_def charge_def)

text \<open>The machine arithmetic of the loop body computes the specification's quantities.\<close>

lemma match_qty_eq:
  assumes "resting_ok m" "order_ok inc" "funds_ok funds"
  shows "match_qty inc funds m (price_of m) = Inr (spec_qty inc funds m)"
proof -
  have m: "min64 (Remaining inc) (Remaining m) = min (open_qty inc) (open_qty m)"
    using resting_open(1) [OF assms(1)] assms(2) by (simp add: min64_def)
  have "i64_quot f (price_of m) = Inr (f div price_of m)" if "funds = Some f" for f
    using assms(3) that resting_open(3) [OF assms(1)]
    by (intro i64_quot_nonneg) (auto simp: funds_ok_def in64_def MinInt64_def)
  then show ?thesis
    by (auto simp: match_qty_def spec_qty_def m Let_def split: option.split)
qed

lemma charge_eq:
  assumes "resting_ok m" "0 < open_qty inc" "funds_ok funds" "q = spec_qty inc funds m"
  shows "(case funds of Some f \<Rightarrow> if isBuyMarket inc then Some (i64_sub f (i64_mul q (price_of m))) else Some f | None \<Rightarrow> None)
    = charge inc funds q m"
proof (cases "\<exists>f. funds = Some f \<and> isBuyMarket inc")
  case True
  then obtain f where f: "funds = Some f" "isBuyMarket inc" by blast
  have lo: "0 \<le> q * price_of m" "q * price_of m \<le> f" "f \<le> MaxInt64"
    using spec_qty_bounds(1) [OF assms(1-3)] resting_open(3) [OF assms(1)] assms(3,4) f
      funds_cover [OF assms(1) _ f(2), of f q] by (auto simp: funds_ok_def)
  then have "in64 (q * price_of m)" "in64 (f - q * price_of m)"
    by (auto simp: in64_def MinInt64_def)
  with f show ?thesis by (simp add: charge_def i64_sub_id i64_mul_id)
qed (auto simp: charge_def split: option.split)

section \<open>One pass through the loop\<close>

text \<open>The elements on some queue; a maker off every queue is never written again.\<close>

definition live :: "Book \<Rightarrow> elem set" where
  "live b = loc_elem ` ran (b_locations b)"

lemma live_location: "b_locations b i = Some l \<Longrightarrow> loc_elem l \<in> live b"
  by (auto simp: live_def ran_def)

lemma live_put_order [simp]: "live (put_order e ord b) = live b"
  by (simp add: live_def)

lemma live_delete:
  assumes "book_ok b" "b_locations b i = Some l" "b_locations b' = (b_locations b)(i := None)"
  shows "live b' = live b - {loc_elem l}"
proof -
  have locs: "o_ID (b_elems b (loc_elem l')) = j" if "b_locations b j = Some l'" for j l'
    using assms(1) that by (simp add: book_ok_ex_def locations_ok_def)
  have ran: "x \<in> live c \<longleftrightarrow> (\<exists>j l'. b_locations c j = Some l' \<and> loc_elem l' = x)" for x c
    by (auto simp: live_def ran_def)
  show ?thesis
  proof (intro set_eqI iffI)
    fix x assume "x \<in> live b'"
    then obtain j l' where j: "j \<noteq> i" "b_locations b j = Some l'" "loc_elem l' = x"
      by (auto simp: ran assms(3) split: if_splits)
    then show "x \<in> live b - {loc_elem l}" using locs [OF j(2)] locs [OF assms(2)] by (auto simp: ran)
  next
    fix x assume "x \<in> live b - {loc_elem l}"
    then obtain j l' where "b_locations b j = Some l'" "loc_elem l' = x" "x \<noteq> loc_elem l" by (auto simp: ran)
    then show "x \<in> live b'" using assms(2,3) by (cases "j = i") (auto simp: ran)
  qed
qed

lemma beyond_limit_eq: "inc_ok inc \<Longrightarrow> beyond_limit inc (price_of m) = Inr (\<not> crosses inc m)"
  by (auto simp: beyond_limit_def crosses_def inc_ok_def price_of_def)

text \<open>What one pass decides, in terms of the head of the list.\<close>

lemma match_iter_head:
  assumes ok: "book_ok (ms_book st)" "inc_ok (ms_incoming st)" "funds_ok (ms_funds st)"
    and head: "priority (ms_book st) (opposite (o_Side (ms_incoming st))) = m # ms"
  obtains a e es where "a \<in> levels_of (ms_book st) (opposite (o_Side (ms_incoming st)))"
    "lv_orders (b_mem (ms_book st) a) = e # es" "b_elems (ms_book st) e = m"
    "lv_priceCents (b_mem (ms_book st) a) = price_of m" "resting_ok m"
    "match_iter clk st =
      (if spec_qty (ms_incoming st) (ms_funds st) m = 0 \<or> \<not> crosses (ms_incoming st) m then Inr (Broke st)
       else match_exec clk a e (spec_qty (ms_incoming st) (ms_funds st) m) st)"
proof -
  let ?s = "opposite (o_Side (ms_incoming st))" and ?b = "ms_book st"
  have s: "?s \<in> sides" by simp
  have peek: "BestOpposite ?b (o_Side (ms_incoming st)) = lh_peek (fst (heapAndIndex ?b ?s))"
    using ok(2) by (intro BestOpposite_opposite) (simp add: inc_ok_def)
  obtain a where a: "lh_peek (fst (heapAndIndex ?b ?s)) = Some a"
    using best_empty [OF ok(1) s] head by (cases "lh_peek (fst (heapAndIndex ?b ?s))") auto
  obtain e es where h: "lv_orders (b_mem ?b a) = e # es" "b_elems ?b e = m"
      "lv_priceCents (b_mem ?b a) = price_of m" "resting_ok m"
    using best_head [OF ok(1) s a] head by (metis list.inject)
  have "match_qty (ms_incoming st) (ms_funds st) m (price_of m) = Inr (spec_qty (ms_incoming st) (ms_funds st) m)"
    using h(4) ok by (intro match_qty_eq) (simp_all add: inc_ok_def)
  then have "match_iter clk st =
      (if spec_qty (ms_incoming st) (ms_funds st) m = 0 \<or> \<not> crosses (ms_incoming st) m then Inr (Broke st)
       else match_exec clk a e (spec_qty (ms_incoming st) (ms_funds st) m) st)" for clk
    using h beyond_limit_eq [OF ok(2), of m]
    by (simp add: match_iter_def peek a FrontOrder_def split: bool.split)
  then show thesis by (rule that [OF best_price(1) [OF ok(1) s a] h])
qed

lemma match_iter_empty:
  assumes "book_ok (ms_book st)" "inc_ok (ms_incoming st)"
    "priority (ms_book st) (opposite (o_Side (ms_incoming st))) = []"
  shows "match_iter clk st = Inr (Broke st)"
  using best_empty [OF assms(1), of "opposite (o_Side (ms_incoming st))"] assms
  by (simp add: match_iter_def BestOpposite_opposite inc_ok_def)

lemma filter_upd: "filter (\<lambda>x. o_ID x \<noteq> o_ID m') (map (\<lambda>x. if o_ID x = o_ID m' then m' else x) xs) = filter (\<lambda>x. o_ID x \<noteq> o_ID m') xs"
  by (induction xs) auto

lemma fill_ignoring_ok:
  "order_ok ord \<Longrightarrow> 0 < q \<Longrightarrow> q \<le> open_qty ord \<Longrightarrow> fill_ignoring_error t q ord = filled_by t q ord"
  by (simp add: fill_ignoring_error_def Fill_eq)

text \<open>Writing the filled maker back, and taking it off the book when nothing is left of it.\<close>

definition exec_book :: "Side \<Rightarrow> addr \<Rightarrow> elem \<Rightarrow> Order \<Rightarrow> Book \<Rightarrow> go_panic + Book" where
  "exec_book s a e m' b =
     (if Remaining m' = 0 then removeFront m' s a (put_order e m' b) else Inr (put_order e m' b))"

lemma other_ids:
  assumes ok: "book_ok b" and s: "s \<in> sides" and x: "x \<in> set (priority b s)"
    and s': "s' \<in> sides" "s' \<noteq> s" and y: "y \<in> set (priority b s')"
  shows "o_ID y \<noteq> o_ID x"
  using s s' x y priority_sides_disjoint [OF ok, of x y] priority_sides_disjoint [OF ok, of y x] by auto

lemma exec_book_keep:
  assumes ok: "book_ok b" and s: "s \<in> sides" and a: "a \<in> levels_of b s" and e: "e \<in> set (lv_orders (b_mem b a))"
    and prio: "priority b s = b_elems b e # ms" and m: "resting_ok (b_elems b e)"
    and q: "0 < q" "q < open_qty (b_elems b e)"
    and m'_def: "m' = filled_by t q (b_elems b e)"
  shows "exec_book s a e m' b = Inr (put_order e m' b) \<and> book_ok (put_order e m' b) \<and>
    priority (put_order e m' b) s = m' # ms \<and>
    (\<forall>s'\<in>sides. s' \<noteq> s \<longrightarrow> priority (put_order e m' b) s' = priority b s')"
proof -
  have same: "o_ID m' = o_ID (b_elems b e)" "o_Side m' = o_Side (b_elems b e)" "o_PriceCents m' = o_PriceCents (b_elems b e)"
    by (simp_all add: m'_def)
  have m'ok: "resting_ok m'" using resting_ok_filled [OF m q(1), of t] resting_open(1) [OF m] q by (simp add: m'_def)
  then have ok': "book_ok (put_order e m' b)" using put_order_ok_ex [OF ok s a e same] by blast
  have pr: "priority (put_order e m' b) s' = map (\<lambda>x. if o_ID x = o_ID m' then m' else x) (priority b s')"
    if "s' \<in> sides" for s'
    using ok ok' that put_order_queue [OF ok s a e same(1) that] by (rule priority_map)
  have "Remaining m' \<noteq> 0" using resting_open(1,2) [OF m'ok] by simp
  moreover have "priority (put_order e m' b) s = m' # ms"
    using pr [OF s] prio same(1) priority_ids_distinct [OF ok s] by (auto simp: image_iff intro!: map_idI)
  moreover have "priority (put_order e m' b) s' = priority b s'" if "s' \<in> sides" "s' \<noteq> s" for s'
    unfolding pr [OF that(1)]
    by (rule map_idI) (use other_ids [OF ok s _ that, of "b_elems b e"] prio same(1) in auto)
  ultimately show ?thesis using ok' by (auto simp: exec_book_def)
qed

lemma exec_book_drop:
  assumes ok: "book_ok b" and s: "s \<in> sides" and a: "a \<in> levels_of b s" and e: "e \<in> set (lv_orders (b_mem b a))"
    and prio: "priority b s = b_elems b e # ms" and m: "resting_ok (b_elems b e)"
    and m'_def: "m' = filled_by t (open_qty (b_elems b e)) (b_elems b e)"
  shows "\<exists>b'. exec_book s a e m' b = Inr b' \<and> book_ok b' \<and> b_elems b' = (b_elems b)(e := m') \<and>
    resting_ids b' \<subseteq> resting_ids b \<and> live b' = live b - {e} \<and> priority b' s = ms \<and>
    (\<forall>s'\<in>sides. s' \<noteq> s \<longrightarrow> priority b' s' = priority b s')"
proof -
  have same: "o_ID m' = o_ID (b_elems b e)" "o_Side m' = o_Side (b_elems b e)" "o_PriceCents m' = o_PriceCents (b_elems b e)"
    by (simp_all add: m'_def)
  have ok': "book_ok_ex {} {e} (put_order e m' b)" using put_order_ok_ex [OF ok s a e same] by blast
  obtain b' where b': "removeFront m' s a (put_order e m' b) = Inr b'" "book_ok b'" "b_elems b' = (b_elems b)(e := m')"
      "b_locations b' = (b_locations b)(o_ID m' := None)" "resting_ids b' = resting_ids b - {o_ID m'}"
      "\<forall>s'\<in>sides. \<forall>p. queue b' s' p = filter (\<lambda>x. o_ID x \<noteq> o_ID m') (queue (put_order e m' b) s' p)"
    using removeFront_ok [OF ok' s, of a m'] a e by auto
  then have q': "queue b' s' p = filter (\<lambda>x. o_ID x \<noteq> o_ID m') (queue b s' p)" if "s' \<in> sides" for s' p
    using bspec [OF b'(6) that] put_order_queue [OF ok s a e same(1) that] by (simp add: filter_upd)
  have pr: "priority b' s' = filter (\<lambda>x. o_ID x \<noteq> o_ID m') (priority b s')" if "s' \<in> sides" for s'
    using ok b'(2) that q' [OF that] by (rule priority_filter)
  have "order_ok m'"
    unfolding m'_def by (rule order_ok_filled) (use resting_open [OF m] in simp_all)
  then have "Remaining m' = 0" by (simp add: m'_def)
  moreover have "b_locations b (o_ID m') = Some \<lparr>loc_side = s, loc_lvl = a, loc_elem = e\<rparr>"
    using location_of [OF ok s a e] same(1) by simp
  then have "live b' = live b - {e}" using live_delete [OF ok _ b'(4)] by simp
  moreover have "priority b' s = ms"
    using pr [OF s] prio same(1) priority_ids_distinct [OF ok s] by (auto simp: image_iff filter_id_conv)
  moreover have "priority b' s' = priority b s'" if "s' \<in> sides" "s' \<noteq> s" for s'
    unfolding pr [OF that(1)]
    by (rule filter_True) (use other_ids [OF ok s _ that, of "b_elems b e"] prio same(1) in auto)
  ultimately show ?thesis using b' by (auto simp: exec_book_def)
qed

text \<open>The whole pass when it executes a trade.\<close>

definition exec_state :: "(nat \<Rightarrow> time) \<Rightarrow> MatchState \<Rightarrow> Order \<Rightarrow> elem \<Rightarrow> int \<Rightarrow> Book \<Rightarrow> MatchState" where
  "exec_state clk st m e q b' =
     st\<lparr>ms_book := b', ms_incoming := filled_by (clk (ms_clock st)) q (ms_incoming st),
        ms_funds := charge (ms_incoming st) (ms_funds st) q m,
        ms_trades := ms_trades st @ [make_trade (ms_incoming st) m (price_of m) q],
        ms_makers := ms_makers st @ [e], ms_clock := ms_clock st + 2\<rparr>"

lemma match_exec_eq:
  assumes inc: "inc_ok (ms_incoming st)" "0 < open_qty (ms_incoming st)" "funds_ok (ms_funds st)"
    and m: "b_elems (ms_book st) e = m" "resting_ok m" "lv_priceCents (b_mem (ms_book st) a) = price_of m"
    and q: "q = spec_qty (ms_incoming st) (ms_funds st) m" "q \<noteq> 0"
    and book: "exec_book (opposite (o_Side (ms_incoming st))) a e (filled_by (clk (Suc (ms_clock st))) q m) (ms_book st) = Inr b'"
  shows "match_exec clk a e q st = Inr (Continues (exec_state clk st m e q b'))"
proof -
  have qb: "0 < q" "q \<le> open_qty (ms_incoming st)" "q \<le> open_qty m"
    using spec_qty_bounds [OF m(2) inc(2,3)] q by auto
  have "order_ok (ms_incoming st)" using inc(1) by (simp add: inc_ok_def)
  then have fills: "fill_ignoring_error (clk n) q (ms_incoming st) = filled_by (clk n) q (ms_incoming st)"
      "fill_ignoring_error (clk n) q m = filled_by (clk n) q m" for n
    using qb resting_open(1) [OF m(2)] by (simp_all add: fill_ignoring_ok)
  show ?thesis
    using book unfolding match_exec_def Let_def m(1,3) fills charge_eq [OF m(2) inc(2,3) q(1)]
    by (auto simp: exec_book_def exec_state_def opposite_def split: if_splits)
qed

section \<open>The loop\<close>

text \<open>A partial fill of the maker exhausts the incoming order or the funds: the next pass stops.\<close>

lemma partial_exhausts:
  assumes m: "resting_ok m" and inc: "0 < open_qty inc" and f: "funds_ok funds"
    and q: "q = spec_qty inc funds m" "q < open_qty m"
  shows "spec_qty (filled_by t q inc) (charge inc funds q m) (filled_by t' q m) = 0"
proof -
  note mo = resting_open [OF m]
  have p [simp]: "price_of (filled_by t' x m) = price_of m" for x by (simp add: price_of_def)
  have qi: "q \<le> open_qty inc" using spec_qty_bounds(2) [OF m inc f] q by simp
  show ?thesis
  proof (cases "q = open_qty inc")
    case True
    have "funds_ok (charge inc funds q m)" using charge_ok [OF m inc f] q(1) by simp
    then have "0 \<le> f div price_of m" if "charge inc funds q m = Some f" for f
      using that mo(3) by (auto simp: funds_ok_def pos_imp_zdiv_nonneg_iff)
    then show ?thesis
      using True q(2) by (auto simp: spec_qty_def p split: option.split)
  next
    case False
    then obtain g where g: "funds = Some g" "isBuyMarket inc" "q = g div price_of m"
      using q qi by (auto simp: spec_qty_def Let_def min_def split: option.splits if_splits)
    then have "g - q * price_of m = g mod price_of m" by (simp add: minus_div_mult_eq_mod)
    then show ?thesis
      using g mo(3) q(2) qi by (simp add: spec_qty_def charge_def p)
  qed
qed

lemma match_loop_stop:
  assumes ok: "book_ok (ms_book st)" "inc_ok (ms_incoming st)" "funds_ok (ms_funds st)"
    and stop: "case priority (ms_book st) (opposite (o_Side (ms_incoming st))) of
      [] \<Rightarrow> True | m # _ \<Rightarrow> spec_qty (ms_incoming st) (ms_funds st) m = 0 \<or> \<not> crosses (ms_incoming st) m"
  shows "match_loop clk st = Some (Inr st)"
proof -
  have "match_iter clk st = Inr (Broke st)"
  proof (cases "priority (ms_book st) (opposite (o_Side (ms_incoming st)))")
    case Nil
    then show ?thesis using match_iter_empty [OF ok(1,2)] by blast
  next
    case (Cons m ms)
    then show ?thesis using match_iter_head [OF ok Cons, of clk] stop by auto
  qed
  then show ?thesis by (subst match_loop.simps) simp
qed

definition loop_result :: "MatchState \<Rightarrow> MatchState \<Rightarrow> spec_out \<Rightarrow> bool" where
  "loop_result st st' r \<longleftrightarrow>
     ms_incoming st' = so_incoming r \<and> ms_funds st' = so_funds r \<and> ms_trades st' = ms_trades st @ so_trades r \<and>
     (\<exists>es. ms_makers st' = ms_makers st @ es \<and> set es \<subseteq> live (ms_book st) \<and> map (b_elems (ms_book st')) es = so_makers r) \<and>
     (\<forall>e. e \<notin> live (ms_book st) \<longrightarrow> b_elems (ms_book st') e = b_elems (ms_book st) e) \<and>
     live (ms_book st') \<subseteq> live (ms_book st) \<and> resting_ids (ms_book st') \<subseteq> resting_ids (ms_book st) \<and>
     book_ok (ms_book st') \<and> ms_clock st' = ms_clock st + 2 * length (so_trades r) \<and>
     priority (ms_book st') (opposite (o_Side (ms_incoming st))) = so_rest r \<and>
     priority (ms_book st') (o_Side (ms_incoming st)) = priority (ms_book st) (o_Side (ms_incoming st))"

lemma loop_result_stop:
  "book_ok (ms_book st) \<Longrightarrow>
   loop_result st st \<lparr>so_trades = [], so_makers = [], so_incoming = ms_incoming st, so_funds = ms_funds st,
     so_rest = priority (ms_book st) (opposite (o_Side (ms_incoming st)))\<rparr>"
  by (simp add: loop_result_def)

text \<open>Prefixing one executed trade to the result of the rest of the loop.\<close>

lemma loop_result_step:
  assumes st1: "st1 = exec_state clk st m e q b'" and sides: "o_Side (ms_incoming st) \<in> sides"
    and live: "e \<in> live (ms_book st)" "live b' = live (ms_book st) - {e}"
    and elems: "b_elems b' = (b_elems (ms_book st))(e := m')" and ids: "resting_ids b' \<subseteq> resting_ids (ms_book st)"
    and prio: "priority b' (o_Side (ms_incoming st)) = priority (ms_book st) (o_Side (ms_incoming st))"
    and r: "loop_result st1 st' r"
  shows "loop_result st st' (r\<lparr>so_trades := make_trade (ms_incoming st) m (price_of m) q # so_trades r,
      so_makers := m' # so_makers r\<rparr>)"
proof -
  obtain es where es: "ms_makers st' = ms_makers st1 @ es" "set es \<subseteq> live b'" "map (b_elems (ms_book st')) es = so_makers r"
    using r st1 by (auto simp: loop_result_def exec_state_def)
  have same: "b_elems (ms_book st') x = b_elems b' x" if "x \<notin> live b'" for x
    using r st1 that by (simp add: loop_result_def exec_state_def)
  have "map (b_elems (ms_book st')) (e # es) = m' # so_makers r"
    using es same [of e] live elems by simp
  moreover have "ms_makers st' = ms_makers st @ (e # es)" using es(1) st1 by (simp add: exec_state_def)
  moreover have "set (e # es) \<subseteq> live (ms_book st)" using es(2) live by auto
  ultimately have "\<exists>es. ms_makers st' = ms_makers st @ es \<and> set es \<subseteq> live (ms_book st) \<and>
      map (b_elems (ms_book st')) es = m' # so_makers r" by (intro exI [of _ "e # es"]) simp
  moreover have "b_elems (ms_book st') x = b_elems (ms_book st) x" if "x \<notin> live (ms_book st)" for x
    using same [of x] that live elems by auto
  ultimately show ?thesis
    using r st1 live(2) ids prio by (auto simp: loop_result_def exec_state_def)
qed

lemma spec_qty_zero: "resting_ok m \<Longrightarrow> funds_ok funds \<Longrightarrow> open_qty inc = 0 \<Longrightarrow> spec_qty inc funds m = 0"
  using resting_open [of m]
  by (auto simp: spec_qty_def funds_ok_def pos_imp_zdiv_nonneg_iff split: option.split)

lemma match_loop_continue:
  assumes "0 < open_qty (ms_incoming st)" "inc_ok (ms_incoming st)" "match_iter clk st = Inr (Continues st1)"
  shows "match_loop clk st = match_loop clk st1"
  using assms by (subst match_loop.simps) (simp add: inc_ok_def)

text \<open>The two ways a pass with a trade goes on.\<close>

lemma match_loop_partial:
  assumes ok: "book_ok (ms_book st)" "inc_ok (ms_incoming st)" "funds_ok (ms_funds st)"
    and head: "priority (ms_book st) (opposite (o_Side (ms_incoming st))) = m # ms"
    and go: "q = spec_qty (ms_incoming st) (ms_funds st) m" "q \<noteq> 0" "crosses (ms_incoming st) m"
    and opos: "0 < open_qty (ms_incoming st)" and part: "q < open_qty m"
  shows "\<exists>st'. match_loop clk st = Some (Inr st') \<and>
    loop_result st st' (match_spec clk (ms_clock st) (ms_incoming st) (ms_funds st) (m # ms))"
proof -
  let ?inc = "ms_incoming st" and ?b = "ms_book st"
  let ?m' = "filled_by (clk (Suc (ms_clock st))) q m"
  obtain a e es where h: "a \<in> levels_of ?b (opposite (o_Side ?inc))" "lv_orders (b_mem ?b a) = e # es" "b_elems ?b e = m"
      "lv_priceCents (b_mem ?b a) = price_of m" "resting_ok m" and iter: "match_iter clk st = match_exec clk a e q st"
    using match_iter_head [OF ok head, of clk] go by metis
  have sd: "opposite (o_Side ?inc) \<in> sides" "o_Side ?inc \<in> sides" "o_Side ?inc \<noteq> opposite (o_Side ?inc)"
    using ok(2) by (auto simp: inc_ok_def opposite_def)
  note qb = spec_qty_bounds [OF h(5) opos ok(3), folded go(1)]
  have e: "e \<in> set (lv_orders (b_mem ?b a))" using h(2) by simp
  have elive: "e \<in> live ?b" using live_location [OF location_of [OF ok(1) sd(1) h(1) e]] by simp
  define st1 where "st1 = exec_state clk st m e q (put_order e ?m' ?b)"
  have eb: "exec_book (opposite (o_Side ?inc)) a e ?m' ?b = Inr (put_order e ?m' ?b)" "book_ok (put_order e ?m' ?b)"
      "priority (put_order e ?m' ?b) (opposite (o_Side ?inc)) = ?m' # ms"
      "priority (put_order e ?m' ?b) (o_Side ?inc) = priority ?b (o_Side ?inc)"
    using exec_book_keep [OF ok(1) sd(1) h(1) e, of ms q ?m' "clk (Suc (ms_clock st))"] head h part qb go sd(2,3) by auto
  have "match_iter clk st = Inr (Continues st1)"
    using match_exec_eq [of st e m a q clk, OF ok(2) opos ok(3) h(3,5,4) go(1,2) eb(1)] iter st1_def by simp
  then have "match_loop clk st = match_loop clk st1" by (rule match_loop_continue [OF opos ok(2)])
  moreover have "match_loop clk st1 = Some (Inr st1)"
    using match_loop_stop [of st1 clk] eb partial_exhausts [OF h(5) opos ok(3) go(1) part]
      inc_ok_filled [OF ok(2)] charge_ok [OF h(5) opos ok(3)] qb go(1,2)
    by (simp add: st1_def exec_state_def)
  moreover have "loop_result st st1 (match_spec clk (ms_clock st) ?inc (ms_funds st) (m # ms))"
    using go part eb elive by (auto simp: loop_result_def st1_def exec_state_def Let_def)
  ultimately show ?thesis by simp
qed

lemma match_loop_full:
  assumes ok: "book_ok (ms_book st)" "inc_ok (ms_incoming st)" "funds_ok (ms_funds st)"
    and head: "priority (ms_book st) (opposite (o_Side (ms_incoming st))) = m # ms"
    and go: "q = spec_qty (ms_incoming st) (ms_funds st) m" "q \<noteq> 0" "crosses (ms_incoming st) m"
    and opos: "0 < open_qty (ms_incoming st)" and full: "\<not> q < open_qty m"
  obtains e b' where "match_loop clk st = match_loop clk (exec_state clk st m e q b')" "book_ok b'"
    "e \<in> live (ms_book st)" "live b' = live (ms_book st) - {e}"
    "b_elems b' = (b_elems (ms_book st))(e := filled_by (clk (Suc (ms_clock st))) q m)"
    "resting_ids b' \<subseteq> resting_ids (ms_book st)"
    "priority b' (o_Side (ms_incoming st)) = priority (ms_book st) (o_Side (ms_incoming st))"
    "priority b' (opposite (o_Side (ms_incoming st))) = ms"
    "inc_ok (filled_by (clk (ms_clock st)) q (ms_incoming st))"
    "funds_ok (charge (ms_incoming st) (ms_funds st) q m)"
proof -
  let ?inc = "ms_incoming st" and ?b = "ms_book st"
  let ?m' = "filled_by (clk (Suc (ms_clock st))) q m"
  obtain a e es where h: "a \<in> levels_of ?b (opposite (o_Side ?inc))" "lv_orders (b_mem ?b a) = e # es" "b_elems ?b e = m"
      "lv_priceCents (b_mem ?b a) = price_of m" "resting_ok m" and iter: "match_iter clk st = match_exec clk a e q st"
    using match_iter_head [OF ok head, of clk] go by metis
  have sd: "opposite (o_Side ?inc) \<in> sides" "o_Side ?inc \<in> sides" "o_Side ?inc \<noteq> opposite (o_Side ?inc)"
    using ok(2) by (auto simp: inc_ok_def opposite_def)
  note qb = spec_qty_bounds [OF h(5) opos ok(3), folded go(1)]
  have e: "e \<in> set (lv_orders (b_mem ?b a))" using h(2) by simp
  have elive: "e \<in> live ?b" using live_location [OF location_of [OF ok(1) sd(1) h(1) e]] by simp
  have "q = open_qty m" using qb full by simp
  then obtain b' where eb: "exec_book (opposite (o_Side ?inc)) a e ?m' ?b = Inr b'" "book_ok b'"
      "b_elems b' = (b_elems ?b)(e := ?m')" "resting_ids b' \<subseteq> resting_ids ?b" "live b' = live ?b - {e}"
      "priority b' (opposite (o_Side ?inc)) = ms" "priority b' (o_Side ?inc) = priority ?b (o_Side ?inc)"
    using exec_book_drop [OF ok(1) sd(1) h(1) e, of ms ?m' "clk (Suc (ms_clock st))"] head h sd(2,3) by auto
  have "match_iter clk st = Inr (Continues (exec_state clk st m e q b'))"
    using match_exec_eq [of st e m a q clk, OF ok(2) opos ok(3) h(3,5,4) go(1,2) eb(1)] iter by simp
  then have "match_loop clk st = match_loop clk (exec_state clk st m e q b')"
    by (rule match_loop_continue [OF opos ok(2)])
  then show thesis
    by (rule that) (use eb elive inc_ok_filled [OF ok(2)] charge_ok [OF h(5) opos ok(3)] qb go(1,2) in simp_all)
qed

lemma match_loop_refines:
  assumes "book_ok (ms_book st)" "inc_ok (ms_incoming st)" "funds_ok (ms_funds st)"
    and "priority (ms_book st) (opposite (o_Side (ms_incoming st))) = xs"
  shows "\<exists>st'. match_loop clk st = Some (Inr st') \<and>
    loop_result st st' (match_spec clk (ms_clock st) (ms_incoming st) (ms_funds st) xs)"
  using assms
proof (induction xs arbitrary: st)
  case Nil
  then show ?case
    using match_loop_stop [OF Nil.prems(1-3), of clk] loop_result_stop [OF Nil.prems(1)] by simp
next
  case (Cons m ms)
  let ?inc = "ms_incoming st"
  define q where "q = spec_qty ?inc (ms_funds st) m"
  show ?case
  proof (cases "q = 0 \<or> \<not> crosses ?inc m")
    case True
    then show ?thesis
      using match_loop_stop [OF Cons.prems(1-3), of clk] loop_result_stop [OF Cons.prems(1)] Cons.prems(4)
      by (auto simp: q_def)
  next
    case False
    then have go: "q \<noteq> 0" "crosses ?inc m" by auto
    have "resting_ok m" using priority_members(1) [OF Cons.prems(1), of "opposite (o_Side ?inc)" m] Cons.prems(4) by simp
    then have "open_qty ?inc \<noteq> 0" using spec_qty_zero Cons.prems(3) go q_def by metis
    moreover have "0 \<le> open_qty ?inc" using Cons.prems(2) by (simp add: inc_ok_def order_ok_def open_qty_def)
    ultimately have opos: "0 < open_qty ?inc" by simp
    show ?thesis
    proof (cases "q < open_qty m")
      case True
      then show ?thesis using match_loop_partial [OF Cons.prems q_def go opos] by blast
    next
      case False
      obtain e b' where f: "match_loop clk st = match_loop clk (exec_state clk st m e q b')" "book_ok b'"
          "e \<in> live (ms_book st)" "live b' = live (ms_book st) - {e}"
          "b_elems b' = (b_elems (ms_book st))(e := filled_by (clk (Suc (ms_clock st))) q m)"
          "resting_ids b' \<subseteq> resting_ids (ms_book st)"
          "priority b' (o_Side ?inc) = priority (ms_book st) (o_Side ?inc)" "priority b' (opposite (o_Side ?inc)) = ms"
          "inc_ok (filled_by (clk (ms_clock st)) q ?inc)" "funds_ok (charge ?inc (ms_funds st) q m)"
        using match_loop_full [OF Cons.prems q_def go opos False] by metis
      let ?st1 = "exec_state clk st m e q b'"
      have s1: "ms_book ?st1 = b'" "ms_incoming ?st1 = filled_by (clk (ms_clock st)) q ?inc"
          "ms_funds ?st1 = charge ?inc (ms_funds st) q m" "ms_clock ?st1 = ms_clock st + 2"
        by (simp_all add: exec_state_def)
      obtain st' where "match_loop clk ?st1 = Some (Inr st')"
          "loop_result ?st1 st' (match_spec clk (ms_clock st + 2) (filled_by (clk (ms_clock st)) q ?inc) (charge ?inc (ms_funds st) q m) ms)"
        using Cons.IH [of ?st1] f by (auto simp: s1)
      moreover have "o_Side ?inc \<in> sides" using Cons.prems(2) by (simp add: inc_ok_def)
      ultimately show ?thesis
        using f(1) loop_result_step [OF refl _ f(3-7)] False go by (simp add: q_def Let_def)
    qed
  qed
qed

section \<open>Induction over the walk\<close>

lemma match_spec_induct [consumes 3, case_names stop partial full]:
  assumes "inc_ok inc" "funds_ok funds" "\<forall>m\<in>set xs. resting_ok m"
    and stop: "\<And>n inc funds xs. inc_ok inc \<Longrightarrow> funds_ok funds \<Longrightarrow> \<forall>m\<in>set xs. resting_ok m \<Longrightarrow>
      (\<And>m ms. xs = m # ms \<Longrightarrow> spec_qty inc funds m = 0 \<or> \<not> crosses inc m) \<Longrightarrow>
      P n inc funds xs \<lparr>so_trades = [], so_makers = [], so_incoming = inc, so_funds = funds, so_rest = xs\<rparr>"
    and partial: "\<And>n inc funds m ms q. inc_ok inc \<Longrightarrow> funds_ok funds \<Longrightarrow> resting_ok m \<Longrightarrow> \<forall>m\<in>set ms. resting_ok m \<Longrightarrow>
      q = spec_qty inc funds m \<Longrightarrow> 0 < q \<Longrightarrow> q \<le> open_qty inc \<Longrightarrow> q < open_qty m \<Longrightarrow> crosses inc m \<Longrightarrow>
      inc_ok (filled_by (clk n) q inc) \<Longrightarrow> funds_ok (charge inc funds q m) \<Longrightarrow>
      P n inc funds (m # ms) \<lparr>so_trades = [make_trade inc m (price_of m) q], so_makers = [filled_by (clk (Suc n)) q m],
        so_incoming = filled_by (clk n) q inc, so_funds = charge inc funds q m, so_rest = filled_by (clk (Suc n)) q m # ms\<rparr>"
    and full: "\<And>n inc funds m ms q r. inc_ok inc \<Longrightarrow> funds_ok funds \<Longrightarrow> resting_ok m \<Longrightarrow> \<forall>m\<in>set ms. resting_ok m \<Longrightarrow>
      q = spec_qty inc funds m \<Longrightarrow> 0 < q \<Longrightarrow> q \<le> open_qty inc \<Longrightarrow> q = open_qty m \<Longrightarrow> crosses inc m \<Longrightarrow>
      P (n + 2) (filled_by (clk n) q inc) (charge inc funds q m) ms r \<Longrightarrow>
      P n inc funds (m # ms) (r\<lparr>so_trades := make_trade inc m (price_of m) q # so_trades r,
        so_makers := filled_by (clk (Suc n)) q m # so_makers r\<rparr>)"
  shows "P n inc funds xs (match_spec clk n inc funds xs)"
  using assms(1-3)
proof (induction xs arbitrary: n inc funds)
  case Nil
  then show ?case using stop [of inc funds "[]" n] by simp
next
  case (Cons m ms)
  define q where "q = spec_qty inc funds m"
  show ?case
  proof (cases "q = 0 \<or> \<not> crosses inc m")
    case True
    then have "match_spec clk n inc funds (m # ms) =
        \<lparr>so_trades = [], so_makers = [], so_incoming = inc, so_funds = funds, so_rest = m # ms\<rparr>"
      by (simp add: q_def)
    then show ?thesis using stop [OF Cons.prems, of n] True q_def by auto
  next
    case False
    have m: "resting_ok m" "\<forall>m\<in>set ms. resting_ok m" using Cons.prems(3) by auto
    have "open_qty inc \<noteq> 0" using spec_qty_zero [OF m(1) Cons.prems(2)] False q_def by metis
    then have opos: "0 < open_qty inc" using Cons.prems(1) by (auto simp: inc_ok_def order_ok_def open_qty_def)
    have q: "0 < q" "q \<le> open_qty inc" "q \<le> open_qty m"
      using spec_qty_bounds [OF m(1) opos Cons.prems(2)] False by (auto simp: q_def)
    have ok': "inc_ok (filled_by (clk n) q inc)" "funds_ok (charge inc funds q m)"
      using inc_ok_filled [OF Cons.prems(1) q(1,2)] charge_ok [OF m(1) opos Cons.prems(2)] by (simp_all add: q_def)
    show ?thesis
    proof (cases "q < open_qty m")
      case True
      then show ?thesis
        using partial [OF Cons.prems(1,2) m q_def q(1,2) True _ ok'] False by (simp add: q_def Let_def)
    next
      case nq: False
      then show ?thesis
        using full [OF Cons.prems(1,2) m q_def q(1,2) _ _ Cons.IH [OF ok' m(2), of "n + 2"]] False q
        by (simp add: q_def Let_def)
    qed
  qed
qed

section \<open>The function\<close>

lemma spec_incoming:
  assumes "inc_ok inc" "funds_ok funds" "\<forall>m\<in>set xs. resting_ok m" "r = match_spec clk n inc funds xs"
  shows "inc_ok (so_incoming r) \<and> funds_ok (so_funds r) \<and> o_ID (so_incoming r) = o_ID inc \<and>
    o_UserID (so_incoming r) = o_UserID inc \<and> o_Side (so_incoming r) = o_Side inc \<and> o_Type (so_incoming r) = o_Type inc \<and>
    o_PriceCents (so_incoming r) = o_PriceCents inc \<and> o_Quantity (so_incoming r) = o_Quantity inc"
  unfolding assms(4) using assms(1-3) by (induction rule: match_spec_induct) auto

text \<open>
  The contract of \<open>Match\<close> every later proof uses: it returns, without a panic, exactly what the walk
  computes, and rests or cancels the remainder.
\<close>

lemma Match_refines:
  assumes ok: "book_ok b" "inc_ok inc" "funds_ok funds" and fresh: "o_ID inc \<notin> resting_ids b"
    and r: "r = match_spec clk 0 inc funds (priority b (opposite (o_Side inc)))"
    and rests: "rests \<longleftrightarrow> 0 < open_qty (so_incoming r) \<and> o_Type inc = TypeLimit"
    and drops: "drops \<longleftrightarrow> 0 < open_qty (so_incoming r) \<and> o_Type inc = TypeMarket"
  shows "\<exists>b'. Match clk b inc funds = Some (Inr
      (\<lparr>mr_Trades = so_trades r,
        mr_Incoming = (if drops then CancelOrder (clk (2 * length (so_trades r))) (so_incoming r) else so_incoming r),
        mr_TouchedMakers = so_makers r, mr_RestedOnBook = rests,
        mr_CancelledQuantity = (if drops then open_qty (so_incoming r) else 0)\<rparr>, b', so_funds r)) \<and>
    book_ok b' \<and> resting_ids b' \<subseteq> insert (o_ID inc) (resting_ids b) \<and>
    priority b' (opposite (o_Side inc)) = so_rest r \<and>
    priority b' (o_Side inc) =
      (if rests then insert_priority (so_incoming r) (priority b (o_Side inc)) else priority b (o_Side inc))"
proof -
  let ?st = "\<lparr>ms_book = b, ms_incoming = inc, ms_funds = funds, ms_trades = [], ms_makers = [], ms_clock = 0\<rparr>"
  let ?s = "o_Side inc"
  obtain st' where loop: "match_loop clk ?st = Some (Inr st')" and lr: "loop_result ?st st' r"
    using match_loop_refines [of ?st, OF _ _ _ refl, of clk] ok by (auto simp: r)
  let ?b = "ms_book st'"
  from lr have st': "ms_incoming st' = so_incoming r" "ms_funds st' = so_funds r" "ms_trades st' = so_trades r"
      "map (b_elems ?b) (ms_makers st') = so_makers r" "ms_clock st' = 2 * length (so_trades r)"
    and b: "book_ok ?b" "resting_ids ?b \<subseteq> resting_ids b" "priority ?b (opposite ?s) = so_rest r"
      "priority ?b ?s = priority b ?s"
    by (auto simp: loop_result_def)
  have "\<forall>m\<in>set (priority b (opposite ?s)). resting_ok m"
    using priority_members(1) [OF ok(1)] by (metis insert_iff opposite_sides singletonI)
  note inc = spec_incoming [OF ok(2,3) this r]
  have Match: "Match clk b inc funds = Some (match_end clk st')"
    by (simp add: Match_def loop)
  have rem: "Remaining (so_incoming r) = open_qty (so_incoming r)" using inc by (simp add: inc_ok_def)
  have ty: "o_Type inc = TypeLimit \<or> o_Type inc = TypeMarket" using ok(2) by (auto simp: inc_ok_def)
  show ?thesis
  proof (cases rests)
    case True
    then have "resting_ok (so_incoming r)" using inc rests by (intro inc_rests) simp_all
    moreover have "o_ID (so_incoming r) \<notin> resting_ids ?b" using inc fresh b(2) by auto
    ultimately obtain b' where b': "AddResting (so_incoming r) ?b = Inr b'" "book_ok b'"
        "resting_ids b' = insert (o_ID inc) (resting_ids ?b)"
        "\<forall>s\<in>sides. priority b' s = (if s = ?s then insert_priority (so_incoming r) (priority ?b s) else priority ?b s)"
      using AddResting_priority [OF b(1)] inc by metis
    have "opposite ?s \<noteq> ?s" "?s \<in> sides" using ok(2) by (auto simp: inc_ok_def opposite_def)
    then have "priority b' (opposite ?s) = so_rest r" "priority b' ?s = insert_priority (so_incoming r) (priority b ?s)"
      using bspec [OF b'(4), of "opposite ?s"] bspec [OF b'(4), of ?s] b by auto
    with True rests drops b' b(2) inc rem st' Match show ?thesis
      by (auto simp: match_end_def Let_def)
  next
    case False
    with rests drops b rem st' Match inc ty show ?thesis
      by (auto simp: match_end_def Let_def)
  qed
qed

end
