(* ===== verification/Order_Services.thy ===== *)
theory Order_Services
  imports Postgres_Repos Match_Correct
begin

text \<open>
  Package \<open>internal/application/orders\<close>: placing and cancelling an order over the API. Each service is
  one transaction over the repositories. Logging and tracing spans have no effect on state or result
  and are left out; the trace strings put into the event come from the environment.
\<close>

section \<open>Events\<close>

definition InjectTraceContext :: "Env \<Rightarrow> StreamEvent \<Rightarrow> ('z World_scheme, StreamEvent) action" where
  "InjectTraceContext env ev w =
     (Inr (ev\<lparr>ev_TraceParent := fst (e_trace env (w_step w)), ev_TraceState := snd (e_trace env (w_step w))\<rparr>), w)"

text \<open>\<open>json.Marshal\<close> and the insert that follows it in both services.\<close>

definition queue_event :: "Env \<Rightarrow> string \<Rightarrow> StreamEvent \<Rightarrow> ('z World_scheme, unit) action" where
  "queue_event env streamName event =
     bind_ok (InjectTraceContext env event) (\<lambda>ev.
       (case e_marshal env ev of
          None \<Rightarrow> return_err MarshalError
        | Some payload \<Rightarrow> OutboxRepo_Insert env streamName payload))"

definition map_error :: "(app_error \<Rightarrow> app_error) \<Rightarrow> ('w, 'a) action \<Rightarrow> ('w, 'a) action" where
  "map_error f act w = (case act w of (Inl e, w') \<Rightarrow> (Inl (f e), w') | (Inr x, w') \<Rightarrow> (Inr x, w'))"

section \<open>Placing an order\<close>

record PlaceOrderInput =
  in_UserID :: uuid
  in_Side :: Side
  in_Type :: OrderType
  in_PriceCents :: "int64 option"
  in_Quantity :: int64

text \<open>\<open>*in.PriceCents > math.MaxInt64/in.Quantity\<close> divides two positive numbers, so \<open>div\<close> is Go's \<open>/\<close>.\<close>

definition validatePlaceOrderInput :: "PlaceOrderInput \<Rightarrow> app_error option" where
  "validatePlaceOrderInput inp =
     (if in_Quantity inp \<le> 0 then Some ErrInvalidQuantity
      else if in_Side inp = SideBuy \<and> in_Type inp = TypeLimit then
        (case in_PriceCents inp of
           None \<Rightarrow> Some ErrInvalidOrderRequest
         | Some p \<Rightarrow> if p \<le> 0 then Some ErrInvalidOrderRequest
                    else if p > MaxInt64 div in_Quantity inp then Some ErrInvalidOrderRequest else None)
      else if in_Side inp = SideSell \<and> in_Type inp = TypeLimit then
        (case in_PriceCents inp of
           None \<Rightarrow> Some ErrInvalidOrderRequest
         | Some p \<Rightarrow> if p \<le> 0 then Some ErrInvalidOrderRequest else None)
      else if in_Side inp = SideSell \<and> in_Type inp = TypeMarket then
        (if in_PriceCents inp \<noteq> None then Some ErrInvalidOrderRequest else None)
      else if in_Side inp = SideBuy \<and> in_Type inp = TypeMarket then
        (if in_PriceCents inp \<noteq> None then Some ErrInvalidOrderRequest else None)
      else Some ErrInvalidOrderRequest)"

definition new_order :: "PlaceOrderInput \<Rightarrow> uuid \<Rightarrow> time \<Rightarrow> Order" where
  "new_order inp i t =
     \<lparr>o_ID = i, o_UserID = in_UserID inp, o_Side = in_Side inp, o_Type = in_Type inp, o_PriceCents = in_PriceCents inp,
      o_Quantity = in_Quantity inp, o_FilledQuantity = 0, o_Status = StatusOpen, o_CreatedAt = t, o_UpdatedAt = t\<rparr>"

text \<open>The switch of lines 157 to 170: what is reserved, every wallet error answered by one service error.\<close>

definition reserve_for :: "PlaceOrderInput \<Rightarrow> Wallet \<Rightarrow> app_error + Wallet" where
  "reserve_for inp w =
     (if in_Side inp = SideBuy \<and> in_Type inp = TypeLimit then
        (case in_PriceCents inp of
           None \<Rightarrow> Inl (Panics NilDereference)
         | Some p \<Rightarrow> (case ReserveBRL (i64_mul p (in_Quantity inp)) w of
                       Inl _ \<Rightarrow> Inl ErrInsufficientBalance | Inr w' \<Rightarrow> Inr w'))
      else if in_Side inp = SideSell then
        (case ReserveVibranium (in_Quantity inp) w of
           Inl _ \<Rightarrow> Inl ErrInsufficientBalance | Inr w' \<Rightarrow> Inr w')
      else Inr w)"

definition new_order_event :: "Order \<Rightarrow> StreamEvent" where
  "new_order_event ord =
     \<lparr>ev_Type = EventTypeNewOrder, ev_OrderID = o_ID ord, ev_UserID = o_UserID ord, ev_Side = o_Side ord,
      ev_OrderType = o_Type ord, ev_PriceCents = o_PriceCents ord, ev_Quantity = o_Quantity ord, ev_RequestedBy = None,
      ev_TraceParent = [], ev_TraceState = []\<rparr>"

definition place_tx :: "Env \<Rightarrow> string \<Rightarrow> PlaceOrderInput \<Rightarrow> ('z World_scheme, Order tx_exit) action" where
  "place_tx env streamName inp =
     bind_ok (map_error (\<lambda>e. if e = PgWalletNotFound then ErrWalletNotFound else e)
                (WalletRepo_GetForUpdate env (in_UserID inp))) (\<lambda>w.
     bind_ok (now env) (\<lambda>t.
     bind_ok (new_uuid env) (\<lambda>i.
       (case reserve_for inp w of
          Inl e \<Rightarrow> return_err e
        | Inr w' \<Rightarrow>
            bind_ok (OrderRepo_Insert env (new_order inp i t)) (\<lambda>_.
            bind_ok (WalletRepo_Update env w') (\<lambda>_.
            bind_ok (queue_event env streamName (new_order_event (new_order inp i t))) (\<lambda>_.
              return_ok (Commits (new_order inp i t)))))))))"

definition Place :: "Env \<Rightarrow> string \<Rightarrow> PlaceOrderInput \<Rightarrow> ('z World_scheme, Order) action" where
  "Place env streamName inp =
     (case validatePlaceOrderInput inp of
        Some e \<Rightarrow> return_err e
      | None \<Rightarrow> bind_ok (UserRepo_Exists env (in_UserID inp)) (\<lambda>exists.
          if \<not> exists then return_err ErrUserNotFound else in_tx env (place_tx env streamName inp)))"

section \<open>Cancelling an order\<close>

record CancelResult =
  cr_OrderID :: uuid
  cr_Status :: Status
  cr_AlreadyTerminal :: bool

definition cancel_event :: "Order \<Rightarrow> uuid \<Rightarrow> StreamEvent" where
  "cancel_event ord requestingUserID =
     \<lparr>ev_Type = EventTypeCancelOrder, ev_OrderID = o_ID ord, ev_UserID = o_UserID ord, ev_Side = SideRaw [],
      ev_OrderType = TypeRaw [], ev_PriceCents = None, ev_Quantity = 0, ev_RequestedBy = Some requestingUserID,
      ev_TraceParent = [], ev_TraceState = []\<rparr>"

definition cancel_tx :: "Env \<Rightarrow> string \<Rightarrow> uuid \<Rightarrow> uuid \<Rightarrow> ('z World_scheme, CancelResult tx_exit) action" where
  "cancel_tx env streamName orderID requestingUserID =
     bind_ok (map_error (\<lambda>e. if e = PgOrderNotFound then ErrOrderNotFound else e) (OrderRepo_GetTx env orderID)) (\<lambda>ord.
       if o_UserID ord \<noteq> requestingUserID then return_err ErrForbidden
       else if IsDone ord then
         return_ok (Leaves \<lparr>cr_OrderID = o_ID ord, cr_Status = o_Status ord, cr_AlreadyTerminal = True\<rparr>)
       else bind_ok (queue_event env streamName (cancel_event ord requestingUserID)) (\<lambda>_.
         return_ok (Commits \<lparr>cr_OrderID = o_ID ord, cr_Status = StatusRaw ''CANCEL_QUEUED'', cr_AlreadyTerminal = False\<rparr>)))"

definition CancelService :: "Env \<Rightarrow> string \<Rightarrow> uuid \<Rightarrow> uuid \<Rightarrow> ('z World_scheme, CancelResult) action" where
  "CancelService env streamName orderID requestingUserID = in_tx env (cancel_tx env streamName orderID requestingUserID)"

section \<open>Queries\<close>

definition GetOrderQuery_Get :: "Env \<Rightarrow> uuid \<Rightarrow> ('z World_scheme, Order) action" where
  "GetOrderQuery_Get env i = OrderRepo_Get env i"

definition GetWalletQuery_Get :: "Env \<Rightarrow> uuid \<Rightarrow> ('z World_scheme, Wallet) action" where
  "GetWalletQuery_Get env userID = WalletRepo_Get env userID"

definition GetUserQuery_Get :: "Env \<Rightarrow> uuid \<Rightarrow> ('z World_scheme, User) action" where
  "GetUserQuery_Get env i = UserRepo_Get env i"

definition ListUsersQuery_List :: "Env \<Rightarrow> ('z World_scheme, User list) action" where
  "ListUsersQuery_List env = UserRepo_List env"

section \<open>Validation\<close>

lemma validate_None:
  "validatePlaceOrderInput inp = None \<longleftrightarrow> 0 < in_Quantity inp \<and>
     (case in_Type inp of
        TypeLimit \<Rightarrow> (\<exists>p. in_PriceCents inp = Some p \<and> 0 < p \<and>
          (in_Side inp = SideBuy \<and> p * in_Quantity inp \<le> MaxInt64 \<or> in_Side inp = SideSell))
      | TypeMarket \<Rightarrow> in_PriceCents inp = None \<and> (in_Side inp = SideBuy \<or> in_Side inp = SideSell)
      | TypeRaw _ \<Rightarrow> False)"
proof -
  have "p > m div q \<longleftrightarrow> p * q > m" if q: "0 < q" for m p q :: int
  proof -
    have "p \<le> m div q" if "p * q \<le> m" using zdiv_mono1 [OF that q] q by simp
    moreover have "p * q \<le> m" if "p \<le> m div q"
    proof -
      have "p * q \<le> m div q * q" using that q by (simp add: mult_right_mono)
      also have "\<dots> \<le> m" using q by (simp add: minus_mod_eq_div_mult [symmetric])
      finally show ?thesis .
    qed
    ultimately show ?thesis by (meson not_less)
  qed
  then show ?thesis
    by (cases "in_Side inp"; cases "in_Type inp")
      (auto simp: validatePlaceOrderInput_def not_less split: option.splits)
qed

lemma new_order_inc_ok:
  assumes "validatePlaceOrderInput inp = None" "in64 (in_Quantity inp)" "\<forall>p. in_PriceCents inp = Some p \<longrightarrow> in64 p"
  shows "inc_ok (new_order inp i t)"
  using assms unfolding validate_None
  by (cases "in_Type inp") (auto simp: inc_ok_def new_order_def order_ok_def in64_def)

section \<open>What a successful call did\<close>

lemma map_error_Inr: "map_error f act w = (Inr x, w') \<longleftrightarrow> act w = (Inr x, w')"
  by (auto simp: map_error_def split: prod.splits sum.splits)

lemma queue_event_Inr:
  "queue_event env sn ev w = (Inr u, w') \<longleftrightarrow>
    (\<exists>p p'. e_marshal env (ev\<lparr>ev_TraceParent := fst (e_trace env (w_step w)), ev_TraceState := snd (e_trace env (w_step w))\<rparr>) = Some p \<and>
       e_jsonb env p = Some p' \<and> e_fault env (w_step w) = Works \<and>
       w' = tick (w\<lparr>w_db := (w_db w)\<lparr>db_outbox := db_outbox (w_db w) @
          [\<lparr>ob_ID = db_outboxSeq (w_db w), ob_StreamName = sn, ob_Payload = p', ob_Published = False\<rparr>],
          db_outboxSeq := db_outboxSeq (w_db w) + 1\<rparr>\<rparr>))"
  by (auto simp: queue_event_def bind_ok_Inr InjectTraceContext_def OutboxRepo_Insert_def statement_Inr split: option.splits)

lemma safe_services [safe_intros]:
  "schema_safe (InjectTraceContext env ev)" "schema_safe act \<Longrightarrow> schema_safe (map_error f act)"
  by (auto simp: schema_safe_def keeps_schema_def seq_grows_def InjectTraceContext_def map_error_def split: prod.split sum.split)
    (metis snd_conv)+

lemma safe_queue_event [safe_intros]: "schema_safe (queue_event env sn ev)"
  unfolding queue_event_def by (intro safe_intros)

lemma safe_place: "schema_safe (Place env sn inp)"
  unfolding Place_def place_tx_def by (intro safe_intros)

lemma safe_cancel: "schema_safe (CancelService env sn i u)"
  unfolding CancelService_def cancel_tx_def by (intro safe_intros)

text \<open>The tables after a placement: one reserved wallet, one new row, one queued event.\<close>

definition placed :: "Env \<Rightarrow> string \<Rightarrow> PlaceOrderInput \<Rightarrow> Order \<Rightarrow> DB \<Rightarrow> DB \<Rightarrow> bool" where
  "placed env sn inp ord d d' \<longleftrightarrow>
     (\<exists>i t. ord = new_order inp i t) \<and>
     (\<exists>wal wal' n p p'. find_row w_UserID (in_UserID inp) (db_wallets d) = Some wal \<and> reserve_for inp wal = Inr wal' \<and>
        e_marshal env ((new_order_event ord)\<lparr>ev_TraceParent := fst (e_trace env n), ev_TraceState := snd (e_trace env n)\<rparr>) = Some p \<and>
        e_jsonb env p = Some p' \<and>
        d' = d\<lparr>db_orders := db_orders d @ [row_of_order ord],
               db_wallets := write_rows w_UserID (in_UserID inp) (\<lambda>_. wal') (db_wallets d),
               db_outbox := db_outbox d @ [\<lparr>ob_ID = db_outboxSeq d, ob_StreamName = sn, ob_Payload = p', ob_Published = False\<rparr>],
               db_outboxSeq := db_outboxSeq d + 1\<rparr>)"

lemma reserve_for_user: "reserve_for inp w = Inr w' \<Longrightarrow> w_UserID w' = w_UserID w"
  by (auto simp: reserve_for_def wallet_defs split: if_splits option.splits sum.splits)

lemma write_wallet_row:
  fixes rows :: "Wallet list"
  assumes "distinct (map w_UserID rows)" "find_row w_UserID u rows = Some wal" "w_UserID wal' = u"
  shows "write_rows w_UserID (w_UserID wal')
      (\<lambda>r. r\<lparr>w_BalanceBRLCents := w_BalanceBRLCents wal', w_ReservedBRLCents := w_ReservedBRLCents wal',
             w_BalanceVibranium := w_BalanceVibranium wal', w_ReservedVibranium := w_ReservedVibranium wal'\<rparr>) rows
    = write_rows w_UserID u (\<lambda>_. wal') rows"
  using assms(3) by (auto simp: write_rows_def intro!: Wallet.equality)

lemma place_tx_Inr:
  assumes "place_tx env sn inp w = (Inr x, w')" "db_ok (w_db w)"
  shows "\<exists>ord. x = Commits ord \<and> placed env sn inp ord (w_db w) (w_db w')"
proof -
  have d: "distinct (map w_UserID (db_wallets (w_db w)))" using assms(2) by (simp add: db_ok_def)
  from assms(1) obtain wal wal' i t u where
      1: "find_row w_UserID (in_UserID inp) (db_wallets (w_db w)) = Some wal" "reserve_for inp wal = Inr wal'"
    and 2: "x = Commits (new_order inp i t)"
    and 3: "queue_event env sn (new_order_event (new_order inp i t)) u = (Inr (), w')"
      "w_db u = (w_db w)\<lparr>db_orders := db_orders (w_db w) @ [row_of_order (new_order inp i t)],
        db_wallets := write_rows w_UserID (w_UserID wal')
          (\<lambda>r. r\<lparr>w_BalanceBRLCents := w_BalanceBRLCents wal', w_ReservedBRLCents := w_ReservedBRLCents wal',
             w_BalanceVibranium := w_BalanceVibranium wal', w_ReservedVibranium := w_ReservedVibranium wal'\<rparr>) (db_wallets (w_db w))\<rparr>"
    unfolding place_tx_def WalletRepo_GetForUpdate_def OrderRepo_Insert_def WalletRepo_Update_def
    by (auto simp: bind_ok_Inr map_error_Inr statement_Inr split: option.splits sum.splits if_splits)
  have u: "w_UserID wal' = in_UserID inp"
    using reserve_for_user [OF 1(2)] 1(1) wallets.lookup_law [OF d] by simp
  let ?ord = "new_order inp i t" and ?tr = "e_trace env (w_step u)"
  obtain p p' where q: "e_marshal env ((new_order_event ?ord)\<lparr>ev_TraceParent := fst ?tr, ev_TraceState := snd ?tr\<rparr>) = Some p"
      "e_jsonb env p = Some p'" "w_db w' = (w_db u)\<lparr>db_outbox := db_outbox (w_db u) @
          [\<lparr>ob_ID = db_outboxSeq (w_db u), ob_StreamName = sn, ob_Payload = p', ob_Published = False\<rparr>],
          db_outboxSeq := db_outboxSeq (w_db u) + 1\<rparr>"
    using 3(1) unfolding queue_event_Inr by auto
  have "placed env sn inp ?ord (w_db w) (w_db w')"
    unfolding placed_def
    using 1 q(1,2) by (intro conjI exI) (assumption | (simp add: q(3) 3(2) write_wallet_row [OF d 1(1) u]))+
  with 2 show ?thesis by blast
qed

lemma Place_cases:
  assumes "Place env sn inp w = (r, w')"
  shows "(validatePlaceOrderInput inp \<noteq> None \<and> r = Inl (the (validatePlaceOrderInput inp)) \<and> w' = w) \<or>
    (validatePlaceOrderInput inp = None \<and> w_db w' = w_db w \<and> (r = Inl PgFault \<or> r = Inl ErrUserNotFound)) \<or>
    (validatePlaceOrderInput inp = None \<and> (\<exists>w1. w_db w1 = w_db w \<and> in_tx env (place_tx env sn inp) w1 = (r, w')))"
  using assms
  by (cases "validatePlaceOrderInput inp")
    (auto simp: Place_def UserRepo_Exists_def statement_def bind_ok_def return_err_def split: if_splits)

text \<open>What the reservation does to a wallet in range.\<close>

definition reserved_wallet :: "PlaceOrderInput \<Rightarrow> Wallet \<Rightarrow> Wallet" where
  "reserved_wallet inp w =
     (case (in_Side inp, in_PriceCents inp) of
        (SideBuy, Some p) \<Rightarrow> w\<lparr>w_BalanceBRLCents := w_BalanceBRLCents w - p * in_Quantity inp,
                              w_ReservedBRLCents := w_ReservedBRLCents w + p * in_Quantity inp\<rparr>
      | (SideBuy, None) \<Rightarrow> w
      | _ \<Rightarrow> w\<lparr>w_BalanceVibranium := w_BalanceVibranium w - in_Quantity inp,
              w_ReservedVibranium := w_ReservedVibranium w + in_Quantity inp\<rparr>)"

lemma reserve_for_eq:
  assumes "validatePlaceOrderInput inp = None" "wallet_ok w" "reserve_for inp w = Inr w'"
  shows "w' = reserved_wallet inp w \<and> wallet_ok w'"
proof (cases "in_Side inp")
  case SideBuy
  show ?thesis
  proof (cases "in_PriceCents inp")
    case None
    with SideBuy assms show ?thesis
      by (auto simp: validate_None reserve_for_def reserved_wallet_def split: OrderType.splits)
  next
    case (Some p)
    then have p: "0 < p" "0 < in_Quantity inp" "p * in_Quantity inp \<le> MaxInt64" "in_Type inp = TypeLimit"
      using assms(1) SideBuy by (auto simp: validate_None split: OrderType.splits)
    then have "i64_mul p (in_Quantity inp) = p * in_Quantity inp" by (simp add: i64_mul_small)
    then have "ReserveBRL (p * in_Quantity inp) w = Inr w'"
      using assms(3) SideBuy Some p by (auto simp: reserve_for_def split: sum.splits)
    moreover from this have "wallet_ok w'" using reserve_brl.keeps_ok [of w _ w'] assms(2) by (simp add: wallet_ok_def)
    ultimately show ?thesis using assms(2) SideBuy Some by (auto simp: ReserveBRL_eq reserved_wallet_def split: if_splits)
  qed
next
  case SideSell
  then have "ReserveVibranium (in_Quantity inp) w = Inr w'"
    using assms(3) by (auto simp: reserve_for_def split: sum.splits)
  moreover from this have "wallet_ok w'" using reserve_vib.keeps_ok [of w _ w'] assms(2) by (simp add: wallet_ok_def)
  ultimately show ?thesis using assms(2) SideSell by (auto simp: ReserveVibranium_eq reserved_wallet_def split: if_splits)
qed (use assms in \<open>auto simp: validate_None split: OrderType.splits\<close>)

section \<open>Properties\<close>

text \<open>
  C24: an accepted order is fully recorded and fully covered: the call validated the request, the buyer's
  cost at the limit price (or the seller's quantity) moved from the balance to the reservation of the
  user's wallet and nothing else of it changed, the order row is new, OPEN and unfilled, exactly one
  NEW_ORDER event with the order's data is queued unpublished, no other table changes, the schema's
  constraints hold, and the order meets the precondition of the matching engine.
\<close>

theorem Place_success:
  assumes "Place env sn inp w = (Inr ord, w')" "db_ok (w_db w)" "\<forall>wal\<in>set (db_wallets (w_db w)). wallet_ok wal"
    and "in64 (in_Quantity inp)" "\<forall>p. in_PriceCents inp = Some p \<longrightarrow> in64 p"
  shows "validatePlaceOrderInput inp = None \<and> inc_ok ord \<and> o_Status ord = StatusOpen \<and> o_FilledQuantity ord = 0 \<and>
    placed env sn inp ord (w_db w) (w_db w') \<and> db_ok (w_db w') \<and>
    (\<exists>wal. find_row w_UserID (in_UserID inp) (db_wallets (w_db w)) = Some wal \<and>
       find_row w_UserID (in_UserID inp) (db_wallets (w_db w')) = Some (reserved_wallet inp wal) \<and>
       wallet_ok (reserved_wallet inp wal))"
proof -
  from Place_cases [OF assms(1)] obtain w1 where v: "validatePlaceOrderInput inp = None"
    and w1: "w_db w1 = w_db w" "in_tx env (place_tx env sn inp) w1 = (Inr ord, w')" by auto
  have ok1: "db_ok (w_db (tick w1))" using assms(2) w1(1) by simp
  from in_tx_ok [OF w1(2)] have p: "placed env sn inp ord (w_db w) (w_db w')"
    using place_tx_Inr [OF _ ok1] w1(1) by (metis tick_simps(1) tx_exit.distinct(1) tx_exit.inject(1))
  then obtain i t where o: "ord = new_order inp i t" by (auto simp: placed_def)
  from p obtain wal wal' where wal: "find_row w_UserID (in_UserID inp) (db_wallets (w_db w)) = Some wal"
      "reserve_for inp wal = Inr wal'"
      "db_wallets (w_db w') = write_rows w_UserID (in_UserID inp) (\<lambda>_. wal') (db_wallets (w_db w))"
    by (auto simp: placed_def)
  have d: "distinct (map w_UserID (db_wallets (w_db w)))" using assms(2) by (simp add: db_ok_def)
  have win: "wal \<in> set (db_wallets (w_db w))" "w_UserID wal = in_UserID inp" using wal(1) wallets.lookup_law [OF d] by auto
  then have r: "wal' = reserved_wallet inp wal" "wallet_ok wal'"
    using reserve_for_eq [OF v _ wal(2)] assms(3) by auto
  have "find_row w_UserID (in_UserID inp) (db_wallets (w_db w')) = Some wal'"
    unfolding wal(3) using wallets.lookup_modify [OF d, of "in_UserID inp" "\<lambda>_. wal'"] wal(1) reserve_for_user [OF wal(2)] win(2)
    by simp
  moreover have "db_ok (w_db w')"
    using safe_place [of env sn inp] assms(1,2) unfolding schema_safe_def keeps_schema_def by (metis snd_conv)
  ultimately show ?thesis
    using v p r wal(1) o new_order_inc_ok [OF v assms(4,5)] by (simp add: new_order_def)
qed

text \<open>
  C25: placing an order is atomic: whatever fails (validation, funds, a statement, a constraint, the event's
  encoding, the commit), an error answer means that no table changed, with one exception: when the
  connection is lost while the commit is acknowledged, the order may be placed in full although the
  caller is told of a failure.
\<close>

theorem Place_atomic:
  assumes "Place env sn inp w = (Inl e, w')" "db_ok (w_db w)"
  shows "same_tables (w_db w) (w_db w') \<or> (e = PgFault \<and> (\<exists>ord. placed env sn inp ord (w_db w) (w_db w')))"
proof -
  from Place_cases [OF assms(1)] consider "w_db w' = w_db w"
    | w1 where "w_db w1 = w_db w" "in_tx env (place_tx env sn inp) w1 = (Inl e, w')" by auto
  then show ?thesis
  proof cases
    case 2
    have ok1: "db_ok (w_db (tick w1))" using assms(2) 2(1) by simp
    from in_tx_error [OF 2(2)] consider "same_tables (w_db w1) (w_db w')"
      | x w2 where "e = PgFault" "place_tx env sn inp (tick w1) = (Inr (Commits x), w2)" "w' = tick w2" by blast
    then show ?thesis
    proof cases
      case (2 x w2)
      from place_tx_Inr [OF 2(2) ok1] show ?thesis using 2(1,3) \<open>w_db w1 = w_db w\<close> by auto
    qed (use 2(1) in simp)
  qed simp
qed

section \<open>A database for the witnesses\<close>

definition quiet_env :: Env where
  "quiet_env = \<lparr>e_fault = (\<lambda>_. Works), e_clock = int, e_uuid = (\<lambda>n. of_nat n), e_locked = (\<lambda>_ _. False), e_scan = (\<lambda>_ rs. rs),
     e_marshal = (\<lambda>ev. Some ''payload''), e_jsonb = Some, e_unmarshal = (\<lambda>_. None), e_trace = (\<lambda>_. ([], []))\<rparr>"

definition sample_db :: DB where
  "sample_db = \<lparr>db_users = [\<lparr>u_ID = 1, u_Username = ''alice'', u_CreatedAt = 0\<rparr>],
     db_wallets = [\<lparr>w_UserID = 1, w_BalanceBRLCents = 10000, w_ReservedBRLCents = 0, w_BalanceVibranium = 50, w_ReservedVibranium = 0\<rparr>],
     db_orders = [row_of_order \<lparr>o_ID = 7, o_UserID = 1, o_Side = SideSell, o_Type = TypeLimit, o_PriceCents = Some 1000,
        o_Quantity = 5, o_FilledQuantity = 0, o_Status = StatusOpen, o_CreatedAt = 0, o_UpdatedAt = 0\<rparr>],
     db_trades = [], db_processed = [], db_outbox = [], db_outboxSeq = 1\<rparr>"

definition sample_world :: World where
  "sample_world = \<lparr>w_db = sample_db, w_step = 10\<rparr>"

definition sample_input :: PlaceOrderInput where
  "sample_input = \<lparr>in_UserID = 1, in_Side = SideBuy, in_Type = TypeLimit, in_PriceCents = Some 1000, in_Quantity = 4\<rparr>"

lemma sample_world_ok: "db_ok (w_db sample_world)" "\<forall>wal\<in>set (db_wallets (w_db sample_world)). wallet_ok wal"
  by (simp_all add: sample_world_def sample_db_def db_ok_def wallet_checks_def order_row_ok_def status_enum_def row_of_order_def
      wallet_ok_def brl_def vib_def MaxInt64_def)

lemma sample_place: "\<exists>ord w'. Place quiet_env ''orders'' sample_input sample_world = (Inr ord, w')"
proof -
  have "\<not> isl (fst (Place quiet_env ''orders'' sample_input sample_world))" by code_simp
  then show ?thesis by (metis isl_def prod.collapse sum.collapse(2))
qed

theorem Place_success_witness:
  "\<exists>ord w'. Place quiet_env ''orders'' sample_input sample_world = (Inr ord, w') \<and> inc_ok ord \<and>
     (\<exists>wal. find_row w_UserID 1 (db_wallets (w_db w')) = Some (reserved_wallet sample_input wal))"
  using sample_place Place_success [of quiet_env "''orders''" sample_input sample_world, OF _ sample_world_ok]
  by (auto simp: sample_input_def in64_def MinInt64_def MaxInt64_def)

theorem Place_atomic_witness:
  "\<exists>e w'. Place quiet_env ''orders'' (sample_input\<lparr>in_Quantity := 11\<rparr>) sample_world = (Inl e, w') \<and> same_tables sample_db (w_db w')"
proof -
  have "fst (Place quiet_env ''orders'' (sample_input\<lparr>in_Quantity := 11\<rparr>) sample_world) = Inl ErrInsufficientBalance" by code_simp
  then obtain w' where p: "Place quiet_env ''orders'' (sample_input\<lparr>in_Quantity := 11\<rparr>) sample_world = (Inl ErrInsufficientBalance, w')"
    by (metis prod.collapse)
  from Place_atomic [OF p sample_world_ok(1)] p show ?thesis by (auto simp: sample_world_def)
qed



end
