(* ===== verification/Go_Text.thy ===== *)
theory Go_Text
  imports OB_Prelude
begin

text \<open>
  The text functions of Go's standard library the program uses, on strings as lists of bytes: decimal
  numbers (\<open>strconv.ParseInt\<close>, \<open>strconv.Atoi\<close>, zero-padded printing), \<open>strings.SplitN\<close> and
  \<open>strings.CutPrefix\<close>, and \<open>base64.URLEncoding\<close>. An error is \<open>None\<close>: the callers ask only whether there was one.
\<close>

section \<open>Decimal digits\<close>

definition digit_char :: "nat \<Rightarrow> char" where
  "digit_char n = char_of (48 + n)"

definition is_digit :: "char \<Rightarrow> bool" where
  "is_digit c \<longleftrightarrow> 48 \<le> (of_char c :: nat) \<and> (of_char c :: nat) \<le> 57"

definition digit_val :: "char \<Rightarrow> nat" where
  "digit_val c = of_char c - 48"

fun digits_val :: "nat \<Rightarrow> string \<Rightarrow> nat" where
  "digits_val acc [] = acc"
| "digits_val acc (c # cs) = digits_val (10 * acc + digit_val c) cs"

text \<open>The last \<open>w\<close> decimal digits, and the printed number with at least \<open>w\<close> digits (\<open>appendInt\<close> of package \<open>time\<close>).\<close>

fun pad_digits :: "nat \<Rightarrow> nat \<Rightarrow> string" where
  "pad_digits 0 n = []"
| "pad_digits (Suc w) n = pad_digits w (n div 10) @ [digit_char (n mod 10)]"

fun print_nat :: "nat \<Rightarrow> string" where
  "print_nat n = (if n < 10 then [digit_char n] else print_nat (n div 10) @ [digit_char (n mod 10)])"

declare print_nat.simps [simp del]

definition append_int :: "nat \<Rightarrow> int \<Rightarrow> string" where
  "append_int w x =
     (let u = nat \<bar>x\<bar>; ds = (if u < 10 ^ w then pad_digits w u else print_nat u)
      in if x < 0 then CHR ''-'' # ds else ds)"

lemma digit_char_props [simp]: "n < 10 \<Longrightarrow> is_digit (digit_char n)" "n < 10 \<Longrightarrow> digit_val (digit_char n) = n"
  by (simp_all add: is_digit_def digit_char_def digit_val_def)

lemma digits_val_append: "digits_val acc (xs @ ys) = digits_val (digits_val acc xs) ys"
  by (induction xs arbitrary: acc) simp_all

lemma pad_digits_length [simp]: "length (pad_digits w n) = w"
  by (induction w arbitrary: n) simp_all

lemma pad_digits_digits: "c \<in> set (pad_digits w n) \<Longrightarrow> is_digit c"
  by (induction w arbitrary: n) auto

lemma pad_digits_val: "digits_val acc (pad_digits w n) = acc * 10 ^ w + n mod 10 ^ w"
proof (induction w arbitrary: acc n)
  case (Suc w)
  have "n mod 10 ^ Suc w = 10 * (n div 10 mod 10 ^ w) + n mod 10"
    by (simp add: mod_mult2_eq)
  then show ?case by (simp add: digits_val_append Suc algebra_simps)
qed simp

lemma print_nat_digits: "c \<in> set (print_nat n) \<Longrightarrow> is_digit c"
proof (induction n rule: print_nat.induct)
  case (1 n)
  then show ?case by (subst (asm) (2) print_nat.simps) (auto split: if_splits)
qed

lemma print_nat_val: "digits_val 0 (print_nat n) = n"
proof (induction n rule: print_nat.induct)
  case (1 n)
  then show ?case by (subst print_nat.simps) (simp add: digits_val_append)
qed

lemma print_nat_nonempty: "print_nat n \<noteq> []"
  by (subst print_nat.simps) simp

section \<open>Integers\<close>

text \<open>\<open>strconv.ParseInt(s, 10, 64)\<close>, also \<open>strconv.Atoi\<close>: a sign, at least one digit, nothing else, and in range.\<close>

definition unsigned_part :: "string \<Rightarrow> nat option" where
  "unsigned_part s = (if s \<noteq> [] \<and> list_all is_digit s then Some (digits_val 0 s) else None)"

definition ParseInt :: "string \<Rightarrow> int64 option" where
  "ParseInt s =
     (case s of
        CHR ''-'' # r \<Rightarrow> (case unsigned_part r of Some u \<Rightarrow> if u \<le> 2 ^ 63 then Some (- int u) else None | None \<Rightarrow> None)
      | CHR ''+'' # r \<Rightarrow> (case unsigned_part r of Some u \<Rightarrow> if u < 2 ^ 63 then Some (int u) else None | None \<Rightarrow> None)
      | _ \<Rightarrow> (case unsigned_part s of Some u \<Rightarrow> if u < 2 ^ 63 then Some (int u) else None | None \<Rightarrow> None))"

definition FormatInt :: "int64 \<Rightarrow> string" where
  "FormatInt n = (if n < 0 then CHR ''-'' # print_nat (nat (- n)) else print_nat (nat n))"

lemma unsigned_print: "unsigned_part (print_nat n) = Some n"
  by (simp add: unsigned_part_def print_nat_nonempty print_nat_val list_all_iff print_nat_digits)

lemma ParseInt_range: "ParseInt s = Some n \<Longrightarrow> in64 n"
  by (auto simp: ParseInt_def in64_def MinInt64_def MaxInt64_def split: list.splits char.splits bool.splits option.splits if_splits)

lemma is_digit_not_sign: "is_digit c \<Longrightarrow> c \<noteq> CHR ''-'' \<and> c \<noteq> CHR ''+''"
  by (auto simp: is_digit_def)

lemma ParseInt_unsigned:
  assumes "s \<noteq> []" "is_digit (hd s)"
  shows "ParseInt s = (case unsigned_part s of Some u \<Rightarrow> if u < 2 ^ 63 then Some (int u) else None | None \<Rightarrow> None)"
  using assms is_digit_not_sign [of "hd s"]
  by (cases s) (auto simp: ParseInt_def split: char.splits bool.splits)

lemma ParseInt_FormatInt:
  assumes "in64 n"
  shows "ParseInt (FormatInt n) = Some n"
proof (cases "n < 0")
  case True
  then show ?thesis using assms by (auto simp: FormatInt_def ParseInt_def unsigned_print in64_def MinInt64_def)
next
  case False
  have "is_digit (hd (print_nat (nat n)))" by (metis hd_in_set print_nat_digits print_nat_nonempty)
  then show ?thesis
    using False assms by (auto simp: FormatInt_def ParseInt_unsigned print_nat_nonempty unsigned_print in64_def MaxInt64_def)
qed

section \<open>Splitting\<close>

definition SplitN2 :: "char \<Rightarrow> string \<Rightarrow> string list" where
  "SplitN2 sep s = (if sep \<in> set s then [takeWhile (\<lambda>c. c \<noteq> sep) s, tl (dropWhile (\<lambda>c. c \<noteq> sep) s)] else [s])"

lemma SplitN2_first: "sep \<notin> set a \<Longrightarrow> SplitN2 sep (a @ sep # b) = [a, b]"
proof -
  assume "sep \<notin> set a"
  then have "takeWhile (\<lambda>c. c \<noteq> sep) (a @ sep # b) = a" "dropWhile (\<lambda>c. c \<noteq> sep) (a @ sep # b) = sep # b"
    by (induction a) auto
  then show ?thesis by (simp add: SplitN2_def)
qed

definition CutPrefix :: "string \<Rightarrow> string \<Rightarrow> string \<times> bool" where
  "CutPrefix s p = (if take (length p) s = p then (drop (length p) s, True) else (s, False))"

section \<open>Base64\<close>

definition b64_char :: "nat \<Rightarrow> char" where
  "b64_char n = (if n < 26 then char_of (65 + n) else if n < 52 then char_of (71 + n)
     else if n < 62 then char_of (n - 4) else if n = 62 then CHR ''-'' else CHR ''_'')"

definition b64_val :: "char \<Rightarrow> nat option" where
  "b64_val c = (let n = of_char c in
     if 65 \<le> n \<and> n \<le> 90 then Some (n - 65) else if 97 \<le> n \<and> n \<le> 122 then Some (n - 71)
     else if 48 \<le> n \<and> n \<le> 57 then Some (n + 4) else if n = 45 then Some 62 else if n = 95 then Some 63 else None)"

fun EncodeToString :: "string \<Rightarrow> string" where
  "EncodeToString [] = []"
| "EncodeToString [a] = (let x = of_char a in [b64_char (x div 4), b64_char (x mod 4 * 16), CHR ''='', CHR ''=''])"
| "EncodeToString [a, b] = (let x = of_char a; y = of_char b in
     [b64_char (x div 4), b64_char (x mod 4 * 16 + y div 16), b64_char (y mod 16 * 4), CHR ''=''])"
| "EncodeToString (a # b # c # rest) = (let x = of_char a; y = of_char b; z = of_char c in
     [b64_char (x div 4), b64_char (x mod 4 * 16 + y div 16), b64_char (y mod 16 * 4 + z div 64), b64_char (z mod 64)]
     @ EncodeToString rest)"

definition byte1 :: "nat \<Rightarrow> nat \<Rightarrow> char" where
  "byte1 p q = char_of (p * 4 + q div 16)"

definition byte2 :: "nat \<Rightarrow> nat \<Rightarrow> char" where
  "byte2 q r = char_of (q mod 16 * 16 + r div 4)"

definition byte3 :: "nat \<Rightarrow> nat \<Rightarrow> char" where
  "byte3 r s = char_of (r mod 4 * 64 + s)"

text \<open>Groups of four; padding only in the last; left-over bits of a padded group are ignored.\<close>

fun decode_quanta :: "string \<Rightarrow> string option" where
  "decode_quanta [] = Some []"
| "decode_quanta (a # b # c # d # rest) =
     (case (b64_val a, b64_val b) of
        (Some p, Some q) \<Rightarrow>
          (if rest = [] \<and> c = CHR ''='' \<and> d = CHR ''='' then Some [byte1 p q]
           else (case b64_val c of
              None \<Rightarrow> None
            | Some r \<Rightarrow>
                (if rest = [] \<and> d = CHR ''='' then Some [byte1 p q, byte2 q r]
                 else (case (b64_val d, decode_quanta rest) of
                    (Some s, Some out) \<Rightarrow> Some (byte1 p q # byte2 q r # byte3 r s # out)
                  | _ \<Rightarrow> None))))
      | _ \<Rightarrow> None)"
| "decode_quanta _ = None"

text \<open>Line breaks are skipped.\<close>

definition DecodeString :: "string \<Rightarrow> string option" where
  "DecodeString s = decode_quanta (filter (\<lambda>c. (of_char c :: nat) \<noteq> 10 \<and> (of_char c :: nat) \<noteq> 13) s)"

lemma b64_val_char: "n < 64 \<Longrightarrow> b64_val (b64_char n) = Some n"
  by (auto simp: b64_val_def b64_char_def Let_def)

lemma b64_pad: "b64_val (CHR ''='') = None"
  by (simp add: b64_val_def)

lemma b64_char_pad: "n < 64 \<Longrightarrow> b64_char n \<noteq> CHR ''=''"
  using b64_val_char [of n] b64_pad by auto

lemma byte_bound: "(of_char c :: nat) < 256"
  by (rule nat_of_char_less_256)

lemma b64_bounds:
  fixes x y z :: nat
  assumes "x < 256" "y < 256" "z < 256"
  shows "x div 4 < 64" "x mod 4 * 16 < 64" "x mod 4 * 16 + y div 16 < 64" "y mod 16 * 4 < 64"
    "y mod 16 * 4 + z div 64 < 64" "z mod 64 < 64"
proof -
  have "x mod 4 < 4" "y mod 16 < 16" "y div 16 < 16" "z div 64 < 4" "x div 4 < 64" using assms by auto
  then show "x div 4 < 64" "x mod 4 * 16 < 64" "x mod 4 * 16 + y div 16 < 64" "y mod 16 * 4 < 64"
    "y mod 16 * 4 + z div 64 < 64" "z mod 64 < 64" by linarith+
qed

lemma b64_bytes:
  fixes x y z :: nat
  assumes "x < 256" "y < 256" "z < 256"
  shows "byte1 (x div 4) (x mod 4 * 16) = char_of x" "byte1 (x div 4) (x mod 4 * 16 + y div 16) = char_of x"
    "byte2 (x mod 4 * 16 + y div 16) (y mod 16 * 4) = char_of y"
    "byte2 (x mod 4 * 16 + y div 16) (y mod 16 * 4 + z div 64) = char_of y"
    "byte3 (y mod 16 * 4 + z div 64) (z mod 64) = char_of z"
proof -
  have "y div 16 < 16" "z div 64 < 4" using assms by auto
  then have "(x mod 4 * 16 + y div 16) div 16 = x mod 4" "(x mod 4 * 16 + y div 16) mod 16 = y div 16"
    "(y mod 16 * 4 + z div 64) div 4 = y mod 16" "(y mod 16 * 4 + z div 64) mod 4 = z div 64" by simp_all
  then show "byte1 (x div 4) (x mod 4 * 16) = char_of x" "byte1 (x div 4) (x mod 4 * 16 + y div 16) = char_of x"
    "byte2 (x mod 4 * 16 + y div 16) (y mod 16 * 4) = char_of y"
    "byte2 (x mod 4 * 16 + y div 16) (y mod 16 * 4 + z div 64) = char_of y"
    "byte3 (y mod 16 * 4 + z div 64) (z mod 64) = char_of z"
    unfolding byte1_def byte2_def byte3_def by simp_all
qed

lemma decode_encode: "decode_quanta (EncodeToString s) = Some s"
proof (induction s rule: EncodeToString.induct)
  case (2 a)
  note b = byte_bound [of a]
  show ?case by (simp add: Let_def b64_val_char b64_bounds [OF b b b] b64_bytes [OF b b b])
next
  case (3 a b)
  note x = byte_bound [of a] and y = byte_bound [of b]
  show ?case
    by (simp add: Let_def b64_val_char b64_bounds [OF x y y] b64_bytes [OF x y y] b64_char_pad)
next
  case (4 a b c rest)
  note x = byte_bound [of a] and y = byte_bound [of b] and z = byte_bound [of c]
  show ?case
    by (simp add: Let_def b64_val_char b64_bounds [OF x y z] b64_bytes [OF x y z] b64_char_pad 4)
qed simp

lemma encode_no_breaks: "c \<in> set (EncodeToString s) \<Longrightarrow> (of_char c :: nat) \<noteq> 10 \<and> (of_char c :: nat) \<noteq> 13"
proof -
  have "(of_char (b64_char n) :: nat) \<noteq> 10 \<and> (of_char (b64_char n) :: nat) \<noteq> 13" for n
    by (auto simp: b64_char_def)
  then show "c \<in> set (EncodeToString s) \<Longrightarrow> ?thesis"
    by (induction s rule: EncodeToString.induct) (auto simp: Let_def)
qed

lemma base64_roundtrip: "DecodeString (EncodeToString s) = Some s"
  using encode_no_breaks [of _ s] by (simp add: DecodeString_def decode_encode cong: filter_cong)

lemma encode_empty: "EncodeToString s = [] \<longleftrightarrow> s = []"
  by (cases s rule: EncodeToString.cases) (simp_all add: Let_def)

end
