(* ===== verification/Go_Time.thy ===== *)
theory Go_Time
  imports Go_Text "HOL-Library.Monad_Syntax"
begin

text \<open>
  Package \<open>time\<close> as the trade cursor uses it: \<open>Format(time.RFC3339Nano)\<close> and \<open>Parse(time.RFC3339Nano, s)\<close>. A
  \<open>time\<close> counts nanoseconds from 1970-01-01 UTC; the offset of its location, in minutes east, is an argument of
  \<open>Format\<close>. \<open>Parse\<close> follows the general parser, which accepts a one-digit hour, a comma for the point, and
  offsets of up to 24 hours and 60 minutes.
\<close>

section \<open>The calendar\<close>

definition leap :: "int \<Rightarrow> bool" where
  "leap y \<longleftrightarrow> y mod 4 = 0 \<and> (y mod 100 \<noteq> 0 \<or> y mod 400 = 0)"

definition days_in :: "int \<Rightarrow> int \<Rightarrow> int" where
  "days_in m y = (if m = 2 then (if leap y then 29 else 28) else if m \<in> {4, 6, 9, 11} then 30 else 31)"

text \<open>Years are counted from March, so that a leap day is the last of its year.\<close>

definition day_number :: "int \<Rightarrow> int \<Rightarrow> int \<Rightarrow> int" where
  "day_number y m d =
     (let y' = (if m \<le> 2 then y - 1 else y); mp = (if m > 2 then m - 3 else m + 9); yoe = y' mod 400
      in y' div 400 * 146097 + (365 * yoe + yoe div 4 - yoe div 100 + (153 * mp + 2) div 5 + d - 1) - 719468)"

definition march_year :: "int \<Rightarrow> int \<times> int" where
  "march_year doe =
     (let c = min 3 (doe div 36524); r = doe - c * 36524; q = r div 1461; s = r - q * 1461; a = min 3 (s div 365)
      in (100 * c + 4 * q + a, s - a * 365))"

definition civil_of_days :: "int \<Rightarrow> int \<times> int \<times> int" where
  "civil_of_days z =
     (let n = z + 719468; (yoe, doy) = march_year (n mod 146097); mp = (5 * doy + 2) div 153; m = (if mp < 10 then mp + 3 else mp - 9)
      in ((n div 146097) * 400 + yoe + (if m \<le> 2 then 1 else 0), m, doy - (153 * mp + 2) div 5 + 1))"

lemma div_bounds: "0 < k \<Longrightarrow> k * (n div k) \<le> n" "0 < k \<Longrightarrow> n < k * (n div k) + k" for k n :: int
  using pos_mod_sign [of k n] pos_mod_bound [of k n] mult_div_mod_eq [of k n] by linarith+

lemma div_eqI: "k * q \<le> n \<Longrightarrow> n < k * q + k \<Longrightarrow> n div k = q" for k q n :: int
  by (rule int_div_pos_eq [of n k q "n - k * q"]) simp_all

lemma march_year_ok:
  assumes "0 \<le> doe" "doe < 146097" "march_year doe = (yoe, doy)"
  shows "0 \<le> yoe" "yoe < 400" "0 \<le> doy" "doy \<le> 365" "365 * yoe + yoe div 4 - yoe div 100 + doy = doe"
    "doy = 365 \<longrightarrow> leap (yoe + 1)"
proof -
  define c where "c = min 3 (doe div 36524)"
  define r where "r = doe - c * 36524"
  define q where "q = r div 1461"
  define s where "s = r - q * 1461"
  define a where "a = min 3 (s div 365)"
  have y: "yoe = 100 * c + 4 * q + a" "doy = s - a * 365"
    using assms(3) by (simp_all add: march_year_def Let_def c_def r_def q_def s_def a_def)
  have c: "0 \<le> c" "c \<le> 3" "0 \<le> r" "r \<le> 36524" "c < 3 \<Longrightarrow> r < 36524"
    using assms(1,2) div_bounds [of 36524 doe] unfolding c_def r_def min_def by (simp_all split: if_splits)
  have q: "0 \<le> q" "q \<le> 24" "0 \<le> s" "s \<le> 1460"
    using c(3,4) div_bounds [of 1461 r] unfolding q_def s_def by linarith+
  have a: "0 \<le> a" "a \<le> 3" "0 \<le> s - a * 365" "s - a * 365 \<le> 365" "s - a * 365 = 365 \<Longrightarrow> a = 3"
    using q(3,4) div_bounds [of 365 s] unfolding a_def min_def by (simp_all split: if_splits)
  show "0 \<le> yoe" "yoe < 400" "0 \<le> doy" "doy \<le> 365" using y c q a by linarith+
  have "yoe div 4 = 25 * c + q" by (rule div_eqI) (use y(1) a(1,2) in \<open>simp_all add: algebra_simps\<close>)
  moreover have "yoe div 100 = c" by (rule div_eqI) (use y(1) q(1,2) a(1,2) in simp_all)
  ultimately show "365 * yoe + yoe div 4 - yoe div 100 + doy = doe" using y by (simp add: s_def r_def)
  show "doy = 365 \<longrightarrow> leap (yoe + 1)"
  proof
    assume "doy = 365"
    then have a3: "a = 3" "s = 1460" using y(2) a(5) by simp_all
    then have y4: "yoe + 1 = 100 * c + 4 * (q + 1)" using y by simp
    show "leap (yoe + 1)"
    proof (cases "q = 24")
      case True
      then have "r = 36524" using a3(2) by (simp add: s_def)
      then have "c = 3" using c(2,5) by linarith
      then show ?thesis using y4 True by (simp add: leap_def)
    next
      case False
      then have "(100 * c + 4 * (q + 1)) mod 100 = 4 * (q + 1)" using q(1,2) by (simp add: mod_pos_pos_trivial)
      moreover have "(100 * c + 4 * (q + 1)) mod 4 = 0" by presburger
      ultimately show ?thesis using q(1) unfolding y4 leap_def by simp
    qed
  qed
qed

text \<open>The twelve months from March on, checked one by one.\<close>

lemma month_numbers: "0 \<le> m \<Longrightarrow> m \<le> 11 \<Longrightarrow> m = 0 \<or> m = 1 \<or> m = 2 \<or> m = 3 \<or> m = 4 \<or> m = 5 \<or> m = 6 \<or> m = 7 \<or> m = 8 \<or> m = 9 \<or>
    m = 10 \<or> m = 11" for m :: int
  by presburger

lemma month_of_day:
  fixes doy mp :: int
  assumes "0 \<le> doy" "doy \<le> 365" "mp = (5 * doy + 2) div 153"
  shows "0 \<le> mp" "mp \<le> 11" "0 \<le> doy - (153 * mp + 2) div 5"
    "mp \<noteq> 11 \<Longrightarrow> doy - (153 * mp + 2) div 5 < (if mp \<in> {1, 3, 6, 8} then 30 else 31)"
    "mp = 11 \<Longrightarrow> doy - (153 * mp + 2) div 5 = doy - 337"
proof -
  have b: "153 * mp \<le> 5 * doy + 2" "5 * doy + 2 < 153 * mp + 153" using div_bounds [of 153 "5 * doy + 2"] assms(3) by simp_all
  then show mp: "0 \<le> mp" "mp \<le> 11" using assms(1,2) by linarith+
  then consider "mp = 0" | "mp = 1" | "mp = 2" | "mp = 3" | "mp = 4" | "mp = 5" | "mp = 6" | "mp = 7" | "mp = 8" | "mp = 9"
    | "mp = 10" | "mp = 11" by (metis month_numbers)
  then have "0 \<le> doy - (153 * mp + 2) div 5 \<and> (mp \<noteq> 11 \<longrightarrow> doy - (153 * mp + 2) div 5 < (if mp \<in> {1, 3, 6, 8} then 30 else 31))"
    by cases (use b in simp_all)
  then show "0 \<le> doy - (153 * mp + 2) div 5"
    "mp \<noteq> 11 \<Longrightarrow> doy - (153 * mp + 2) div 5 < (if mp \<in> {1, 3, 6, 8} then 30 else 31)" by blast+
  show "mp = 11 \<Longrightarrow> doy - (153 * mp + 2) div 5 = doy - 337" by simp
qed

lemma month_length:
  assumes "0 \<le> mp" "mp \<le> 11" "mp \<noteq> 11"
  shows "days_in (if mp < 10 then mp + 3 else mp - 9) y = (if mp \<in> {1, 3, 6, 8} then 30 else 31)"
  using month_numbers [OF assms(1,2)] assms(3) by (elim disjE) (simp_all add: days_in_def)

lemma leap_shift: "leap (400 * e + y) \<longleftrightarrow> leap y"
proof -
  have "(400 * e + y) mod 4 = y mod 4" "(400 * e + y) mod 100 = y mod 100" "(400 * e + y) mod 400 = y mod 400"
    using mod_mult_self4 [of 4 "100 * e" y] mod_mult_self4 [of 100 "4 * e" y] by simp_all
  then show ?thesis by (simp add: leap_def)
qed

text \<open>Every day has a valid date, and the date determines the day.\<close>

lemma civil_of_days_ok:
  assumes "civil_of_days z = (y, m, d)"
  shows "1 \<le> m" "m \<le> 12" "1 \<le> d" "d \<le> days_in m y" "day_number y m d = z"
proof -
  define n where "n = z + 719468"
  define era where "era = n div 146097"
  obtain yoe doy where my: "march_year (n mod 146097) = (yoe, doy)" by fastforce
  define mp where "mp = (5 * doy + 2) div 153"
  have doe: "0 \<le> n mod 146097" "n mod 146097 < 146097" by simp_all
  note r = march_year_ok [OF doe my]
  note mo = month_of_day [OF r(3,4) mp_def]
  have civil: "civil_of_days z = (let m = (if mp < 10 then mp + 3 else mp - 9)
      in (era * 400 + yoe + (if m \<le> 2 then 1 else 0), m, doy - (153 * mp + 2) div 5 + 1))"
    unfolding civil_of_days_def n_def [symmetric] Let_def my prod.case era_def mp_def ..
  have e: "m = (if mp < 10 then mp + 3 else mp - 9)" "y = era * 400 + yoe + (if m \<le> 2 then 1 else 0)"
      "d = doy - (153 * mp + 2) div 5 + 1"
  proof -
    let ?m = "if mp < 10 then mp + 3 else mp - 9"
    have "(era * 400 + yoe + (if ?m \<le> 2 then 1 else 0), ?m, doy - (153 * mp + 2) div 5 + 1) = (y, m, d)"
      using assms unfolding civil Let_def .
    then have "?m = m" and p: "era * 400 + yoe + (if ?m \<le> 2 then 1 else 0) = y" "doy - (153 * mp + 2) div 5 + 1 = d"
      unfolding prod.inject by blast+
    show "m = ?m" using \<open>?m = m\<close> by (rule sym)
    show "y = era * 400 + yoe + (if m \<le> 2 then 1 else 0)" using p(1) unfolding \<open>?m = m\<close> by (rule sym)
    show "d = doy - (153 * mp + 2) div 5 + 1" using p(2) by (rule sym)
  qed
  show "1 \<le> m" "m \<le> 12" "1 \<le> d" using e(1,3) mo(1-3) by (simp_all split: if_splits)
  show "d \<le> days_in m y"
  proof (cases "mp = 11")
    case True
    then have m2: "m = 2" "y = 400 * era + (yoe + 1)" using e(1,2) by simp_all
    have l: "leap y \<longleftrightarrow> leap (yoe + 1)" unfolding m2 by (rule leap_shift)
    have "d \<le> 29" "d = 29 \<Longrightarrow> leap y" using r(4,6) l e(3) mo(5) [OF True] by simp_all
    then show ?thesis using m2(1) by (cases "d = 29") (simp_all add: days_in_def)
  next
    case False
    have "days_in m y = (if mp \<in> {1, 3, 6, 8} then 30 else 31)" unfolding e(1) by (rule month_length [OF mo(1,2) False])
    then show ?thesis using mo(4) [OF False] e(3) by linarith
  qed
  have y': "(if m \<le> 2 then y - 1 else y) = era * 400 + yoe" "(if m > 2 then m - 3 else m + 9) = mp"
    using e(1,2) mo(1,2) by (simp_all split: if_splits)
  have era: "(era * 400 + yoe) div 400 = era" by (rule div_eqI) (use r(1,2) in simp_all)
  have mod: "(era * 400 + yoe) mod 400 = yoe" using r(1,2) by simp
  have "era * 146097 + n mod 146097 = n" unfolding era_def by (rule div_mult_mod_eq)
  then show "day_number y m d = z" unfolding day_number_def Let_def y' era mod using e(3) n_def r(5) by linarith
qed

section \<open>Format\<close>

definition second_ns :: int where
  "second_ns = 1000000000"

definition trim_zeros :: "string \<Rightarrow> string" where
  "trim_zeros ds = rev (dropWhile (\<lambda>c. c = CHR ''0'') (rev ds))"

definition frac_part :: "int \<Rightarrow> string" where
  "frac_part ns = (if ns = 0 then [] else CHR ''.'' # trim_zeros (pad_digits 9 (nat ns)))"

definition zone_part :: "int \<Rightarrow> string" where
  "zone_part off =
     (if off = 0 then ''Z''
      else (if off < 0 then CHR ''-'' else CHR ''+'') # append_int 2 (\<bar>off\<bar> div 60) @ '':'' @ append_int 2 (\<bar>off\<bar> mod 60))"

definition local_civil :: "int \<Rightarrow> time \<Rightarrow> int \<times> int \<times> int" where
  "local_civil off t = civil_of_days ((t + off * 60 * second_ns) div second_ns div 86400)"

definition FormatRFC3339Nano :: "int \<Rightarrow> time \<Rightarrow> string" where
  "FormatRFC3339Nano off t =
     (let l = t + off * 60 * second_ns; sod = l div second_ns mod 86400; (y, m, d) = local_civil off t
      in append_int 4 y @ ''-'' @ append_int 2 m @ ''-'' @ append_int 2 d @ ''T'' @ append_int 2 (sod div 3600) @ '':'' @
         append_int 2 (sod div 60 mod 60) @ '':'' @ append_int 2 (sod mod 60) @ frac_part (l mod second_ns) @ zone_part off)"

section \<open>Parse\<close>

definition expect :: "char \<Rightarrow> string \<Rightarrow> string option" where
  "expect c s = (case s of x # r \<Rightarrow> if x = c then Some r else None | [] \<Rightarrow> None)"

text \<open>\<open>getnum(s, true)\<close>, \<open>getnum(s, false)\<close> and the four digits of a year.\<close>

definition getnum2 :: "string \<Rightarrow> (int \<times> string) option" where
  "getnum2 s = (case s of a # b # r \<Rightarrow> if is_digit a \<and> is_digit b then Some (int (digits_val 0 [a, b]), r) else None | _ \<Rightarrow> None)"

definition getnum :: "string \<Rightarrow> (int \<times> string) option" where
  "getnum s = (case s of
      a # r \<Rightarrow> if is_digit a then (case getnum2 s of Some x \<Rightarrow> Some x | None \<Rightarrow> Some (int (digit_val a), r)) else None
    | [] \<Rightarrow> None)"

definition get_year :: "string \<Rightarrow> (int \<times> string) option" where
  "get_year s = (if length s \<ge> 4 \<and> list_all is_digit (take 4 s) then Some (int (digits_val 0 (take 4 s)), drop 4 s) else None)"

definition get_frac :: "string \<Rightarrow> int \<times> string" where
  "get_frac s = (case s of
      x # y # _ \<Rightarrow>
        if (x = CHR ''.'' \<or> x = CHR '','') \<and> is_digit y
        then (let ds = take 9 (takeWhile is_digit (tl s))
              in (int (digits_val 0 ds) * 10 ^ (9 - length ds), dropWhile is_digit (tl s)))
        else (0, s)
    | _ \<Rightarrow> (0, s))"

definition get_zone :: "string \<Rightarrow> (int \<times> string) option" where
  "get_zone s = (case s of
      [] \<Rightarrow> None
    | x # r \<Rightarrow>
        if x = CHR ''Z'' then Some (0, r)
        else if x = CHR ''+'' \<or> x = CHR ''-'' then
          do { (hr, r) \<leftarrow> getnum2 r; r \<leftarrow> expect CHR '':'' r; (mm, r) \<leftarrow> getnum2 r;
               if hr > 24 \<or> mm > 60 then None else Some ((if x = CHR ''-'' then -1 else 1) * (hr * 60 + mm), r) }
        else None)"

definition ParseRFC3339Nano :: "string \<Rightarrow> time option" where
  "ParseRFC3339Nano s =
     do { (y, s) \<leftarrow> get_year s; s \<leftarrow> expect CHR ''-'' s; (m, s) \<leftarrow> getnum2 s; s \<leftarrow> expect CHR ''-'' s; (d, s) \<leftarrow> getnum2 s;
          s \<leftarrow> expect CHR ''T'' s; (hh, s) \<leftarrow> getnum s; s \<leftarrow> expect CHR '':'' s; (mi, s) \<leftarrow> getnum2 s; s \<leftarrow> expect CHR '':'' s;
          (se, s) \<leftarrow> getnum2 s; (let (ns, s) = get_frac s in do {
          (off, s) \<leftarrow> get_zone s;
          if s = [] \<and> 1 \<le> m \<and> m \<le> 12 \<and> 1 \<le> d \<and> d \<le> days_in m y \<and> hh < 24 \<and> mi < 60 \<and> se < 60
          then Some ((day_number y m d * 86400 + hh * 3600 + mi * 60 + se) * second_ns + ns - off * 60 * second_ns)
          else None }) }"

section \<open>Round trip\<close>

lemma expect_hit [simp]: "expect c (c # r) = Some r"
  by (simp add: expect_def)

lemma append_int_pad: "0 \<le> x \<Longrightarrow> x < 10 ^ w \<Longrightarrow> append_int w x = pad_digits w (nat x)"
  by (simp add: append_int_def Let_def nat_less_iff)

lemma getnum2_pad: "0 \<le> x \<Longrightarrow> x < 100 \<Longrightarrow> getnum2 (append_int 2 x @ r) = Some (x, r)"
proof -
  assume x: "0 \<le> x" "x < 100"
  obtain a b where ab: "append_int 2 x = [a, b]"
    using append_int_pad [of x 2] x by (simp add: numeral_2_eq_2)
  then have "pad_digits 2 (nat x) = [a, b]" using append_int_pad [of x 2] x by simp
  then have "is_digit a" "is_digit b" "digits_val 0 [a, b] = nat x mod 100"
    using pad_digits_digits [of _ 2 "nat x"] pad_digits_val [of 0 2 "nat x"] by auto
  then show ?thesis using x by (simp add: getnum2_def ab nat_less_iff)
qed

lemma getnum_pad: "0 \<le> x \<Longrightarrow> x < 100 \<Longrightarrow> getnum (append_int 2 x @ r) = Some (x, r)"
proof -
  assume x: "0 \<le> x" "x < 100"
  have g: "getnum2 (append_int 2 x @ r) = Some (x, r)" using getnum2_pad x .
  then obtain a q where "append_int 2 x @ r = a # q" "is_digit a"
    by (auto simp: getnum2_def split: list.splits if_splits)
  with g show ?thesis by (simp add: getnum_def)
qed

lemma get_year_pad: "0 \<le> x \<Longrightarrow> x < 10000 \<Longrightarrow> get_year (append_int 4 x @ r) = Some (x, r)"
  using append_int_pad [of x 4] pad_digits_digits [of _ 4 "nat x"] pad_digits_val [of 0 4 "nat x"]
  by (simp add: get_year_def list_all_iff nat_less_iff)

lemma digits_val_zeros: "digits_val acc (replicate k CHR ''0'') = acc * 10 ^ k"
  by (induction k arbitrary: acc) (simp_all add: digit_val_def algebra_simps)

lemma trim_zeros_split: "\<exists>k. ds = trim_zeros ds @ replicate k CHR ''0''"
proof -
  have "rev ds = takeWhile (\<lambda>c. c = CHR ''0'') (rev ds) @ dropWhile (\<lambda>c. c = CHR ''0'') (rev ds)" by simp
  moreover have "takeWhile (\<lambda>c. c = CHR ''0'') (rev ds) = replicate (length (takeWhile (\<lambda>c. c = CHR ''0'') (rev ds))) CHR ''0''"
    by (rule replicate_eqI) (auto dest: set_takeWhileD)
  ultimately have "ds = trim_zeros ds @ rev (replicate (length (takeWhile (\<lambda>c. c = CHR ''0'') (rev ds))) CHR ''0'')"
    unfolding trim_zeros_def by (metis rev_append rev_rev_ident)
  then show ?thesis by (metis rev_replicate)
qed

text \<open>What may follow the seconds: a zone.\<close>

definition zone_start :: "string \<Rightarrow> bool" where
  "zone_start z \<longleftrightarrow> (\<exists>c r. z = c # r \<and> c \<in> {CHR ''Z'', CHR ''+'', CHR ''-''})"

lemma zone_part_start: "zone_start (zone_part off)"
  by (auto simp: zone_start_def zone_part_def)

lemma zone_not_digit: "\<not> is_digit CHR ''Z''" "\<not> is_digit CHR ''+''" "\<not> is_digit CHR ''-''" "\<not> is_digit CHR ''|''"
  by (simp_all add: is_digit_def)

lemma zone_startD: "zone_start z \<Longrightarrow> \<exists>c r. z = c # r \<and> \<not> is_digit c"
  using zone_not_digit unfolding zone_start_def by blast

lemma get_frac_dot:
  assumes "t \<noteq> []" "\<forall>c\<in>set t. is_digit c" "length t \<le> 9" "zone_start z"
  shows "get_frac (CHR ''.'' # t @ z) = (int (digits_val 0 t) * 10 ^ (9 - length t), z)"
proof -
  obtain y t' where y: "t = y # t'" "is_digit y" using assms(1,2) by (cases t) auto
  obtain c r where z: "z = c # r" "\<not> is_digit c" using zone_startD [OF assms(4)] by blast
  have tw: "takeWhile is_digit (t @ z) = t" "dropWhile is_digit (t @ z) = z" "take 9 t = t"
    using assms(2,3) z by (simp_all add: takeWhile_append dropWhile_append)
  have "get_frac (CHR ''.'' # t @ z) =
      (let ds = take 9 (takeWhile is_digit (t @ z)) in (int (digits_val 0 ds) * 10 ^ (9 - length ds), dropWhile is_digit (t @ z)))"
    using y(2) unfolding y(1) get_frac_def append_Cons list.case list.sel by (simp only: simp_thms if_True)
  then show ?thesis unfolding tw Let_def .
qed

lemma get_frac_print:
  assumes "0 \<le> ns" "ns < second_ns" "zone_start z"
  shows "get_frac (frac_part ns @ z) = (ns, z)"
proof (cases "ns = 0")
  case True
  then show ?thesis using assms(3) by (auto simp: zone_start_def frac_part_def get_frac_def split: list.splits)
next
  case False
  define ds where "ds = pad_digits 9 (nat ns)"
  obtain k where k: "ds = trim_zeros ds @ replicate k CHR ''0''" using trim_zeros_split by blast
  define t where "t = trim_zeros ds"
  have ds: "ds = t @ replicate k CHR ''0''" using k unfolding t_def [symmetric] .
  have v: "digits_val 0 ds = nat ns" using assms(1,2) pad_digits_val [of 0 9 "nat ns"] by (simp add: second_ns_def nat_less_iff ds_def)
  have len: "length t + k = 9" using pad_digits_length [of 9 "nat ns"] ds_def ds by (metis length_append length_replicate)
  have val: "digits_val 0 t * 10 ^ k = nat ns" using v unfolding ds digits_val_append digits_val_zeros .
  have dig: "\<forall>c\<in>set t. is_digit c" using ds ds_def pad_digits_digits by (metis Un_iff set_append)
  have "t \<noteq> []" using val False assms(1) by auto
  from get_frac_dot [OF this dig _ assms(3)] len
  have "get_frac (CHR ''.'' # t @ z) = (int (digits_val 0 t) * 10 ^ k, z)" by (metis add_diff_cancel_left' le_add1)
  also have "int (digits_val 0 t) * 10 ^ k = ns" using arg_cong [OF val, of int] assms(1) by simp
  finally show ?thesis using False by (simp add: frac_part_def t_def ds_def)
qed

lemma get_zone_print:
  assumes "\<bar>off\<bar> \<le> 24 * 60"
  shows "get_zone (zone_part off) = Some (off, [])"
proof (cases "off = 0")
  case False
  have b: "0 \<le> \<bar>off\<bar> div 60" "\<bar>off\<bar> div 60 \<le> 24" "0 \<le> \<bar>off\<bar> mod 60" "\<bar>off\<bar> mod 60 < 60"
    using assms zdiv_mono1 [OF assms, of 60] by simp_all
  have "getnum2 (append_int 2 (\<bar>off\<bar> div 60) @ CHR '':'' # append_int 2 (\<bar>off\<bar> mod 60)) = Some (\<bar>off\<bar> div 60, CHR '':'' # append_int 2 (\<bar>off\<bar> mod 60))"
    using b by (simp add: getnum2_pad)
  moreover have "getnum2 (append_int 2 (\<bar>off\<bar> mod 60)) = Some (\<bar>off\<bar> mod 60, [])"
    using getnum2_pad [of "\<bar>off\<bar> mod 60" "[]"] b by simp
  moreover have "\<bar>off\<bar> div 60 * 60 + \<bar>off\<bar> mod 60 = \<bar>off\<bar>" by simp
  ultimately show ?thesis using False b by (cases "off < 0") (simp_all add: get_zone_def zone_part_def)
qed (simp add: get_zone_def zone_part_def)

lemma parse_format:
  assumes "0 \<le> fst (local_civil off t)" "fst (local_civil off t) \<le> 9999" "\<bar>off\<bar> \<le> 24 * 60"
  shows "ParseRFC3339Nano (FormatRFC3339Nano off t) = Some t"
proof -
  define l where "l = t + off * 60 * second_ns"
  define sod where "sod = l div second_ns mod 86400"
  obtain y m d where c: "local_civil off t = (y, m, d)" by (cases "local_civil off t") auto
  then have c': "civil_of_days (l div second_ns div 86400) = (y, m, d)" by (simp add: local_civil_def l_def)
  note ok = civil_of_days_ok [OF c']
  have dm: "d < 100" using ok(4) by (simp add: days_in_def split: if_splits)
  have sod: "0 \<le> sod" "sod < 86400" by (simp_all add: sod_def)
  have parts: "0 \<le> sod div 3600" "sod div 3600 < 24" "0 \<le> sod div 60 mod 60" "sod div 60 mod 60 < 60" "0 \<le> sod mod 60" "sod mod 60 < 60"
    using sod div_bounds [of 3600 sod] by (simp_all add: pos_imp_zdiv_nonneg_iff)
  have "sod div 3600 = sod div 60 div 60" by (simp add: zdiv_zmult2_eq [symmetric])
  then have "sod div 3600 * 3600 + sod div 60 mod 60 * 60 + sod mod 60 = sod"
    using mult_div_mod_eq [of 60 sod] mult_div_mod_eq [of 60 "sod div 60"] by linarith
  then have secs: "day_number y m d * 86400 + sod div 3600 * 3600 + sod div 60 mod 60 * 60 + sod mod 60 = l div second_ns"
    using ok(5) div_mult_mod_eq [of "l div second_ns" 86400] unfolding sod_def by linarith
  have total: "l div second_ns * second_ns + l mod second_ns - off * 60 * second_ns = t"
    unfolding div_mult_mod_eq l_def by simp
  have ns: "0 \<le> l mod second_ns" "l mod second_ns < second_ns" by (simp_all add: second_ns_def)
  have f: "FormatRFC3339Nano off t = append_int 4 y @ CHR ''-'' # append_int 2 m @ CHR ''-'' # append_int 2 d @ CHR ''T'' #
      append_int 2 (sod div 3600) @ CHR '':'' # append_int 2 (sod div 60 mod 60) @ CHR '':'' # append_int 2 (sod mod 60) @
      frac_part (l mod second_ns) @ zone_part off"
    unfolding FormatRFC3339Nano_def Let_def l_def [symmetric] sod_def [symmetric] c by simp
  have rng: "0 \<le> y" "y < 10000" "0 \<le> m" "m < 100" "0 \<le> d" "d < 100" "sod div 3600 < 100" "sod div 60 mod 60 < 100" "sod mod 60 < 100"
    using assms(1,2) c ok(1-3) dm parts by simp_all
  show ?thesis
    unfolding f ParseRFC3339Nano_def get_year_pad [OF rng(1,2)] getnum2_pad [OF rng(3,4)] getnum2_pad [OF rng(5,6)]
      getnum_pad [OF parts(1) rng(7)] getnum2_pad [OF parts(3) rng(8)] getnum2_pad [OF parts(5) rng(9)]
      get_frac_print [OF ns zone_part_start] get_zone_print [OF assms(3)] expect_hit Option.bind.simps prod.case Let_def
    unfolding getnum2_pad [OF rng(3,4)] getnum2_pad [OF rng(5,6)]
      getnum_pad [OF parts(1) rng(7)] getnum2_pad [OF parts(3) rng(8)] getnum2_pad [OF parts(5) rng(9)]
      get_frac_print [OF ns zone_part_start] get_zone_print [OF assms(3)] expect_hit Option.bind.simps prod.case
    using ok(1-4) parts secs total by simp
qed

lemma format_no_bar: "CHR ''|'' \<notin> set (FormatRFC3339Nano off t)"
proof -
  note bar = pad_digits_digits [of "CHR ''|''"] print_nat_digits [of "CHR ''|''"] zone_not_digit(4)
  have int: "CHR ''|'' \<notin> set (append_int w x)" for w x
    using bar by (auto simp: append_int_def Let_def split: if_splits)
  have "CHR ''|'' \<notin> set (frac_part ns)" for ns
    using bar by (auto simp: frac_part_def trim_zeros_def dest!: set_dropWhileD)
  with int show ?thesis by (auto simp: FormatRFC3339Nano_def zone_part_def Let_def split: prod.splits)
qed

end
