(* ===== verification/Trade_Listing.thy ===== *)
theory Trade_Listing
  imports Postgres_Repos Go_Time "HOL-Library.Product_Lexorder"
begin

text \<open>
  \<open>ListPaginated\<close> of \<open>trade_repo.go\<close> and the query \<open>ListTrades\<close>: keyset pagination of trades, newest first, with
  an opaque cursor. The package \<open>google/uuid\<close> is a parameter, as is the location of the times the driver
  returns, of which only the offset matters. Postgres keeps microseconds: an argument of finer resolution
  is cut.
\<close>

section \<open>Parameters and data\<close>

record TEnv =
  te_env :: Env
  te_uuidString :: "uuid \<Rightarrow> string"
  te_uuidParse :: "string \<Rightarrow> uuid option"
  te_zone :: "time \<Rightarrow> int"

record TradeFilter =
  tf_UserID :: "uuid option"
  tf_OrderID :: "uuid option"
  tf_Limit :: int64
  tf_Cursor :: string

section \<open>The cursor\<close>

definition encodeTradeCursor :: "TEnv \<Rightarrow> time \<Rightarrow> uuid \<Rightarrow> string" where
  "encodeTradeCursor tenv executedAt i =
     EncodeToString (FormatRFC3339Nano (te_zone tenv executedAt) executedAt @ ''|'' @ te_uuidString tenv i)"

definition decodeTradeCursor :: "TEnv \<Rightarrow> string \<Rightarrow> (time \<times> uuid) option" where
  "decodeTradeCursor tenv cursor =
     (case DecodeString cursor of
        None \<Rightarrow> None
      | Some raw \<Rightarrow>
          (case SplitN2 CHR ''|'' raw of
             [p0, p1] \<Rightarrow>
               (case ParseRFC3339Nano p0 of
                  None \<Rightarrow> None
                | Some executedAt \<Rightarrow> (case te_uuidParse tenv p1 of None \<Rightarrow> None | Some i \<Rightarrow> Some (executedAt, i)))
           | _ \<Rightarrow> None))"

section \<open>The query\<close>

definition pg_timestamp :: "time \<Rightarrow> time" where
  "pg_timestamp t = t - t mod 1000"

definition trade_key :: "Trade \<Rightarrow> time \<times> uuid" where
  "trade_key t = (t_ExecutedAt t, t_ID t)"

text \<open>The \<open>WHERE\<close> clause, condition by condition, and \<open>ORDER BY executed_at DESC, id DESC\<close>.\<close>

definition trade_where :: "TradeFilter \<Rightarrow> (time \<times> uuid) option \<Rightarrow> Trade \<Rightarrow> bool" where
  "trade_where f bound t \<longleftrightarrow>
     (case tf_UserID f of None \<Rightarrow> True | Some u \<Rightarrow> t_BuyerUserID t = u \<or> t_SellerUserID t = u) \<and>
     (case tf_OrderID f of None \<Rightarrow> True | Some i \<Rightarrow> t_BuyOrderID t = i \<or> t_SellOrderID t = i) \<and>
     (case bound of None \<Rightarrow> True | Some (e, i) \<Rightarrow> trade_key t < (pg_timestamp e, i))"

definition select_trades :: "TradeFilter \<Rightarrow> (time \<times> uuid) option \<Rightarrow> DB \<Rightarrow> Trade list" where
  "select_trades f bound d = rev (sort_key trade_key (filter (trade_where f bound) (db_trades d)))"

text \<open>The loop that turns rows into trades.\<close>

fun trades_of_rows :: "Trade list \<Rightarrow> trade_error + Trade list" where
  "trades_of_rows [] = Inr []"
| "trades_of_rows (r # rs) =
     (case New_Trade (t_ID r) (t_BuyOrderID r) (t_SellOrderID r) (t_BuyerUserID r) (t_SellerUserID r)
             (t_PriceCents r) (t_Quantity r) (t_ExecutedAt r) of
        Inl e \<Rightarrow> Inl e
      | Inr t \<Rightarrow> (case trades_of_rows rs of Inl e \<Rightarrow> Inl e | Inr ts \<Rightarrow> Inr (t # ts)))"

definition page_limit :: "TradeFilter \<Rightarrow> nat" where
  "page_limit f = nat (if tf_Limit f \<le> 0 \<or> tf_Limit f > 200 then 50 else tf_Limit f)"

definition list_page :: "TEnv \<Rightarrow> TradeFilter \<Rightarrow> (time \<times> uuid) option \<Rightarrow> ('z World_scheme, Trade list \<times> string) action" where
  "list_page tenv f bound =
     bind_ok (statement (te_env tenv) (\<lambda>_ d. Inr (take (page_limit f + 1) (select_trades f bound d), d))) (\<lambda>rows.
       let hasMore = page_limit f < length rows;
           rows' = (if hasMore then take (page_limit f) rows else rows)
       in (case trades_of_rows rows' of
             Inl e \<Rightarrow> return_err (TradeErr e)
           | Inr out \<Rightarrow>
               return_ok (out, if hasMore \<and> out \<noteq> [] then encodeTradeCursor tenv (t_ExecutedAt (last out)) (t_ID (last out)) else [])))"

definition ListPaginated :: "TEnv \<Rightarrow> TradeFilter \<Rightarrow> ('z World_scheme, Trade list \<times> string) action" where
  "ListPaginated tenv f =
     (if tf_Cursor f \<noteq> [] then
        (case decodeTradeCursor tenv (tf_Cursor f) of
           None \<Rightarrow> return_err PgInvalidCursor
         | Some bound \<Rightarrow> list_page tenv f (Some bound))
      else list_page tenv f None)"

definition ListTradesQuery_List :: "TEnv \<Rightarrow> TradeFilter \<Rightarrow> ('z World_scheme, Trade list \<times> string) action" where
  "ListTradesQuery_List tenv f = ListPaginated tenv f"

section \<open>Cursors\<close>

text \<open>
  What is relied on: \<open>uuid.Parse\<close> reads what \<open>String\<close> prints; a location is at most a day off UTC; a
  representable time has a year of four digits.
\<close>

definition uuid_lib_ok :: "TEnv \<Rightarrow> bool" where
  "uuid_lib_ok tenv \<longleftrightarrow> (\<forall>i. te_uuidParse tenv (te_uuidString tenv i) = Some i)"

definition time_ok :: "TEnv \<Rightarrow> time \<Rightarrow> bool" where
  "time_ok tenv t \<longleftrightarrow> \<bar>te_zone tenv t\<bar> \<le> 24 * 60 \<and> 0 \<le> fst (local_civil (te_zone tenv t) t) \<and> fst (local_civil (te_zone tenv t) t) \<le> 9999"

lemma decode_cursor:
  assumes "te_uuidParse tenv (te_uuidString tenv i) = Some i" "time_ok tenv t"
  shows "decodeTradeCursor tenv (encodeTradeCursor tenv t i) = Some (t, i)"
  using assms parse_format [of "te_zone tenv t" t]
  by (simp add: decodeTradeCursor_def encodeTradeCursor_def base64_roundtrip SplitN2_first format_no_bar time_ok_def)

lemma cursor_nonempty: "encodeTradeCursor tenv t i \<noteq> []"
  by (simp add: encodeTradeCursor_def encode_empty)

section \<open>Pages\<close>

lemma trades_of_rows_ok: "\<forall>t\<in>set rs. trade_ok t \<Longrightarrow> trades_of_rows rs = Inr rs"
  by (induction rs) (simp_all add: New_Trade_def trade_ok_def)

lemma select_bound:
  "select_trades f (Some (e, i)) d = filter (\<lambda>t. trade_key t < (pg_timestamp e, i)) (select_trades f None d)"
proof -
  have "filter (trade_where f (Some (e, i))) (db_trades d) =
      filter (\<lambda>t. trade_key t < (pg_timestamp e, i)) (filter (trade_where f None) (db_trades d))"
    by (auto simp: trade_where_def intro: filter_cong)
  then show ?thesis unfolding select_trades_def rev_filter [symmetric] filter_sort by simp
qed

lemma select_sorted:
  assumes "distinct (map t_ID (db_trades d))"
  shows "sorted_wrt (\<lambda>s t. trade_key t < trade_key s) (select_trades f bound d)"
proof -
  let ?rows = "filter (trade_where f bound) (db_trades d)"
  have "distinct (map t_ID ?rows)" using assms by (simp add: distinct_map_filter)
  moreover have "map t_ID ?rows = map snd (map trade_key ?rows)" by (simp add: trade_key_def comp_def)
  ultimately have "distinct (map trade_key ?rows)" by (metis distinct_map)
  then have "distinct (map trade_key (sort_key trade_key ?rows))"
    using mset_eq_imp_distinct_iff [of "map trade_key (sort_key trade_key ?rows)" "map trade_key ?rows"] by simp
  then have "sorted_wrt (<) (map trade_key (sort_key trade_key ?rows))" by (simp add: strict_sorted_iff)
  then show ?thesis by (simp add: select_trades_def sorted_wrt_rev sorted_wrt_map)
qed

text \<open>Below the key of a row lie exactly the rows after it.\<close>

lemma filter_below:
  assumes "sorted_wrt (\<lambda>s t. trade_key t < trade_key s) (ps @ x # qs)"
  shows "filter (\<lambda>t. trade_key t < trade_key x) (ps @ x # qs) = qs"
proof -
  have "\<forall>t\<in>set ps. \<not> trade_key t < trade_key x" "\<forall>t\<in>set qs. trade_key t < trade_key x"
    using assms by (auto simp: sorted_wrt_append)
  then show ?thesis by (simp add: filter_empty_conv)
qed

lemma page_limit_bounds: "0 < page_limit f" "page_limit f \<le> 200"
  by (auto simp: page_limit_def)

lemma select_cursor [simp]: "select_trades (f\<lparr>tf_Cursor := c\<rparr>) bound d = select_trades f bound d" "page_limit (f\<lparr>tf_Cursor := c\<rparr>) = page_limit f"
  by (simp_all add: select_trades_def trade_where_def page_limit_def cong: filter_cong)

definition next_cursor :: "TEnv \<Rightarrow> nat \<Rightarrow> Trade list \<Rightarrow> string" where
  "next_cursor tenv n rest =
     (if n < length rest then encodeTradeCursor tenv (t_ExecutedAt (last (take n rest))) (t_ID (last (take n rest))) else [])"

lemma list_page_works:
  assumes "e_fault (te_env tenv) (w_step w) = Works" "\<forall>t\<in>set (select_trades f bound (w_db w)). trade_ok t"
  shows "list_page tenv f bound w =
    (Inr (take (page_limit f) (select_trades f bound (w_db w)), next_cursor tenv (page_limit f) (select_trades f bound (w_db w))), tick w)"
proof -
  define rest where "rest = select_trades f bound (w_db w)"
  have more: "page_limit f < length (take (page_limit f + 1) rest) \<longleftrightarrow> page_limit f < length rest" by auto
  have rows: "(if page_limit f < length rest then take (page_limit f) (take (page_limit f + 1) rest) else take (page_limit f + 1) rest)
      = take (page_limit f) rest" by (simp add: min_def)
  have ok: "trades_of_rows (take (page_limit f) rest) = Inr (take (page_limit f) rest)"
    using assms(2) by (intro trades_of_rows_ok) (auto simp: rest_def dest: in_set_takeD)
  have ne: "page_limit f < length rest \<Longrightarrow> take (page_limit f) rest \<noteq> []" using page_limit_bounds(1) [of f] by auto
  have st: "statement (te_env tenv) (\<lambda>_ d. Inr (take (page_limit f + 1) (select_trades f bound d), d)) w =
      (Inr (take (page_limit f + 1) rest), tick w)"
    using assms(1) by (simp add: statement_def rest_def)
  have "list_page tenv f bound w = (Inr (take (page_limit f) rest, next_cursor tenv (page_limit f) rest), tick w)"
    unfolding list_page_def bind_ok_def st prod.case sum.case Let_def more rows ok return_ok_def next_cursor_def using ne by simp
  then show ?thesis by (simp add: rest_def)
qed

text \<open>A client that follows the cursors until there is none, for at most \<open>n\<close> pages.\<close>

fun follow_pages :: "nat \<Rightarrow> TEnv \<Rightarrow> TradeFilter \<Rightarrow> 'z World_scheme \<Rightarrow> (app_error + Trade list) option" where
  "follow_pages 0 tenv f w = None"
| "follow_pages (Suc n) tenv f w =
     (case ListPaginated tenv f w of
        (Inl e, w') \<Rightarrow> Some (Inl e)
      | (Inr (ts, nxt), w') \<Rightarrow>
          if nxt = [] then Some (Inr ts)
          else (case follow_pages n tenv (f\<lparr>tf_Cursor := nxt\<rparr>) w' of
                  Some (Inr us) \<Rightarrow> Some (Inr (ts @ us))
                | other \<Rightarrow> other))"

text \<open>The rows a cursor leaves to be read.\<close>

definition rest_of :: "TEnv \<Rightarrow> TradeFilter \<Rightarrow> DB \<Rightarrow> string \<Rightarrow> Trade list option" where
  "rest_of tenv f d c =
     (if c = [] then Some (select_trades f None d)
      else (case decodeTradeCursor tenv c of None \<Rightarrow> None | Some b \<Rightarrow> Some (select_trades f (Some b) d)))"

lemma ListPaginated_rest:
  assumes "e_fault (te_env tenv) (w_step w) = Works" "\<forall>t\<in>set (db_trades (w_db w)). trade_ok t" "rest_of tenv f (w_db w) c = Some rest"
  shows "ListPaginated tenv (f\<lparr>tf_Cursor := c\<rparr>) w = (Inr (take (page_limit f) rest, next_cursor tenv (page_limit f) rest), tick w)"
proof -
  have "\<forall>t\<in>set (select_trades f b (w_db w)). trade_ok t" for b using assms(2) by (auto simp: select_trades_def)
  then show ?thesis
    using assms(3) list_page_works [OF assms(1), of "f\<lparr>tf_Cursor := c\<rparr>"] 
    by (auto simp: ListPaginated_def rest_of_def split: option.splits if_splits)
qed

text \<open>What the trades of a table must satisfy for the cursor to be exact.\<close>

definition trades_ok :: "TEnv \<Rightarrow> DB \<Rightarrow> bool" where
  "trades_ok tenv d \<longleftrightarrow> distinct (map t_ID (db_trades d)) \<and>
     (\<forall>t\<in>set (db_trades d). trade_ok t \<and> time_ok tenv (t_ExecutedAt t) \<and> t_ExecutedAt t mod 1000 = 0)"

lemma next_cursor_rest:
  assumes "uuid_lib_ok tenv" "trades_ok tenv d" "select_trades f None d = ps @ rest" "0 < n" "n < length rest"
  shows "rest_of tenv f d (next_cursor tenv n rest) = Some (drop n rest) \<and> next_cursor tenv n rest \<noteq> []"
proof -
  define x where "x = last (take n rest)"
  have tk: "take n rest = butlast (take n rest) @ [x]" using assms(4,5) unfolding x_def by (intro append_butlast_last_id [symmetric]) auto
  then have split: "rest = butlast (take n rest) @ x # drop n rest" by (metis append.assoc append_Cons append_Nil append_take_drop_id)
  have full: "select_trades f None d = (ps @ butlast (take n rest)) @ x # drop n rest" using assms(3) split by simp
  then have "x \<in> set (select_trades f None d)" by simp
  then have "x \<in> set (db_trades d)" by (auto simp: select_trades_def)
  then have x: "time_ok tenv (t_ExecutedAt x)" "pg_timestamp (t_ExecutedAt x) = t_ExecutedAt x"
    using assms(2) by (auto simp: trades_ok_def pg_timestamp_def)
  have dec: "decodeTradeCursor tenv (encodeTradeCursor tenv (t_ExecutedAt x) (t_ID x)) = Some (t_ExecutedAt x, t_ID x)"
    using assms(1) x(1) by (intro decode_cursor) (simp_all add: uuid_lib_ok_def)
  have "distinct (map t_ID (db_trades d))" using assms(2) by (simp add: trades_ok_def)
  note sorted = select_sorted [OF this, of f None]
  have "select_trades f (Some (t_ExecutedAt x, t_ID x)) d = drop n rest"
    unfolding select_bound x(2) full using filter_below [OF sorted [unfolded full]] by (simp add: trade_key_def)
  then show ?thesis using assms(5) dec cursor_nonempty by (simp add: next_cursor_def rest_of_def x_def)
qed

lemma follow_rest:
  assumes "uuid_lib_ok tenv" "trades_ok tenv d" "\<And>n. e_fault (te_env tenv) n = Works"
  shows "w_db w = d \<Longrightarrow> rest_of tenv f d c = Some rest \<Longrightarrow> select_trades f None d = ps @ rest \<Longrightarrow> length rest < n \<Longrightarrow>
    follow_pages n tenv (f\<lparr>tf_Cursor := c\<rparr>) w = Some (Inr rest)"
proof (induction n arbitrary: w c rest ps)
  case (Suc n)
  have ok: "\<forall>t\<in>set (db_trades (w_db w)). trade_ok t" using assms(2) Suc.prems(1) by (simp add: trades_ok_def)
  have page: "ListPaginated tenv (f\<lparr>tf_Cursor := c\<rparr>) w = (Inr (take (page_limit f) rest, next_cursor tenv (page_limit f) rest), tick w)"
    using ListPaginated_rest [OF assms(3) ok] Suc.prems(1,2) by blast
  show ?case
  proof (cases "page_limit f < length rest")
    case True
    note nx = next_cursor_rest [OF assms(1,2) Suc.prems(3) page_limit_bounds(1) True]
    have "select_trades f None d = (ps @ take (page_limit f) rest) @ drop (page_limit f) rest" using Suc.prems(3) by simp
    moreover have "length (drop (page_limit f) rest) < n" using Suc.prems(4) True page_limit_bounds(1) [of f] by simp
    ultimately have "follow_pages n tenv (f\<lparr>tf_Cursor := next_cursor tenv (page_limit f) rest\<rparr>) (tick w) = Some (Inr (drop (page_limit f) rest))"
      using Suc.IH [of "tick w"] nx Suc.prems(1) by (metis tick_simps(1))
    then show ?thesis using page nx by simp
  next
    case False
    then show ?thesis using page by (simp add: next_cursor_def)
  qed
qed simp

section \<open>Properties\<close>

text \<open>
  C33: a cursor survives the trip through the client: decoding what \<open>encodeTradeCursor\<close> produced gives back the time,
  to the nanosecond and in any location, and the id; base64, the separator, the calendar and the
  fraction of a second included.
\<close>

theorem cursor_roundtrip:
  assumes "te_uuidParse tenv (te_uuidString tenv i) = Some i" "\<bar>te_zone tenv t\<bar> \<le> 24 * 60"
    and "0 \<le> fst (local_civil (te_zone tenv t) t)" "fst (local_civil (te_zone tenv t) t) \<le> 9999"
  shows "decodeTradeCursor tenv (encodeTradeCursor tenv t i) = Some (t, i)"
  using decode_cursor assms by (simp add: time_ok_def)

text \<open>
  C15: following the cursors from the first page reads every trade that matches the filter exactly once, newest
  first, for any page size: the concatenated pages equal the full sorted selection, and the cursors run
  out after at most one page per trade and one.
\<close>

theorem pagination_complete:
  assumes "uuid_lib_ok tenv" "trades_ok tenv (w_db w)" "\<And>n. e_fault (te_env tenv) n = Works" "tf_Cursor f = []"
  shows "follow_pages (Suc (length (select_trades f None (w_db w)))) tenv f w = Some (Inr (select_trades f None (w_db w)))"
proof -
  have "f\<lparr>tf_Cursor := []\<rparr> = f" using assms(4) by simp
  with follow_rest [OF assms(1-3), of w f "[]" "select_trades f None (w_db w)" "[]"] show ?thesis
    by (simp add: rest_of_def del: follow_pages.simps)
qed

text \<open>
  A page never holds more than 200 trades (50 when the limit is missing or out of range), only rows of the
  table that match the filter, strictly newest first; the table is not touched.
\<close>

theorem page_shape:
  assumes "ListPaginated tenv f w = (Inr (ts, nxt), w')" "distinct (map t_ID (db_trades (w_db w)))"
  shows "length ts \<le> (if 0 < tf_Limit f \<and> tf_Limit f \<le> 200 then nat (tf_Limit f) else 50) \<and>
    (\<forall>t\<in>set ts. t \<in> set (db_trades (w_db w)) \<and> trade_where f None t) \<and>
    sorted_wrt (\<lambda>s t. trade_key t < trade_key s) ts \<and> w_db w' = w_db w"
proof -
  have rows: "trades_of_rows rs = Inr us \<Longrightarrow> us = rs" for rs us
    by (induction rs arbitrary: us) (auto simp: New_Trade_def split: if_splits sum.splits)
  from assms(1) obtain bound where p: "list_page tenv f bound w = (Inr (ts, nxt), w')"
    by (auto simp: ListPaginated_def return_err_def split: if_splits option.splits)
  then have ts: "ts = take (page_limit f) (select_trades f bound (w_db w))" and db: "w_db w' = w_db w"
    by (auto simp: list_page_def bind_ok_Inr statement_Inr Let_def split: sum.splits if_splits dest!: rows)
  have "length ts \<le> page_limit f" using ts by simp
  moreover have "t \<in> set (db_trades (w_db w)) \<and> trade_where f None t" if "t \<in> set ts" for t
    using that unfolding ts select_trades_def by (auto dest!: in_set_takeD simp: trade_where_def)
  moreover have "sorted_wrt (\<lambda>s t. trade_key t < trade_key s) ts" unfolding ts by (rule sorted_wrt_take [OF select_sorted [OF assms(2)]])
  ultimately show ?thesis using db by (auto simp: page_limit_def split: if_splits)
qed

section \<open>Witnesses\<close>

definition listing_env :: TEnv where
  "listing_env = \<lparr>te_env = \<lparr>e_fault = (\<lambda>_. Works), e_clock = int, e_uuid = of_nat, e_locked = (\<lambda>_ _. False), e_scan = (\<lambda>_ rs. rs),
       e_marshal = (\<lambda>_. None), e_jsonb = Some, e_unmarshal = (\<lambda>_. None), e_trace = (\<lambda>_. ([], []))\<rparr>,
     te_uuidString = (\<lambda>i. print_nat (unat i)), te_uuidParse = (\<lambda>s. Some (of_nat (digits_val 0 s))), te_zone = (\<lambda>_. - 180)\<rparr>"

text \<open>Three trades, the last two at the same instant, 2025-06-01T12:00:00.25-03:00 and a second earlier.\<close>

definition listing_trade :: "uuid \<Rightarrow> time \<Rightarrow> Trade" where
  "listing_trade i t = \<lparr>t_ID = i, t_BuyOrderID = 1, t_SellOrderID = 2, t_BuyerUserID = 1, t_SellerUserID = 2,
     t_PriceCents = 1000, t_Quantity = 5, t_ExecutedAt = t\<rparr>"

definition listing_world :: World where
  "listing_world = \<lparr>w_db = \<lparr>db_users = [], db_wallets = [], db_orders = [],
       db_trades = [listing_trade 7 1748790000250000000, listing_trade 9 1748790000250000000, listing_trade 8 1748789999000000000],
       db_processed = [], db_outbox = [], db_outboxSeq = 1\<rparr>, w_step = 0\<rparr>"

definition listing_filter :: TradeFilter where
  "listing_filter = \<lparr>tf_UserID = Some 1, tf_OrderID = None, tf_Limit = 2, tf_Cursor = []\<rparr>"

lemma listing_uuid: "te_uuidParse listing_env (te_uuidString listing_env i) = Some i"
  by (simp add: listing_env_def print_nat_val)

lemma listing_times:
  "fst (local_civil (te_zone listing_env t) t) = 2025 \<and> t mod 1000 = 0" if "t \<in> {1748790000250000000, 1748789999000000000}" for t
proof -
  have "fst (local_civil (- 180) 1748790000250000000) = 2025" "fst (local_civil (- 180) 1748789999000000000) = 2025" by code_simp+
  then show ?thesis using that by (auto simp: listing_env_def)
qed

lemma listing_trades_ok: "trades_ok listing_env (w_db listing_world)"
proof -
  have "\<bar>te_zone listing_env t\<bar> \<le> 24 * 60" for t by (simp add: listing_env_def)
  then show ?thesis using listing_times
    by (simp add: trades_ok_def listing_world_def listing_trade_def trade_ok_def time_ok_def)
qed

theorem cursor_roundtrip_witness:
  "decodeTradeCursor listing_env (encodeTradeCursor listing_env 1748790000250000000 7) = Some (1748790000250000000, 7)"
  using cursor_roundtrip [OF listing_uuid, of 1748790000250000000 7] listing_times [of 1748790000250000000]
  by (simp add: listing_env_def)

theorem pagination_complete_witness:
  "follow_pages (Suc (length (select_trades listing_filter None (w_db listing_world)))) listing_env listing_filter listing_world =
     Some (Inr [listing_trade 9 1748790000250000000, listing_trade 7 1748790000250000000, listing_trade 8 1748789999000000000])"
proof -
  have "select_trades listing_filter None (w_db listing_world) =
      [listing_trade 9 1748790000250000000, listing_trade 7 1748790000250000000, listing_trade 8 1748789999000000000]"
    by code_simp
  moreover have "uuid_lib_ok listing_env" by (simp add: uuid_lib_ok_def listing_uuid)
  moreover have "e_fault (te_env listing_env) n = Works" "tf_Cursor listing_filter = []" for n
    by (simp_all add: listing_env_def listing_filter_def)
  ultimately show ?thesis
    using pagination_complete [of listing_env listing_world listing_filter, OF _ listing_trades_ok] by (simp del: follow_pages.simps)
qed

theorem page_shape_witness:
  "\<exists>ts nxt w'. ListPaginated listing_env listing_filter listing_world = (Inr (ts, nxt), w') \<and> length ts \<le> 2"
proof -
  have "e_fault (te_env listing_env) (w_step listing_world) = Works" "\<forall>t\<in>set (db_trades (w_db listing_world)). trade_ok t"
    using listing_trades_ok by (simp_all add: listing_env_def trades_ok_def)
  from ListPaginated_rest [OF this, of listing_filter "[]"] obtain ts nxt w' where
    p: "ListPaginated listing_env listing_filter listing_world = (Inr (ts, nxt), w')"
    by (auto simp: rest_of_def listing_filter_def)
  from page_shape [OF p] listing_trades_ok p show ?thesis by (auto simp: trades_ok_def listing_filter_def)
qed

end
