(* ===== verification/Http_Api.thy ===== *)
theory Http_Api
  imports Order_Services Trade_Listing
begin

text \<open>
  Package \<open>internal/infra/httpapi\<close>: request and response types, handlers, middleware and the routing table. The
  JSON decoder, the validator, the router's pattern matching and \<open>google/uuid\<close> are parameters. A response
  body is the value handed to the JSON encoder. The JSON of both and the request log are in \<open>Http_Json\<close>; a handler that panics is answered
  with status 500 by the router's \<open>Recoverer\<close>.
\<close>

section \<open>Data\<close>

record PlaceOrderRequest =
  pr_UserID :: string
  pr_Side :: string
  pr_Type :: string
  pr_PriceCents :: "int64 option"
  pr_Quantity :: int64

record CancelOrderRequest =
  cq_UserID :: string

record PlaceOrderResponse =
  ps_OrderID :: string
  ps_Status :: string
  ps_CreatedAt :: time

record CancelOrderResponse =
  cs_OrderID :: string
  cs_Status :: string

record GetOrderResponse =
  go_OrderID :: string
  go_Status :: string
  go_FilledQuantity :: int64
  go_Quantity :: int64
  go_PriceCents :: "int64 option"
  go_Side :: string
  go_Type :: string
  go_CreatedAt :: time
  go_UpdatedAt :: time

record GetWalletResponse =
  gw_UserID :: string
  gw_BalanceBRLCents :: int64
  gw_ReservedBRLCents :: int64
  gw_AvailableBRLCents :: int64
  gw_BalanceVibranium :: int64
  gw_ReservedVibranium :: int64
  gw_AvailableVibranium :: int64

record TradeDTO =
  td_TradeID :: string
  td_BuyOrderID :: string
  td_SellOrderID :: string
  td_PriceCents :: int64
  td_Quantity :: int64
  td_ExecutedAt :: time

record UserDTO =
  ud_ID :: string
  ud_Username :: string
  ud_CreatedAt :: time

record ErrorResponse =
  er_Code :: string
  er_Message :: string

datatype Body = NoBody | ErrorBody ErrorResponse | PlacedBody PlaceOrderResponse | CancelBody CancelOrderResponse
  | OrderBody GetOrderResponse | WalletBody GetWalletResponse | TradesBody "TradeDTO list" string
  | UserBody UserDTO | UsersBody "UserDTO list"

text \<open>The routes of \<open>NewRouter\<close>, with the path parameter where there is one.\<close>

datatype Route = Ping | PostOrders | DeleteOrder string | GetOrderR string | GetWalletR string | GetTrades | GetUsers | GetUserR string

record HttpRequest =
  rq_method :: string
  rq_path :: string
  rq_query :: "string \<Rightarrow> string"
  rq_requestID :: string
  rq_body :: string

record HttpResponse =
  rs_status :: nat
  rs_requestID :: string
  rs_body :: Body

text \<open>A body is read up to a limit; the decoder sees those bytes and whether more followed.\<close>

record HEnv =
  he_tenv :: TEnv
  he_streamName :: string
  he_match :: "string \<Rightarrow> string \<Rightarrow> Route option"
  he_unmatched :: "string \<Rightarrow> string \<Rightarrow> nat"
  he_decodePlace :: "string \<Rightarrow> bool \<Rightarrow> PlaceOrderRequest option"
  he_decodeCancel :: "string \<Rightarrow> bool \<Rightarrow> CancelOrderRequest option"
  he_validatePlace :: "PlaceOrderRequest \<Rightarrow> string option"
  he_validateCancel :: "CancelOrderRequest \<Rightarrow> string option"

abbreviation he_env :: "HEnv \<Rightarrow> Env" where
  "he_env henv \<equiv> te_env (he_tenv henv)"

type_synonym 'w handler = "'w \<Rightarrow> (nat \<times> Body) \<times> 'w"

definition maxRequestBodyBytes :: nat where
  "maxRequestBodyBytes = 16 * 1024"

definition limited :: "(string \<Rightarrow> bool \<Rightarrow> 'a option) \<Rightarrow> string \<Rightarrow> 'a option" where
  "limited decode body = decode (take maxRequestBodyBytes body) (maxRequestBodyBytes < length body)"

definition writeError :: "nat \<Rightarrow> string \<Rightarrow> string \<Rightarrow> 'w handler" where
  "writeError status code message w = ((status, ErrorBody \<lparr>er_Code = code, er_Message = message\<rparr>), w)"

definition writeJSON :: "nat \<Rightarrow> Body \<Rightarrow> 'w handler" where
  "writeJSON status body w = ((status, body), w)"

text \<open>\<open>id, _ := uuid.Parse(s)\<close>: the zero id on an error.\<close>

definition parse_or_nil :: "HEnv \<Rightarrow> string \<Rightarrow> uuid" where
  "parse_or_nil henv s = (case te_uuidParse (he_tenv henv) s of None \<Rightarrow> 0 | Some i \<Rightarrow> i)"

abbreviation uuid_text :: "HEnv \<Rightarrow> uuid \<Rightarrow> string" where
  "uuid_text henv \<equiv> te_uuidString (he_tenv henv)"

text \<open>A panic of a handler reaches the router's \<open>Recoverer\<close>.\<close>

definition recovered :: "'w handler" where
  "recovered w = ((500, NoBody), w)"

section \<open>Order handlers\<close>

definition place_input :: "HEnv \<Rightarrow> PlaceOrderRequest \<Rightarrow> PlaceOrderInput" where
  "place_input henv req = \<lparr>in_UserID = parse_or_nil henv (pr_UserID req), in_Side = Side_of_string (pr_Side req),
     in_Type = Type_of_string (pr_Type req), in_PriceCents = pr_PriceCents req, in_Quantity = pr_Quantity req\<rparr>"

fun place_error :: "app_error \<Rightarrow> 'w handler" where
  "place_error ErrUserNotFound = writeError 404 ''user_not_found'' ''user_id does not exist''"
| "place_error ErrWalletNotFound = writeError 404 ''wallet_not_found'' ''no wallet provisioned for this user_id''"
| "place_error ErrInsufficientBalance = writeError 409 ''insufficient_balance'' ''not enough available balance to place this order''"
| "place_error (Panics p) = recovered"
| "place_error _ = writeError 500 ''internal_error'' ''unexpected error placing order''"

definition PlaceOrderH :: "HEnv \<Rightarrow> HttpRequest \<Rightarrow> 'z World_scheme handler" where
  "PlaceOrderH henv r w =
     (case limited (he_decodePlace henv) (rq_body r) of
        None \<Rightarrow> writeError 400 ''invalid_payload'' ''malformed JSON body'' w
      | Some req \<Rightarrow>
          (case he_validatePlace henv req of
             Some msg \<Rightarrow> writeError 400 ''invalid_payload'' msg w
           | None \<Rightarrow>
               (case Place (he_env henv) (he_streamName henv) (place_input henv req) w of
                  (Inl e, w') \<Rightarrow> place_error e w'
                | (Inr ord, w') \<Rightarrow>
                    writeJSON 202 (PlacedBody \<lparr>ps_OrderID = uuid_text henv (o_ID ord), ps_Status = string_of_Status (o_Status ord),
                      ps_CreatedAt = o_CreatedAt ord\<rparr>) w')))"

fun cancel_error :: "app_error \<Rightarrow> 'w handler" where
  "cancel_error ErrOrderNotFound = writeError 404 ''order_not_found'' ''no such order''"
| "cancel_error ErrForbidden = writeError 403 ''forbidden'' ''order belongs to a different user''"
| "cancel_error (Panics p) = recovered"
| "cancel_error _ = writeError 500 ''internal_error'' ''unexpected error cancelling order''"

definition CancelOrderH :: "HEnv \<Rightarrow> string \<Rightarrow> HttpRequest \<Rightarrow> 'z World_scheme handler" where
  "CancelOrderH henv param r w =
     (case te_uuidParse (he_tenv henv) param of
        None \<Rightarrow> writeError 400 ''invalid_order_id'' ''malformed order id'' w
      | Some orderID \<Rightarrow>
          (case limited (he_decodeCancel henv) (rq_body r) of
             None \<Rightarrow> writeError 400 ''invalid_payload'' ''malformed JSON body'' w
           | Some req \<Rightarrow>
               (case he_validateCancel henv req of
                  Some msg \<Rightarrow> writeError 400 ''invalid_payload'' msg w
                | None \<Rightarrow>
                    (case CancelService (he_env henv) (he_streamName henv) orderID (parse_or_nil henv (cq_UserID req)) w of
                       (Inl e, w') \<Rightarrow> cancel_error e w'
                     | (Inr res, w') \<Rightarrow>
                         writeJSON (if cr_AlreadyTerminal res then 200 else 202)
                           (CancelBody \<lparr>cs_OrderID = uuid_text henv (cr_OrderID res), cs_Status = string_of_Status (cr_Status res)\<rparr>) w'))))"

text \<open>The read handlers share their shape: parse the id, ask, map not-found and other errors.\<close>

definition fetch :: "('z World_scheme, 'a) action \<Rightarrow> (app_error \<Rightarrow> bool) \<Rightarrow> 'z World_scheme handler \<Rightarrow> 'z World_scheme handler \<Rightarrow>
    ('a \<Rightarrow> Body) \<Rightarrow> 'z World_scheme handler" where
  "fetch act notFound onMissing onError body w =
     (case act w of
        (Inl e, w') \<Rightarrow> if notFound e then onMissing w' else onError w'
      | (Inr x, w') \<Rightarrow> writeJSON 200 (body x) w')"

definition order_body :: "HEnv \<Rightarrow> Order \<Rightarrow> Body" where
  "order_body henv ord = OrderBody \<lparr>go_OrderID = uuid_text henv (o_ID ord), go_Status = string_of_Status (o_Status ord),
     go_FilledQuantity = o_FilledQuantity ord, go_Quantity = o_Quantity ord, go_PriceCents = o_PriceCents ord,
     go_Side = string_of_Side (o_Side ord), go_Type = string_of_Type (o_Type ord), go_CreatedAt = o_CreatedAt ord,
     go_UpdatedAt = o_UpdatedAt ord\<rparr>"

definition GetOrderH :: "HEnv \<Rightarrow> string \<Rightarrow> 'z World_scheme handler" where
  "GetOrderH henv param w =
     (case te_uuidParse (he_tenv henv) param of
        None \<Rightarrow> writeError 400 ''invalid_order_id'' ''malformed order id'' w
      | Some orderID \<Rightarrow>
          fetch (GetOrderQuery_Get (he_env henv) orderID) (\<lambda>e. e = PgOrderNotFound)
            (writeError 404 ''order_not_found'' ''no such order'')
            (writeError 500 ''internal_error'' ''unexpected error fetching order'') (order_body henv) w)"

section \<open>Wallet, trade and user handlers\<close>

definition wallet_body :: "HEnv \<Rightarrow> Wallet \<Rightarrow> Body" where
  "wallet_body henv wal = WalletBody \<lparr>gw_UserID = uuid_text henv (w_UserID wal), gw_BalanceBRLCents = w_BalanceBRLCents wal,
     gw_ReservedBRLCents = w_ReservedBRLCents wal, gw_AvailableBRLCents = AvailableBRLCents wal,
     gw_BalanceVibranium = w_BalanceVibranium wal, gw_ReservedVibranium = w_ReservedVibranium wal,
     gw_AvailableVibranium = AvailableVibranium wal\<rparr>"

definition GetWalletH :: "HEnv \<Rightarrow> string \<Rightarrow> 'z World_scheme handler" where
  "GetWalletH henv param w =
     (case te_uuidParse (he_tenv henv) param of
        None \<Rightarrow> writeError 400 ''invalid_user_id'' ''malformed user id'' w
      | Some userID \<Rightarrow>
          fetch (GetWalletQuery_Get (he_env henv) userID) (\<lambda>e. e = PgWalletNotFound)
            (writeError 404 ''user_not_found'' ''no wallet for this user_id'')
            (writeError 500 ''internal_error'' ''unexpected error fetching wallet'') (wallet_body henv) w)"

definition trade_dto :: "HEnv \<Rightarrow> Trade \<Rightarrow> TradeDTO" where
  "trade_dto henv t = \<lparr>td_TradeID = uuid_text henv (t_ID t), td_BuyOrderID = uuid_text henv (t_BuyOrderID t),
     td_SellOrderID = uuid_text henv (t_SellOrderID t), td_PriceCents = t_PriceCents t, td_Quantity = t_Quantity t,
     td_ExecutedAt = t_ExecutedAt t\<rparr>"

text \<open>An optional id of the query string: absent, malformed, or given.\<close>

definition query_id :: "HEnv \<Rightarrow> string \<Rightarrow> uuid option option" where
  "query_id henv v = (if v = [] then Some None else (case te_uuidParse (he_tenv henv) v of None \<Rightarrow> None | Some i \<Rightarrow> Some (Some i)))"

definition query_limit :: "string \<Rightarrow> int64 option" where
  "query_limit v = (if v = [] then Some 0 else (case ParseInt v of None \<Rightarrow> None | Some n \<Rightarrow> if n \<le> 0 then None else Some n))"

definition ListTradesH :: "HEnv \<Rightarrow> HttpRequest \<Rightarrow> 'z World_scheme handler" where
  "ListTradesH henv r w =
     (case query_id henv (rq_query r ''user_id'') of
        None \<Rightarrow> writeError 400 ''invalid_user_id'' ''malformed user_id'' w
      | Some uid \<Rightarrow>
          (case query_id henv (rq_query r ''order_id'') of
             None \<Rightarrow> writeError 400 ''invalid_order_id'' ''malformed order_id'' w
           | Some oid \<Rightarrow>
               (case query_limit (rq_query r ''limit'') of
                  None \<Rightarrow> writeError 400 ''invalid_limit'' ''limit must be a positive integer'' w
                | Some n \<Rightarrow>
                    fetch (ListTradesQuery_List (he_tenv henv)
                        \<lparr>tf_UserID = uid, tf_OrderID = oid, tf_Limit = n, tf_Cursor = rq_query r ''cursor''\<rparr>) (\<lambda>e. e = PgInvalidCursor)
                      (writeError 400 ''invalid_cursor'' ''malformed or expired cursor'')
                      (writeError 500 ''internal_error'' ''unexpected error listing trades'')
                      (\<lambda>(trades, nextCursor). TradesBody (map (trade_dto henv) trades) nextCursor) w)))"

definition user_dto :: "HEnv \<Rightarrow> User \<Rightarrow> UserDTO" where
  "user_dto henv u = \<lparr>ud_ID = uuid_text henv (u_ID u), ud_Username = u_Username u, ud_CreatedAt = u_CreatedAt u\<rparr>"

definition GetUserH :: "HEnv \<Rightarrow> string \<Rightarrow> 'z World_scheme handler" where
  "GetUserH henv param w =
     (case te_uuidParse (he_tenv henv) param of
        None \<Rightarrow> writeError 400 ''invalid_user_id'' ''malformed user id'' w
      | Some i \<Rightarrow>
          fetch (GetUserQuery_Get (he_env henv) i) (\<lambda>e. e = PgUserNotFound)
            (writeError 404 ''user_not_found'' ''no user for this id'')
            (writeError 500 ''internal_error'' ''unexpected error fetching user'') (\<lambda>u. UserBody (user_dto henv u)) w)"

definition ListUsersH :: "HEnv \<Rightarrow> 'z World_scheme handler" where
  "ListUsersH henv =
     fetch (ListUsersQuery_List (he_env henv)) (\<lambda>_. False) (writeError 404 [] [])
       (writeError 500 ''internal_error'' ''unexpected error listing users'') (\<lambda>us. UsersBody (map (user_dto henv) us))"

section \<open>Middleware and routing\<close>

definition maxRequestIDLen :: nat where
  "maxRequestIDLen = 128"

definition CorrelationID :: "HEnv \<Rightarrow> HttpRequest \<Rightarrow> 'z World_scheme \<Rightarrow> string \<times> 'z World_scheme" where
  "CorrelationID henv r w =
     (if rq_requestID r = [] \<or> maxRequestIDLen < length (rq_requestID r)
      then (uuid_text henv (e_uuid (he_env henv) (w_step w)), tick w)
      else (rq_requestID r, w))"

definition dispatch :: "HEnv \<Rightarrow> Route \<Rightarrow> HttpRequest \<Rightarrow> 'z World_scheme handler" where
  "dispatch henv rt r =
     (case rt of
        Ping \<Rightarrow> writeJSON 200 NoBody
      | PostOrders \<Rightarrow> PlaceOrderH henv r
      | DeleteOrder p \<Rightarrow> CancelOrderH henv p r
      | GetOrderR p \<Rightarrow> GetOrderH henv p
      | GetWalletR p \<Rightarrow> GetWalletH henv p
      | GetTrades \<Rightarrow> ListTradesH henv r
      | GetUsers \<Rightarrow> ListUsersH henv
      | GetUserR p \<Rightarrow> GetUserH henv p)"

definition serve :: "HEnv \<Rightarrow> HttpRequest \<Rightarrow> 'z World_scheme \<Rightarrow> HttpResponse \<times> 'z World_scheme" where
  "serve henv r w =
     (case CorrelationID henv r w of (rid, w1) \<Rightarrow>
        (case he_match henv (rq_method r) (rq_path r) of
           None \<Rightarrow> (\<lparr>rs_status = he_unmatched henv (rq_method r) (rq_path r), rs_requestID = rid, rs_body = NoBody\<rparr>, w1)
         | Some rt \<Rightarrow>
             (case dispatch henv rt r w1 of
                ((status, body), w2) \<Rightarrow> (\<lparr>rs_status = status, rs_requestID = rid, rs_body = body\<rparr>, w2))))"

end
