(* ===== verification/Http_Properties.thy ===== *)
theory Http_Properties
  imports Http_Api
begin

text \<open>
  What a client of the API may rely on: reads change nothing, a refused request changes nothing, an accepted
  order is recorded and within the bounds the engine needs; and one class of invalid requests that is
  answered as an internal error.
\<close>

section \<open>Reads\<close>

definition reads_only :: "('z World_scheme, 'a) action \<Rightarrow> bool" where
  "reads_only act \<longleftrightarrow> (\<forall>w. w_db (snd (act w)) = w_db w)"

lemma reads_statement: "(\<And>n d x d'. f n d = Inr (x, d') \<Longrightarrow> d' = d) \<Longrightarrow> reads_only (statement env f)"
  by (fastforce simp: reads_only_def statement_def split: sum.split)

lemma reads_bind: "reads_only m \<Longrightarrow> (\<And>x. reads_only (k x)) \<Longrightarrow> reads_only (bind_ok m k)"
  unfolding reads_only_def bind_ok_def by (auto split: prod.split sum.split) (metis snd_conv)+

lemma reads_return: "reads_only (return_ok x)" "reads_only (return_err e)"
  by (simp_all add: reads_only_def return_ok_def return_err_def)

lemma reads_page: "reads_only (list_page tenv f bound)"
  unfolding list_page_def Let_def
  by (intro reads_bind reads_statement) (auto intro: reads_return split: sum.split)

lemma reads_queries:
  "reads_only (GetOrderQuery_Get env i)" "reads_only (GetWalletQuery_Get env i)" "reads_only (GetUserQuery_Get env i)"
  "reads_only (ListUsersQuery_List env)" "reads_only (ListTradesQuery_List tenv f)"
  unfolding GetOrderQuery_Get_def GetWalletQuery_Get_def GetUserQuery_Get_def ListUsersQuery_List_def OrderRepo_Get_def
    WalletRepo_Get_def UserRepo_Get_def UserRepo_List_def ListTradesQuery_List_def ListPaginated_def
  by (auto intro!: reads_statement reads_page reads_return split: option.splits)

text \<open>A handler's answer: an error body exactly with an error status, and a status the API documents.\<close>

definition well_typed :: "nat \<times> Body \<Rightarrow> bool" where
  "well_typed a \<longleftrightarrow>
     (case snd a of
        ErrorBody _ \<Rightarrow> fst a \<in> {400, 403, 404, 409, 500}
      | NoBody \<Rightarrow> fst a \<in> {200, 500}
      | PlacedBody _ \<Rightarrow> fst a = 202
      | CancelBody _ \<Rightarrow> fst a \<in> {200, 202}
      | _ \<Rightarrow> fst a = 200)"

definition answers_well :: "'w handler \<Rightarrow> bool" where
  "answers_well h \<longleftrightarrow> (\<forall>w. well_typed (fst (h w)))"

lemma answers_simple: "s \<in> {400, 403, 404, 409, 500} \<Longrightarrow> answers_well (writeError s c m)" "answers_well recovered"
  by (auto simp: answers_well_def writeError_def recovered_def well_typed_def)

lemma answers_fetch:
  assumes "answers_well miss" "answers_well err" "\<And>x. well_typed (200, body x)"
  shows "answers_well (fetch act nf miss err body)"
  using assms unfolding answers_well_def fetch_def writeJSON_def by (auto split: prod.split sum.split)

lemma answers_errors: "answers_well (place_error e)" "answers_well (cancel_error e)"
proof -
  show "answers_well (place_error e)" by (cases e rule: place_error.cases) (simp_all add: answers_simple)
  show "answers_well (cancel_error e)" by (cases e rule: cancel_error.cases) (simp_all add: answers_simple)
qed

lemma well_typed_bodies [simp]:
  "well_typed (202, PlacedBody a)" "well_typed (202, CancelBody b)" "well_typed (200, CancelBody b)" "well_typed (200, order_body henv ord)"
  "well_typed (200, wallet_body henv wal)" "well_typed (200, TradesBody ts c)" "well_typed (200, UserBody u)" "well_typed (200, UsersBody us)"
  "well_typed (200, NoBody)"
  by (simp_all add: well_typed_def order_body_def wallet_body_def)

lemmas answers_now = answers_simple(1) [unfolded answers_well_def, rule_format] answers_errors [unfolded answers_well_def, rule_format]
  answers_fetch [OF answers_simple(1) answers_simple(1), unfolded answers_well_def, rule_format]

lemma answers_get:
  "answers_well (GetOrderH henv p)" "answers_well (GetWalletH henv p)" "answers_well (GetUserH henv p)" "answers_well (ListUsersH henv)"
  "answers_well (ListTradesH henv r)"
  unfolding answers_well_def GetOrderH_def GetWalletH_def GetUserH_def ListUsersH_def ListTradesH_def
  by (auto intro!: answers_now split: option.split)

lemma answers_post: "answers_well (PlaceOrderH henv r)" "answers_well (CancelOrderH henv p r)"
  unfolding answers_well_def PlaceOrderH_def CancelOrderH_def
  by (auto intro!: answers_now simp: writeJSON_def split: option.split prod.split sum.split)

lemma answers_dispatch: "answers_well (dispatch henv rt r)"
  using answers_get answers_post
  by (cases rt) (simp_all add: dispatch_def, simp add: answers_well_def writeJSON_def)

section \<open>Refusals\<close>

text \<open>The errors behind a 4xx answer leave every table as it was.\<close>

lemma place_error_db: "snd (place_error e w) = w" "400 \<le> fst (fst (place_error e w))"
    "fst (fst (place_error e w)) < 500 \<Longrightarrow> e \<noteq> PgFault"
  by (cases e rule: place_error.cases; simp add: writeError_def recovered_def)+

lemma cancel_error_db: "snd (cancel_error e w) = w" "400 \<le> fst (fst (cancel_error e w))"
    "fst (fst (cancel_error e w)) < 500 \<Longrightarrow> e \<noteq> PgFault"
  by (cases e rule: cancel_error.cases; simp add: writeError_def recovered_def)+

lemma Place_refused:
  assumes "Place env sn inp w = (Inl e, w')" "e \<noteq> PgFault"
  shows "same_tables (w_db w) (w_db w')"
  using Place_cases [OF assms(1)] in_tx_error assms(2) by (metis Inl_inject same_tables_refl(1))

lemma Cancel_refused:
  assumes "CancelService env sn i u w = (Inl e, w')" "e \<noteq> PgFault"
  shows "same_tables (w_db w) (w_db w')"
  using in_tx_error [of env "cancel_tx env sn i u" w e w'] assms by (auto simp: CancelService_def)

definition refuses_safely :: "'z World_scheme handler \<Rightarrow> bool" where
  "refuses_safely h \<longleftrightarrow> (\<forall>w a w'. h w = (a, w') \<longrightarrow> 400 \<le> fst a \<longrightarrow> fst a < 500 \<longrightarrow> same_tables (w_db w) (w_db w'))"

lemma refuses_post: "refuses_safely (PlaceOrderH henv r)" "refuses_safely (CancelOrderH henv p r)"
proof -
  show "refuses_safely (PlaceOrderH henv r)"
    unfolding refuses_safely_def
  proof (intro allI impI)
    fix w a w'
    assume h: "PlaceOrderH henv r w = (a, w')" "400 \<le> fst a" "fst a < 500"
    show "same_tables (w_db w) (w_db w')"
    proof (cases "w' = w")
      case False
      with h obtain req e w1 where "Place (he_env henv) (he_streamName henv) (place_input henv req) w = (Inl e, w1)" "place_error e w1 = (a, w')"
        by (auto simp: PlaceOrderH_def writeError_def writeJSON_def split: option.splits prod.splits sum.splits)
      then show ?thesis using Place_refused place_error_db h(3) by (metis fst_conv snd_conv)
    qed simp
  qed
  show "refuses_safely (CancelOrderH henv p r)"
    unfolding refuses_safely_def
  proof (intro allI impI)
    fix w a w'
    assume h: "CancelOrderH henv p r w = (a, w')" "400 \<le> fst a" "fst a < 500"
    show "same_tables (w_db w) (w_db w')"
    proof (cases "w' = w")
      case False
      with h obtain i u e w1 where "CancelService (he_env henv) (he_streamName henv) i u w = (Inl e, w1)" "cancel_error e w1 = (a, w')"
        by (auto simp: CancelOrderH_def writeError_def writeJSON_def split: option.splits prod.splits sum.splits if_splits)
      then show ?thesis using Cancel_refused cancel_error_db h(3) by (metis fst_conv snd_conv)
    qed simp
  qed
qed

lemma reads_fetch:
  assumes "reads_only act"
  shows "w_db (snd (fetch act nf (writeError a b c) (writeError a' b' c') body w)) = w_db w"
  using assms by (auto simp: reads_only_def fetch_def writeError_def writeJSON_def split: prod.split sum.split) (metis snd_conv)+

lemma reads_get:
  "w_db (snd (GetOrderH henv p w)) = w_db w" "w_db (snd (GetWalletH henv p w)) = w_db w" "w_db (snd (GetUserH henv p w)) = w_db w"
  "w_db (snd (ListUsersH henv w)) = w_db w" "w_db (snd (ListTradesH henv r w)) = w_db w"
  unfolding GetOrderH_def GetWalletH_def GetUserH_def ListUsersH_def ListTradesH_def
  by (auto simp: reads_fetch reads_queries writeError_def split: option.split)

lemma reads_dispatch:
  assumes "rt \<noteq> PostOrders" "\<forall>p. rt \<noteq> DeleteOrder p"
  shows "w_db (snd (dispatch henv rt r w)) = w_db w"
  using assms by (cases rt) (simp_all add: dispatch_def writeJSON_def reads_get)

lemma refuses_dispatch: "refuses_safely (dispatch henv rt r)"
proof (cases "rt = PostOrders \<or> (\<exists>p. rt = DeleteOrder p)")
  case True
  then show ?thesis using refuses_post by (auto simp: dispatch_def)
next
  case False
  then have "w_db (snd (dispatch henv rt r w)) = w_db w" for w by (intro reads_dispatch) auto
  then show ?thesis unfolding refuses_safely_def by (metis same_tables_refl(1) snd_conv)
qed

lemma CorrelationID_db: "CorrelationID henv r w = (rid, w1) \<Longrightarrow> w_db w1 = w_db w"
  by (auto simp: CorrelationID_def split: if_splits)

section \<open>Accepted orders\<close>

text \<open>The tags on \<open>PlaceOrderRequest\<close>, as the validator documents them.\<close>

definition maxField :: int where
  "maxField = 3000000000"

definition place_tags :: "HEnv \<Rightarrow> PlaceOrderRequest \<Rightarrow> bool" where
  "place_tags henv req \<longleftrightarrow> te_uuidParse (he_tenv henv) (pr_UserID req) \<noteq> None \<and>
     pr_Side req \<in> set [''BUY'', ''SELL''] \<and> pr_Type req \<in> set [''LIMIT'', ''MARKET''] \<and>
     (pr_Type req = ''LIMIT'' \<longrightarrow> pr_PriceCents req \<noteq> None) \<and>
     (case pr_PriceCents req of None \<Rightarrow> True | Some p \<Rightarrow> 0 < p \<and> p \<le> maxField) \<and> 0 < pr_Quantity req \<and> pr_Quantity req \<le> maxField"

lemma Place_placed:
  assumes "Place env sn inp w = (Inr ord, w')" "db_ok (w_db w)"
  shows "validatePlaceOrderInput inp = None \<and> placed env sn inp ord (w_db w) (w_db w')"
proof -
  from Place_cases [OF assms(1)] obtain w1 where v: "validatePlaceOrderInput inp = None"
    and w1: "w_db w1 = w_db w" "in_tx env (place_tx env sn inp) w1 = (Inr ord, w')" by auto
  have "db_ok (w_db (tick w1))" using assms(2) w1(1) by simp
  from in_tx_ok [OF w1(2)] place_tx_Inr [OF _ this] show ?thesis
    using v w1(1) by (metis tick_simps(1) tx_exit.distinct(1) tx_exit.inject(1))
qed

lemma tags_in64:
  assumes "place_tags henv req"
  shows "in64 (pr_Quantity req)" "\<forall>p. pr_PriceCents req = Some p \<longrightarrow> in64 p"
    "\<forall>p. pr_PriceCents req = Some p \<longrightarrow> p * pr_Quantity req \<le> 9000000000000000000"
proof -
  have q: "0 < pr_Quantity req" "pr_Quantity req \<le> 3000000000" and p: "\<And>p. pr_PriceCents req = Some p \<Longrightarrow> 0 < p \<and> p \<le> 3000000000"
    using assms by (auto simp: place_tags_def maxField_def)
  have "p * pr_Quantity req \<le> 3000000000 * 3000000000" if "pr_PriceCents req = Some p" for p
    using p [OF that] q by (intro mult_mono) auto
  then show "\<forall>p. pr_PriceCents req = Some p \<longrightarrow> p * pr_Quantity req \<le> 9000000000000000000" by simp
  show "in64 (pr_Quantity req)" "\<forall>p. pr_PriceCents req = Some p \<longrightarrow> in64 p"
    using q p by (auto simp: in64_def MinInt64_def MaxInt64_def)
qed

text \<open>A request of the validator's approval, in the fields the service reads.\<close>

lemma place_input_sel [simp]:
  "in_PriceCents (place_input henv req) = pr_PriceCents req" "in_Quantity (place_input henv req) = pr_Quantity req"
  "in_Side (place_input henv req) = Side_of_string (pr_Side req)" "in_Type (place_input henv req) = Type_of_string (pr_Type req)"
  by (simp_all add: place_input_def)

lemma PlaceOrderH_accepted:
  assumes "PlaceOrderH henv r w = ((202, b), w')"
  obtains req ord where "limited (he_decodePlace henv) (rq_body r) = Some req" "he_validatePlace henv req = None"
    "Place (he_env henv) (he_streamName henv) (place_input henv req) w = (Inr ord, w')"
    "b = PlacedBody \<lparr>ps_OrderID = uuid_text henv (o_ID ord), ps_Status = string_of_Status (o_Status ord), ps_CreatedAt = o_CreatedAt ord\<rparr>"
proof -
  have "place_error e w1 \<noteq> ((202, b), w')" for e w1
    by (cases e rule: place_error.cases) (simp_all add: writeError_def recovered_def)
  then show ?thesis using assms that
    by (auto simp: PlaceOrderH_def writeError_def writeJSON_def split: option.splits prod.splits sum.splits)
qed

text \<open>A market order with a price, the one combination the tags let through and the service refuses.\<close>

lemma market_with_price_refused:
  assumes "place_tags henv req" "pr_Type req = ''MARKET''" "pr_PriceCents req = Some p"
  shows "Place env sn (place_input henv req) w = (Inl ErrInvalidOrderRequest, w)"
proof -
  have "0 < pr_Quantity req" "Side_of_string (pr_Side req) \<in> {SideBuy, SideSell}" "Type_of_string (pr_Type req) = TypeMarket"
    using assms(1,2) by (auto simp: place_tags_def Side_of_string_def Type_of_string_def)
  then have "validatePlaceOrderInput (place_input henv req) = Some ErrInvalidOrderRequest"
    using assms(3) by (auto simp: validatePlaceOrderInput_def)
  then show ?thesis by (simp add: Place_def return_err_def)
qed

section \<open>Properties\<close>

text \<open>
  C26: the promise in the comment on \<open>PlaceOrderRequest\<close>. When the validator lets through only what the tags
  allow, a POST answered with 202 recorded an order whose price times quantity is at most \<open>9 * 10^18\<close>, so
  below the largest int64, which is open and unfilled and meets the precondition of the matching engine;
  the answer names that order.
\<close>

theorem accepted_orders_fit:
  assumes tags: "\<forall>req. he_validatePlace henv req = None \<longrightarrow> place_tags henv req"
    and h: "PlaceOrderH henv r w = ((202, b), w')" and ok: "db_ok (w_db w)"
  shows "\<exists>req ord. limited (he_decodePlace henv) (rq_body r) = Some req \<and>
    placed (he_env henv) (he_streamName henv) (place_input henv req) ord (w_db w) (w_db w') \<and> inc_ok ord \<and>
    (\<forall>p. o_PriceCents ord = Some p \<longrightarrow> p * o_Quantity ord \<le> 9000000000000000000 \<and> p * o_Quantity ord \<le> MaxInt64) \<and>
    b = PlacedBody \<lparr>ps_OrderID = uuid_text henv (o_ID ord), ps_Status = ''OPEN'', ps_CreatedAt = o_CreatedAt ord\<rparr>"
proof -
  from h obtain req ord where req: "limited (he_decodePlace henv) (rq_body r) = Some req" "he_validatePlace henv req = None"
      and p: "Place (he_env henv) (he_streamName henv) (place_input henv req) w = (Inr ord, w')"
      and b: "b = PlacedBody \<lparr>ps_OrderID = uuid_text henv (o_ID ord), ps_Status = string_of_Status (o_Status ord), ps_CreatedAt = o_CreatedAt ord\<rparr>"
    by (rule PlaceOrderH_accepted)
  have t: "place_tags henv req" using tags req(2) by simp
  from Place_placed [OF p ok] have v: "validatePlaceOrderInput (place_input henv req) = None"
    and pl: "placed (he_env henv) (he_streamName henv) (place_input henv req) ord (w_db w) (w_db w')" by simp_all
  then obtain i tm where o: "ord = new_order (place_input henv req) i tm" by (auto simp: placed_def)
  have inc: "inc_ok ord" unfolding o using v tags_in64(1,2) [OF t] by (intro new_order_inc_ok) simp_all
  have sz: "\<forall>p. o_PriceCents ord = Some p \<longrightarrow> p * o_Quantity ord \<le> 9000000000000000000 \<and> p * o_Quantity ord \<le> MaxInt64"
    using tags_in64(3) [OF t] by (auto simp: o new_order_def MaxInt64_def)
  have "string_of_Status (o_Status ord) = ''OPEN''" by (simp add: o new_order_def)
  with req(1) pl inc sz b show ?thesis by metis
qed

text \<open>
  C39: an invalid request answered as a fault of the server. A MARKET order that carries a price satisfies every tag of
  \<open>PlaceOrderRequest\<close>, is refused by the service as an invalid order request, and that error reaches the
  handler's last case: the client gets 500 with \<open>internal_error\<close>, and nothing is recorded.
\<close>

theorem market_price_is_internal_error:
  assumes "limited (he_decodePlace henv) (rq_body r) = Some req" "he_validatePlace henv req = None"
    and "place_tags henv req" "pr_Type req = ''MARKET''" "pr_PriceCents req \<noteq> None"
  shows "PlaceOrderH henv r w =
    ((500, ErrorBody \<lparr>er_Code = ''internal_error'', er_Message = ''unexpected error placing order''\<rparr>), w)"
proof -
  from assms(5) obtain p where "pr_PriceCents req = Some p" by blast
  from market_with_price_refused [OF assms(3,4) this, of "he_env henv" "he_streamName henv" w] show ?thesis using assms(1,2) by (simp add: PlaceOrderH_def writeError_def)
qed

text \<open>
  C27: a refused request changed nothing. Whatever the route, a response with a status from 400 to 499 leaves
  every table as it was; only a 500 leaves open whether the request took effect (a commit whose
  acknowledgement is lost).
\<close>

theorem refusals_change_nothing:
  assumes "serve henv r w = (rsp, w')" "he_match henv (rq_method r) (rq_path r) = Some rt"
    and "400 \<le> rs_status rsp" "rs_status rsp < 500"
  shows "same_tables (w_db w) (w_db w')"
proof -
  from assms(1,2) obtain rid w1 b where c: "CorrelationID henv r w = (rid, w1)"
      and d: "dispatch henv rt r w1 = ((rs_status rsp, b), w')"
    by (auto simp: serve_def split: prod.splits)
  have "refuses_safely (dispatch henv rt r)" by (rule refuses_dispatch)
  with d assms(3,4) have "same_tables (w_db w1) (w_db w')" by (auto simp: refuses_safely_def)
  then show ?thesis using CorrelationID_db [OF c] by simp
qed


text \<open>
  The GET routes only read: whatever the parameters and whatever fails, no table changes.
\<close>

theorem gets_only_read:
  assumes "he_match henv (rq_method r) (rq_path r) = Some rt" "rt \<noteq> PostOrders" "\<forall>p. rt \<noteq> DeleteOrder p"
  shows "w_db (snd (serve henv r w)) = w_db w"
proof (cases "CorrelationID henv r w")
  case (Pair rid w1)
  with reads_dispatch [OF assms(2,3), of henv r w1] CorrelationID_db [OF Pair] show ?thesis
    by (cases "dispatch henv rt r w1") (simp add: serve_def assms(1) case_prod_unfold)
qed


section \<open>A server for the witnesses\<close>

text \<open>Bodies are one digit here; its decoding stands for the JSON decoder's, the tags are checked as written.\<close>

definition http_request :: "string \<Rightarrow> int64 option \<Rightarrow> PlaceOrderRequest" where
  "http_request ty p = \<lparr>pr_UserID = ''1'', pr_Side = ''BUY'', pr_Type = ty, pr_PriceCents = p, pr_Quantity = 4\<rparr>"

definition http_decode :: "string \<Rightarrow> bool \<Rightarrow> PlaceOrderRequest option" where
  "http_decode body over =
     (if body = ''1'' then Some (http_request ''LIMIT'' (Some 1000))
      else if body = ''2'' then Some (http_request ''MARKET'' (Some 1000)) else None)"

definition http_match :: "string \<Rightarrow> string \<Rightarrow> Route option" where
  "http_match m p = (if m = ''POST'' \<and> p = ''/orders'' then Some PostOrders else if m = ''GET'' \<and> p = ''/users'' then Some GetUsers else None)"

definition http_tenv :: TEnv where
  "http_tenv = listing_env\<lparr>te_env := quiet_env\<rparr>"

definition http_env0 :: HEnv where
  "http_env0 = \<lparr>he_tenv = http_tenv, he_streamName = ''orders'', he_match = http_match, he_unmatched = (\<lambda>_ _. 404),
     he_decodePlace = http_decode, he_decodeCancel = (\<lambda>_ _. None), he_validatePlace = (\<lambda>_. None), he_validateCancel = (\<lambda>_. None)\<rparr>"

definition http_env :: HEnv where
  "http_env = http_env0\<lparr>he_validatePlace := (\<lambda>req. if place_tags http_env0 req then None else Some ''tags'')\<rparr>"

definition http_call :: "string \<Rightarrow> string \<Rightarrow> string \<Rightarrow> HttpRequest" where
  "http_call m p b = \<lparr>rq_method = m, rq_path = p, rq_query = (\<lambda>_. []), rq_requestID = ''req-1'', rq_body = b\<rparr>"

lemma http_tags: "place_tags http_env req = place_tags http_env0 req"
  by (simp add: place_tags_def http_env_def)

lemma http_validates: "he_validatePlace http_env req = None \<longleftrightarrow> place_tags http_env req"
  unfolding http_tags by (simp add: http_env_def)

lemma http_accepts: "\<exists>b w'. PlaceOrderH http_env (http_call ''POST'' ''/orders'' ''1'') sample_world = ((202, b), w')"
proof -
  have "fst (fst (PlaceOrderH http_env (http_call ''POST'' ''/orders'' ''1'') sample_world)) = 202" by code_simp
  then show ?thesis by (metis prod.collapse)
qed

theorem accepted_orders_fit_witness:
  "\<exists>b w' ord. PlaceOrderH http_env (http_call ''POST'' ''/orders'' ''1'') sample_world = ((202, b), w') \<and> inc_ok ord \<and>
     (\<exists>req. placed quiet_env ''orders'' (place_input http_env req) ord (w_db sample_world) (w_db w'))"
proof -
  obtain b w' where h: "PlaceOrderH http_env (http_call ''POST'' ''/orders'' ''1'') sample_world = ((202, b), w')"
    using http_accepts by blast
  have "he_env http_env = quiet_env" "he_streamName http_env = ''orders''"
    by (simp_all add: http_env_def http_env0_def http_tenv_def)
  with accepted_orders_fit [OF _ h sample_world_ok(1)] h http_validates show ?thesis by metis
qed

theorem market_price_is_internal_error_witness:
  "PlaceOrderH http_env (http_call ''POST'' ''/orders'' ''2'') sample_world =
     ((500, ErrorBody \<lparr>er_Code = ''internal_error'', er_Message = ''unexpected error placing order''\<rparr>), sample_world)"
proof -
  have "limited (he_decodePlace http_env) (rq_body (http_call ''POST'' ''/orders'' ''2'')) = Some (http_request ''MARKET'' (Some 1000))"
    by (simp add: limited_def maxRequestBodyBytes_def http_env_def http_env0_def http_decode_def http_call_def)
  moreover have "place_tags http_env (http_request ''MARKET'' (Some 1000))"
    by (simp add: place_tags_def http_env_def http_env0_def http_tenv_def listing_env_def http_request_def maxField_def)
  ultimately show ?thesis using http_validates
    by (intro market_price_is_internal_error) (auto simp: http_request_def)
qed

theorem refusals_change_nothing_witness:
  "\<exists>rsp w'. serve http_env (http_call ''POST'' ''/orders'' ''9'') sample_world = (rsp, w') \<and> rs_status rsp = 400 \<and> same_tables sample_db (w_db w')"
proof -
  obtain rsp w' where s: "serve http_env (http_call ''POST'' ''/orders'' ''9'') sample_world = (rsp, w')" by fastforce
  have "rs_status (fst (serve http_env (http_call ''POST'' ''/orders'' ''9'') sample_world)) = 400" by code_simp
  moreover have "he_match http_env ''POST'' ''/orders'' = Some PostOrders" by (simp add: http_env_def http_env0_def http_match_def)
  ultimately show ?thesis using refusals_change_nothing [OF s] s by (simp add: http_call_def sample_world_def)
qed


theorem gets_only_read_witness:
  "w_db (snd (serve http_env (http_call ''GET'' ''/users'' []) sample_world)) = sample_db"
proof -
  have "he_match http_env ''GET'' ''/users'' = Some GetUsers" by (simp add: http_env_def http_env0_def http_match_def)
  with gets_only_read [of http_env "http_call ''GET'' ''/users'' []" GetUsers sample_world] show ?thesis
    by (simp add: http_call_def sample_world_def)
qed

end
