(* ===== verification/Go_Json.thy ===== *)
theory Go_Json
  imports Go_Text
begin

text \<open>
  Package \<open>encoding/json\<close> as the repository uses it: the encoder of \<open>json.Marshal\<close> (compact, HTML characters
  escaped, invalid UTF-8 replaced) and the scanner and decoder of \<open>json.Unmarshal\<close> (white space, the number
  grammar, escapes with surrogate pairs, the nesting limit), on strings of bytes. What the encoder prints
  the decoder reads back.
\<close>

section \<open>UTF-8\<close>

definition continuation :: "nat \<Rightarrow> nat \<Rightarrow> char \<Rightarrow> bool" where
  "continuation lo hi c \<longleftrightarrow> lo \<le> (of_char c :: nat) \<and> (of_char c :: nat) \<le> hi"

text \<open>The number of bytes of the first rune, as \<open>utf8.DecodeRune\<close> accepts it; \<open>None\<close> at an invalid byte.\<close>

fun rune_len :: "string \<Rightarrow> nat option" where
  "rune_len [] = None"
| "rune_len (a # s) =
     (let n = (of_char a :: nat); cont = continuation 128 191;
          second = (if n = 224 then continuation 160 191 else if n = 237 then continuation 128 159
                    else if n = 240 then continuation 144 191 else if n = 244 then continuation 128 143 else cont)
      in if n < 128 then Some 1
         else if 194 \<le> n \<and> n \<le> 223 then (case s of b # _ \<Rightarrow> if cont b then Some 2 else None | _ \<Rightarrow> None)
         else if 224 \<le> n \<and> n \<le> 239 then (case s of b # c # _ \<Rightarrow> if second b \<and> cont c then Some 3 else None | _ \<Rightarrow> None)
         else if 240 \<le> n \<and> n \<le> 244 then (case s of b # c # d # _ \<Rightarrow> if second b \<and> cont c \<and> cont d then Some 4 else None | _ \<Rightarrow> None)
         else None)"

text \<open>\<open>utf8.EncodeRune\<close> for a code point that is no surrogate.\<close>

definition encode_rune :: "nat \<Rightarrow> string" where
  "encode_rune n =
     (if n < 128 then [char_of n]
      else if n < 2048 then [char_of (192 + n div 64), char_of (128 + n mod 64)]
      else if n < 65536 then [char_of (224 + n div 4096), char_of (128 + n div 64 mod 64), char_of (128 + n mod 64)]
      else [char_of (240 + n div 262144), char_of (128 + n div 4096 mod 64), char_of (128 + n div 64 mod 64), char_of (128 + n mod 64)])"

abbreviation replacement :: nat where
  "replacement \<equiv> 65533"

section \<open>Strings\<close>

abbreviation backslash :: char where "backslash \<equiv> CHR 0x5C"
abbreviation dquote :: char where "dquote \<equiv> CHR 0x22"

definition hex_char :: "nat \<Rightarrow> char" where
  "hex_char n = (if n < 10 then char_of (48 + n) else char_of (87 + n))"

definition hex_val :: "char \<Rightarrow> nat option" where
  "hex_val c = (let n = of_char c in
     if 48 \<le> n \<and> n \<le> 57 then Some (n - 48) else if 97 \<le> n \<and> n \<le> 102 then Some (n - 87)
     else if 65 \<le> n \<and> n \<le> 70 then Some (n - 55) else None)"

definition u_escape :: "nat \<Rightarrow> string" where
  "u_escape n = [backslash, CHR ''u'', hex_char (n div 4096 mod 16), hex_char (n div 256 mod 16), hex_char (n div 16 mod 16), hex_char (n mod 16)]"

text \<open>An ASCII byte: kept, or escaped when it is a quote, a backslash, a control or an HTML character.\<close>

definition escape_ascii :: "char \<Rightarrow> string" where
  "escape_ascii c = (let n = (of_char c :: nat) in
     if n = 34 \<or> n = 92 then [backslash, c]
     else if n = 8 then [backslash, CHR ''b''] else if n = 12 then [backslash, CHR ''f'']
     else if n = 10 then [backslash, CHR ''n''] else if n = 13 then [backslash, CHR ''r''] else if n = 9 then [backslash, CHR ''t'']
     else if n < 32 \<or> n = 38 \<or> n = 60 \<or> n = 62 then u_escape n
     else [c])"

text \<open>\<open>appendString\<close>: the two line separators are escaped too, an invalid byte becomes the replacement character.\<close>

function escape :: "string \<Rightarrow> string" where
  "escape [] = []"
| "escape (c # s) =
     (if (of_char c :: nat) < 128 then escape_ascii c @ escape s
      else (case rune_len (c # s) of
              None \<Rightarrow> u_escape replacement @ escape s
            | Some k \<Rightarrow>
                (if take k (c # s) = encode_rune 8232 then u_escape 8232
                 else if take k (c # s) = encode_rune 8233 then u_escape 8233
                 else take k (c # s)) @ escape (drop (k - 1) s)))"
  by pat_completeness auto
termination by (relation "measure length") auto

definition quote_json :: "string \<Rightarrow> string" where
  "quote_json s = dquote # escape s @ [dquote]"

text \<open>\<open>getu4\<close>: four hex digits; the surrogate pair of two such escapes.\<close>

fun getu4 :: "string \<Rightarrow> (nat \<times> string) option" where
  "getu4 (a # b # c # d # s) =
     (case (hex_val a, hex_val b, hex_val c, hex_val d) of
        (Some w, Some x, Some y, Some z) \<Rightarrow> Some (((w * 16 + x) * 16 + y) * 16 + z, s)
      | _ \<Rightarrow> None)"
| "getu4 _ = None"

definition low_surrogate :: "string \<Rightarrow> (nat \<times> string) option" where
  "low_surrogate s = (case s of
     b # u # r \<Rightarrow> if b = backslash \<and> u = CHR ''u'' then
        (case getu4 r of Some (n, t) \<Rightarrow> if 56320 \<le> n \<and> n < 57344 then Some (n, t) else None | None \<Rightarrow> None) else None
   | _ \<Rightarrow> None)"

definition u_rune :: "nat \<Rightarrow> string \<Rightarrow> string \<times> string" where
  "u_rune n s =
     (if 55296 \<le> n \<and> n < 57344 then
        (case (if n < 56320 then low_surrogate s else None) of
           Some (m, t) \<Rightarrow> (encode_rune (65536 + (n - 55296) * 1024 + (m - 56320)), t)
         | None \<Rightarrow> (encode_rune replacement, s))
      else (encode_rune n, s))"

definition simple_escape :: "char \<Rightarrow> char option" where
  "simple_escape c =
     (if c = dquote \<or> c = backslash \<or> c = CHR ''/'' then Some c
      else if c = CHR ''b'' then Some (char_of (8::nat)) else if c = CHR ''f'' then Some (char_of (12::nat))
      else if c = CHR ''n'' then Some (char_of (10::nat)) else if c = CHR ''r'' then Some (char_of (13::nat))
      else if c = CHR ''t'' then Some (char_of (9::nat)) else None)"

definition prepend :: "string \<Rightarrow> (string \<times> string) option \<Rightarrow> (string \<times> string) option" where
  "prepend xs = map_option (\<lambda>(s, r). (xs @ s, r))"

lemma getu4_shorter: "getu4 s = Some (n, t) \<Longrightarrow> length t < length s"
  by (cases s rule: getu4.cases) (auto split: option.splits)

lemma u_rune_shorter: "length (snd (u_rune n s)) \<le> length s"
proof -
  have "length t < length s" if "low_surrogate s = Some (m, t)" for m t
    using that by (auto simp: low_surrogate_def split: list.splits if_splits option.splits dest: getu4_shorter)
  then show ?thesis by (fastforce simp: u_rune_def split: option.split)
qed

text \<open>The text of a string up to its closing quote, unquoted, and what follows.\<close>

function unquote :: "string \<Rightarrow> (string \<times> string) option" where
  "unquote [] = None"
| "unquote (c # s) =
     (if c = dquote then Some ([], s)
      else if c = backslash then
        (case s of
           [] \<Rightarrow> None
         | e # t \<Rightarrow>
             if e = CHR ''u'' then
               (case getu4 t of None \<Rightarrow> None | Some (n, t') \<Rightarrow> prepend (fst (u_rune n t')) (unquote (snd (u_rune n t'))))
             else (case simple_escape e of None \<Rightarrow> None | Some x \<Rightarrow> prepend [x] (unquote t)))
      else if (of_char c :: nat) < 32 then None
      else (case rune_len (c # s) of
              None \<Rightarrow> prepend (encode_rune replacement) (unquote s)
            | Some k \<Rightarrow> prepend (take k (c # s)) (unquote (drop (k - 1) s))))"
  by pat_completeness auto
termination
proof (relation "measure length", goal_cases)
  case (2 c s e t x n t')
  then show ?case using getu4_shorter [of t n t'] u_rune_shorter [of n t'] by simp
qed auto


text \<open>What survives encoding: every invalid byte replaced.\<close>

function sanitize :: "string \<Rightarrow> string" where
  "sanitize [] = []"
| "sanitize (c # s) =
     (case rune_len (c # s) of
        None \<Rightarrow> encode_rune replacement @ sanitize s
      | Some k \<Rightarrow> take k (c # s) @ sanitize (drop (k - 1) s))"
  by pat_completeness auto
termination by (relation "measure length") auto

definition valid_utf8 :: "string \<Rightarrow> bool" where
  "valid_utf8 s \<longleftrightarrow> sanitize s = s"

definition ascii :: "string \<Rightarrow> bool" where
  "ascii s \<longleftrightarrow> list_all (\<lambda>c. (of_char c :: nat) < 128) s"

lemma ascii_simps [simp]:
  "ascii []" "ascii (c # s) \<longleftrightarrow> (of_char c :: nat) < 128 \<and> ascii s" "ascii (s @ t) \<longleftrightarrow> ascii s \<and> ascii t"
  by (simp_all add: ascii_def)

lemma ascii_valid: "ascii s \<Longrightarrow> sanitize s = s"
  by (induction s) (simp_all add: Let_def)

lemma prepend_simps [simp]: "prepend xs None = None" "prepend xs (Some (s, r)) = Some (xs @ s, r)" "prepend [] x = x"
  by (auto simp: prepend_def case_prod_beta' map_option.id [unfolded id_def])

lemma rune_len_bounds: "rune_len s = Some k \<Longrightarrow> 1 \<le> k \<and> k \<le> length s"
  by (cases s) (auto simp: Let_def split: if_splits list.splits)

lemma rune_len_first:
  assumes "rune_len s = Some k"
  shows "rune_len (take k s @ t) = Some k"
proof (cases s)
  case (Cons a u)
  then show ?thesis using assms by (auto simp: Let_def split: if_splits list.splits)
qed (use assms in simp)

lemma hex_roundtrip: "n < 16 \<Longrightarrow> hex_val (hex_char n) = Some n"
  by (auto simp: hex_val_def hex_char_def Let_def)

lemma getu4_escape:
  assumes "n < 65536"
  shows "getu4 (drop 2 (u_escape n) @ r) = Some (n, r)"
proof -
  have "((n div 4096 mod 16 * 16 + n div 256 mod 16) * 16 + n div 16 mod 16) * 16 + n mod 16 = n"
  proof -
    define a b c where "a = n div 16" and "b = a div 16" and "c = b div 16"
    have "c < 16" using assms by (simp add: a_def b_def c_def div_mult2_eq [symmetric] less_mult_imp_div_less)
    moreover have "n = 16 * a + n mod 16" "a = 16 * b + a mod 16" "b = 16 * c + b mod 16" by (simp_all add: a_def b_def c_def)
    moreover have "n div 4096 = c" "n div 256 = b" by (simp_all add: a_def b_def c_def div_mult2_eq [symmetric])
    ultimately show ?thesis by (simp add: a_def [symmetric])
  qed
  moreover have "n div 4096 mod 16 = n div 4096" "n div 4096 < 16" using assms by (simp_all add: less_mult_imp_div_less)
  ultimately show ?thesis by (simp add: u_escape_def hex_roundtrip)
qed

lemma unquote_u_escape:
  assumes "n < 65536" "n < 55296 \<or> 57344 \<le> n"
  shows "unquote (u_escape n @ r) = prepend (encode_rune n) (unquote r)"
proof -
  have "u_escape n @ r = backslash # CHR ''u'' # drop 2 (u_escape n) @ r" by (simp add: u_escape_def)
  moreover have "u_rune n r = (encode_rune n, r)" using assms(2) by (auto simp: u_rune_def)
  ultimately show ?thesis using getu4_escape [OF assms(1), of r] by (simp only: unquote.simps) (simp add: u_escape_def)
qed

lemma unquote_escape_ascii:
  assumes "(of_char c :: nat) < 128"
  shows "unquote (escape_ascii c @ r) = prepend [c] (unquote r)"
proof -
  let ?n = "of_char c :: nat"
  have c: "c = char_of ?n" by simp
  consider "?n = 34 \<or> ?n = 92" | "?n = 8" | "?n = 12" | "?n = 10" | "?n = 13" | "?n = 9"
    | "?n < 32 \<or> ?n = 38 \<or> ?n = 60 \<or> ?n = 62" "?n \<notin> {8, 9, 10, 12, 13}"
    | "32 \<le> ?n" "?n \<notin> {34, 38, 60, 62, 92}" by fastforce
  then show ?thesis
  proof cases
    case 1
    moreover have "char_of (34::nat) = dquote" "char_of (92::nat) = backslash" by code_simp+
    ultimately have "c = dquote \<or> c = backslash" using c by metis
    then show ?thesis by (auto simp: escape_ascii_def simple_escape_def)
  next
    case 7
    then have "escape_ascii c = u_escape ?n" by (auto simp: escape_ascii_def Let_def)
    moreover have "encode_rune ?n = [c]" using assms c by (simp add: encode_rune_def)
    ultimately show ?thesis using unquote_u_escape [of ?n r] assms by simp
  next
    case 8
    then have "escape_ascii c = [c]" by (auto simp: escape_ascii_def Let_def)
    moreover have "c \<noteq> dquote" "c \<noteq> backslash" using 8(2) by auto
    ultimately show ?thesis using 8 assms by (simp add: Let_def)
  qed (use c in \<open>auto simp: escape_ascii_def simple_escape_def\<close>)
qed

lemma unquote_escape: "unquote (escape s @ dquote # r) = Some (sanitize s, r)"
proof (induction s rule: escape.induct)
  case (2 c s)
  show ?case
  proof (cases "(of_char c :: nat) < 128")
    case True
    then show ?thesis using 2(1) unquote_escape_ascii [OF True, of "escape s @ dquote # r"] by (simp add: Let_def)
  next
    case big: False
    show ?thesis
    proof (cases "rune_len (c # s)")
      case None
      then show ?thesis using 2(2) big unquote_u_escape [of replacement "escape s @ dquote # r"] by simp
    next
      case (Some k)
      let ?u = "take k (c # s)" and ?R = "escape (drop (k - 1) s) @ dquote # r"
      have IH: "unquote ?R = Some (sanitize (drop (k - 1) s), r)" using 2(3) [OF big Some] .
      have u: "?u = c # take (k - 1) s" using rune_len_bounds [OF Some] by (cases k) auto
      have plain: "unquote (?u @ ?R) = prepend ?u (unquote ?R)"
      proof -
        have "rune_len (?u @ ?R) = Some k" using rune_len_first [OF Some] .
        moreover have "c \<noteq> dquote" "c \<noteq> backslash" "\<not> (of_char c :: nat) < 32" using big by auto
        moreover have "take k (?u @ ?R) = ?u" "drop (k - 1) (take (k - 1) s @ ?R) = ?R"
          using rune_len_bounds [OF Some] by auto
        ultimately show ?thesis unfolding u by simp
      qed
      have esc: "unquote ((if ?u = encode_rune 8232 then u_escape 8232 else if ?u = encode_rune 8233 then u_escape 8233 else ?u) @ ?R) =
          prepend ?u (unquote ?R)"
        using plain unquote_u_escape [of 8232 ?R] unquote_u_escape [of 8233 ?R] by simp
      show ?thesis using esc IH Some big by (simp del: append.simps unquote.simps take_Suc_Cons)
    qed
  qed
qed simp


section \<open>Values\<close>

text \<open>A number keeps its literal; the members of an object keep their order and their duplicates.\<close>

datatype json = JNull | JBool bool | JNum string | JStr string | JArr "json list" | JObj "(string \<times> json) list"

fun commas :: "string list \<Rightarrow> string" where
  "commas [] = []"
| "commas [x] = x"
| "commas (x # xs) = x @ CHR '','' # commas xs"

fun print_json :: "json \<Rightarrow> string" where
  "print_json JNull = ''null''"
| "print_json (JBool b) = (if b then ''true'' else ''false'')"
| "print_json (JNum s) = s"
| "print_json (JStr s) = quote_json s"
| "print_json (JArr xs) = CHR ''['' # commas (map print_json xs) @ '']''"
| "print_json (JObj ms) = CHR ''{'' # commas (map (\<lambda>(k, v). quote_json k @ CHR '':'' # print_json v) ms) @ ''}''"

section \<open>The scanner\<close>

definition is_space :: "char \<Rightarrow> bool" where
  "is_space c \<longleftrightarrow> (of_char c :: nat) \<in> {9, 10, 13, 32}"

definition skip_ws :: "string \<Rightarrow> string" where
  "skip_ws = dropWhile is_space"

definition next_tok :: "string \<Rightarrow> (char \<times> string) option" where
  "next_tok s = (case skip_ws s of [] \<Rightarrow> None | c # r \<Rightarrow> Some (c, r))"

definition expect_word :: "string \<Rightarrow> json \<Rightarrow> string \<Rightarrow> (json \<times> string) option" where
  "expect_word w j s = (if take (length w) s = w then Some (j, drop (length w) s) else None)"

definition scan_digits :: "string \<Rightarrow> (string \<times> string) option" where
  "scan_digits s = (if takeWhile is_digit s = [] then None else Some (takeWhile is_digit s, dropWhile is_digit s))"

definition scan_frac :: "string \<Rightarrow> (string \<times> string) option" where
  "scan_frac s = (case s of [] \<Rightarrow> Some ([], s)
     | c # r \<Rightarrow> if c = CHR ''.'' then prepend [c] (scan_digits r) else Some ([], s))"

definition scan_exp :: "string \<Rightarrow> (string \<times> string) option" where
  "scan_exp s = (case s of [] \<Rightarrow> Some ([], s)
     | c # r \<Rightarrow>
         if c = CHR ''e'' \<or> c = CHR ''E'' then
           (case r of [] \<Rightarrow> None
            | g # t \<Rightarrow> if g = CHR ''+'' \<or> g = CHR ''-'' then prepend [c, g] (scan_digits t) else prepend [c] (scan_digits r))
         else Some ([], s))"

definition scan_whole :: "string \<Rightarrow> (string \<times> string) option" where
  "scan_whole s = (case s of c # r \<Rightarrow> if c = CHR ''0'' then Some ([c], r) else scan_digits s | [] \<Rightarrow> None)"

definition scan_number :: "string \<Rightarrow> (string \<times> string) option" where
  "scan_number s =
     (let (sg, s1) = (case s of c # r \<Rightarrow> if c = CHR ''-'' then ([c], r) else ([], s) | [] \<Rightarrow> ([], s))
      in (case scan_whole s1 of None \<Rightarrow> None
          | Some (ip, s2) \<Rightarrow> (case scan_frac s2 of None \<Rightarrow> None
            | Some (fp, s3) \<Rightarrow> prepend (sg @ ip @ fp) (scan_exp s3))))"

text \<open>
  One value after white space, with fuel for the calls and the nesting that is still allowed; the members and
  elements of a non-empty object or array up to its closing bracket.
\<close>

fun parse_value :: "nat \<Rightarrow> nat \<Rightarrow> string \<Rightarrow> (json \<times> string) option"
and parse_members :: "nat \<Rightarrow> nat \<Rightarrow> string \<Rightarrow> ((string \<times> json) list \<times> string) option"
and parse_elems :: "nat \<Rightarrow> nat \<Rightarrow> string \<Rightarrow> (json list \<times> string) option" where
  "parse_value 0 d s = None"
| "parse_value (Suc n) d s =
     (case next_tok s of None \<Rightarrow> None
      | Some (c, r) \<Rightarrow>
          if c = CHR ''{'' then
            (if d = 0 then None
             else (case next_tok r of None \<Rightarrow> None
                   | Some (c', r') \<Rightarrow> if c' = CHR ''}'' then Some (JObj [], r')
                      else map_option (\<lambda>(ms, t). (JObj ms, t)) (parse_members n (d - 1) r)))
          else if c = CHR ''['' then
            (if d = 0 then None
             else (case next_tok r of None \<Rightarrow> None
                   | Some (c', r') \<Rightarrow> if c' = CHR '']'' then Some (JArr [], r')
                      else map_option (\<lambda>(xs, t). (JArr xs, t)) (parse_elems n (d - 1) r)))
          else if c = dquote then map_option (\<lambda>(x, t). (JStr x, t)) (unquote r)
          else if c = CHR ''t'' then expect_word ''true'' (JBool True) (c # r)
          else if c = CHR ''f'' then expect_word ''false'' (JBool False) (c # r)
          else if c = CHR ''n'' then expect_word ''null'' JNull (c # r)
          else if c = CHR ''-'' \<or> is_digit c then map_option (\<lambda>(x, t). (JNum x, t)) (scan_number (c # r))
          else None)"
| "parse_members 0 d s = None"
| "parse_members (Suc n) d s =
     (case next_tok s of None \<Rightarrow> None
      | Some (c, r) \<Rightarrow>
          if c \<noteq> dquote then None
          else (case unquote r of None \<Rightarrow> None
                | Some (k, t) \<Rightarrow>
                    (case next_tok t of None \<Rightarrow> None
                     | Some (c', u) \<Rightarrow>
                         if c' \<noteq> CHR '':'' then None
                         else (case parse_value n d u of None \<Rightarrow> None
                               | Some (v, x) \<Rightarrow>
                                   (case next_tok x of None \<Rightarrow> None
                                    | Some (e, y) \<Rightarrow>
                                        if e = CHR ''}'' then Some ([(k, v)], y)
                                        else if e = CHR '','' then map_option (\<lambda>(ms, z). ((k, v) # ms, z)) (parse_members n d y)
                                        else None)))))"
| "parse_elems 0 d s = None"
| "parse_elems (Suc n) d s =
     (case parse_value n d s of None \<Rightarrow> None
      | Some (v, x) \<Rightarrow>
          (case next_tok x of None \<Rightarrow> None
           | Some (e, y) \<Rightarrow>
               if e = CHR '']'' then Some ([v], y)
               else if e = CHR '','' then map_option (\<lambda>(vs, z). (v # vs, z)) (parse_elems n d y)
               else None))"

definition maxNestingDepth :: nat where
  "maxNestingDepth = 10000"

text \<open>The first value of a stream, as \<open>Decoder.Decode\<close> takes it; the whole input, as \<open>Unmarshal\<close> does.\<close>

definition parse_first :: "string \<Rightarrow> (json \<times> string) option" where
  "parse_first s = parse_value (Suc (2 * length s)) maxNestingDepth s"

definition parse_json :: "string \<Rightarrow> json option" where
  "parse_json s = (case parse_first s of None \<Rightarrow> None | Some (j, r) \<Rightarrow> if skip_ws r = [] then Some j else None)"


section \<open>The fuel is enough\<close>

lemma skip_ws_shorter: "length (skip_ws s) \<le> length s"
  by (simp add: skip_ws_def length_dropWhile_le)

lemma next_tok_shorter: "next_tok s = Some (c, r) \<Longrightarrow> length r < length s"
  using skip_ws_shorter [of s] by (auto simp: next_tok_def split: list.splits)

lemma prepend_Some: "prepend xs x = Some (s, r) \<longleftrightarrow> (\<exists>s'. x = Some (s', r) \<and> s = xs @ s')"
  by (cases x) (auto simp: prepend_def)

lemma unquote_shorter: "unquote s = Some (x, r) \<Longrightarrow> length r < length s"
proof (induction s arbitrary: x r rule: unquote.induct)
  case (2 c s)
  note step = 2
  consider "c = dquote" | "c = backslash" | "c \<noteq> dquote" "c \<noteq> backslash" by blast
  then show ?case
  proof cases
    case 2
    then obtain e t where s: "s = e # t" using step(5) by (auto split: list.splits)
    show ?thesis
    proof (cases "e = CHR ''u''")
      case True
      then obtain n t' x' where g: "getu4 t = Some (n, t')" "unquote (snd (u_rune n t')) = Some (x', r)"
        using step(5) 2 s by (auto simp: prepend_Some split: option.splits)
      from step(1) [OF _ _ s True g(1) refl, of x' r] g 2 show ?thesis
        using getu4_shorter [OF g(1)] u_rune_shorter [of n t'] s by force
    next
      case False
      then obtain y x' where "simple_escape e = Some y" "unquote t = Some (x', r)"
        using step(5) 2 s by (auto simp: prepend_Some split: option.splits)
      from step(2) [OF _ _ s False this(1), of x' r] this 2 s show ?thesis by force
    qed
  next
    case 3
    show ?thesis
    proof (cases "rune_len (c # s)")
      case None
      with 3 step(3,5) show ?thesis by (fastforce simp: prepend_Some split: if_splits)
    next
      case (Some k)
      with 3 step(5) obtain x' where "unquote (drop (k - 1) s) = Some (x', r)" "\<not> (of_char c :: nat) < 32"
        by (fastforce simp: prepend_Some split: if_splits)
      from step(4) [OF 3 this(2) Some this(1)] show ?thesis by simp
    qed
  qed (use step in simp)
qed simp

lemma scan_digits_shorter: "scan_digits s = Some (x, r) \<Longrightarrow> length r < length s"
  by (cases s) (auto simp: scan_digits_def length_dropWhile_le le_imp_less_Suc split: if_splits)

lemma scan_number_shorter:
  assumes "scan_number s = Some (x, r)"
  shows "length r < length s"
proof -
  have frac: "length r \<le> length s" if "scan_frac s = Some (x, r)" for s x r
    using that by (auto simp: scan_frac_def prepend_Some dest!: scan_digits_shorter split: list.splits if_splits)
  have exp: "length r \<le> length s" if "scan_exp s = Some (x, r)" for s x r
    using that by (auto simp: scan_exp_def prepend_Some dest!: scan_digits_shorter split: list.splits if_splits)
  have whole: "length r < length s" if "scan_whole s = Some (x, r)" for s x r
    using that by (auto simp: scan_whole_def dest!: scan_digits_shorter split: list.splits if_splits)
  show ?thesis
    using assms by (auto simp: scan_number_def prepend_Some Let_def split: prod.splits list.splits option.splits if_splits
        dest!: frac exp whole)
qed

lemma expect_word_shorter: "expect_word w j s = Some (x, r) \<Longrightarrow> w \<noteq> [] \<Longrightarrow> length r < length s"
  by (cases s) (auto simp: expect_word_def split: if_splits)


lemma shorter_value:
  assumes "parse_value (Suc n) d s = Some (j, r)"
    and m: "\<And>t ms r. parse_members n (d - 1) t = Some (ms, r) \<Longrightarrow> length r < length t"
    and e: "\<And>t ms r. parse_elems n (d - 1) t = Some (ms, r) \<Longrightarrow> length r < length t"
  shows "length r < length s"
proof -
  obtain c t where c: "next_tok s = Some (c, t)" using assms(1) by (cases "next_tok s") (simp, fastforce)
  then have t: "length t < length s" using next_tok_shorter by fastforce
  note eq = assms(1) [unfolded parse_value.simps c option.case prod.case]
  consider "c = CHR ''{''" | "c = CHR ''[''" | "c = dquote" "\<exists>x. unquote t = Some (x, r)" | w v where "w \<noteq> []" "expect_word w v (c # t) = Some (j, r)"
    | x where "scan_number (c # t) = Some (x, r)"
  proof -
    consider "c = CHR ''{''" | "c = CHR ''[''" | "c = dquote" | "c \<noteq> CHR ''{''" "c \<noteq> CHR ''[''" "c \<noteq> dquote" by blast
    then show thesis
    proof cases
      case 3
      then show thesis using eq that(3) by simp blast
    next
      case 4
      note eq' = eq [unfolded if_not_P [OF 4(1)] if_not_P [OF 4(2)] if_not_P [OF 4(3)]]
      show thesis
        using eq' that(4) [of "''true''"] that(4) [of "''false''"] that(4) [of "''null''"] that(5) by (simp split: if_split_asm) blast
    qed (use that in blast)+
  qed
  then show ?thesis
  proof cases
    case 1
    then obtain e u where u: "next_tok t = Some (e, u)" using eq by (auto split: if_splits option.splits)
    then have "r = u \<or> (\<exists>ms. parse_members n (d - 1) t = Some (ms, r))" using eq 1 by (auto split: if_splits)
    then show ?thesis using m next_tok_shorter [OF u] t by force
  next
    case 2
    then obtain e u where u: "next_tok t = Some (e, u)" using eq by (auto split: if_splits option.splits)
    then have "r = u \<or> (\<exists>ms. parse_elems n (d - 1) t = Some (ms, r))" using eq 2 by (auto split: if_splits)
    then show ?thesis using e next_tok_shorter [OF u] t by force
  next
    case 3
    then show ?thesis using unquote_shorter [of t] t by auto
  next
    case (4 w v)
    then show ?thesis using expect_word_shorter [OF 4(2,1)] t by simp
  next
    case (5 x)
    then show ?thesis using scan_number_shorter [OF 5] t by simp
  qed
qed
lemma shorter_members:
  assumes "parse_members (Suc n) d s = Some (ms, r)"
    and v: "\<And>t j r. parse_value n d t = Some (j, r) \<Longrightarrow> length r < length t"
    and m: "\<And>t ms r. parse_members n d t = Some (ms, r) \<Longrightarrow> length r < length t"
  shows "length r < length s"
proof -
  from assms(1) obtain c r1 k t u w x e y where x: "next_tok s = Some (c, r1)" "unquote r1 = Some (k, t)" "next_tok t = Some (CHR '':'', u)"
      "parse_value n d u = Some (w, x)" "next_tok x = Some (e, y)"
      "r = y \<or> (\<exists>ms'. parse_members n d y = Some (ms', r))"
    by (auto split: if_splits option.splits)
  then have "length r \<le> length y" using m by force
  with next_tok_shorter [OF x(1)] unquote_shorter [OF x(2)] next_tok_shorter [OF x(3)] next_tok_shorter [OF x(5)] v [OF x(4)]
  show ?thesis by linarith
qed
lemma shorter_elems:
  assumes "parse_elems (Suc n) d s = Some (ms, r)"
    and v: "\<And>t j r. parse_value n d t = Some (j, r) \<Longrightarrow> length r < length t"
    and m: "\<And>t ms r. parse_elems n d t = Some (ms, r) \<Longrightarrow> length r < length t"
  shows "length r < length s"
proof -
  from assms(1) obtain w x e y where x: "parse_value n d s = Some (w, x)" "next_tok x = Some (e, y)"
      "r = y \<or> (\<exists>ms'. parse_elems n d y = Some (ms', r))"
    by (auto split: if_splits option.splits)
  then have "length r \<le> length y" using m by force
  with next_tok_shorter [OF x(2)] v [OF x(1)] show ?thesis by linarith
qed
lemma parse_shorter:
  "parse_value n d s = Some (j, r) \<Longrightarrow> length r < length s"
  "parse_members n d s = Some (ms, r) \<Longrightarrow> length r < length s"
  "parse_elems n d s = Some (xs, r) \<Longrightarrow> length r < length s"
proof (induction n arbitrary: d s j r ms xs)
  case (Suc n)
  { case 1 show ?case by (rule shorter_value [OF 1 Suc(2,3)]) }
  { case 2 show ?case by (rule shorter_members [OF 2 Suc(1,2)]) }
  { case 3 show ?case by (rule shorter_elems [OF 3 Suc(1,3)]) }
qed simp_all

lemma fuel_value:
  assumes "2 * length s < Suc n"
    and m: "\<And>t. 2 * length t < n \<Longrightarrow> parse_members (Suc n) (d - 1) t = parse_members n (d - 1) t"
    and e: "\<And>t. Suc (2 * length t) < n \<Longrightarrow> parse_elems (Suc n) (d - 1) t = parse_elems n (d - 1) t"
  shows "parse_value (Suc (Suc n)) d s = parse_value (Suc n) d s"
proof (cases "next_tok s")
  case (Some ct)
  obtain c t where ct: "ct = (c, t)" by fastforce
  then have "length t < length s" using Some next_tok_shorter by simp
  then have l: "2 * length t < n" "Suc (2 * length t) < n" using assms(1) by simp_all
  note eqs = m [OF l(1)] e [OF l(2)]
  show ?thesis
    unfolding parse_value.simps(2) [of "Suc n" d s] parse_value.simps(2) [of n d s] Some ct option.case prod.case eqs ..
qed simp

lemma fuel_members:
  assumes "2 * length s < Suc n"
    and v: "\<And>t. 2 * length t < n \<Longrightarrow> parse_value (Suc n) d t = parse_value n d t"
    and m: "\<And>t. 2 * length t < n \<Longrightarrow> parse_members (Suc n) d t = parse_members n d t"
  shows "parse_members (Suc (Suc n)) d s = parse_members (Suc n) d s"
proof -
  have v': "parse_value (Suc n) d u = parse_value n d u" if "next_tok s = Some (c, r)" "unquote r = Some (k, t)"
      "next_tok t = Some (c', u)" for c r k t c' u
    using next_tok_shorter [OF that(1)] unquote_shorter [OF that(2)] next_tok_shorter [OF that(3)] assms(1) by (intro v) simp
  have m': "parse_members (Suc n) d y = parse_members n d y" if "next_tok s = Some (c, r)" "unquote r = Some (k, t)"
      "next_tok t = Some (c', u)" "parse_value n d u = Some (w, x)" "next_tok x = Some (e, y)" for c r k t c' u w x e y
    using next_tok_shorter [OF that(1)] unquote_shorter [OF that(2)] next_tok_shorter [OF that(3)] parse_shorter(1) [OF that(4)]
      next_tok_shorter [OF that(5)] assms(1) by (intro m) simp
  show ?thesis
    unfolding parse_members.simps(2) [of "Suc n" d s] parse_members.simps(2) [of n d s]
    by (auto simp: v' m' split: option.split simp del: parse_value.simps parse_members.simps)
qed

lemma fuel_elems:
  assumes "Suc (2 * length s) < Suc n"
    and v: "\<And>t. 2 * length t < n \<Longrightarrow> parse_value (Suc n) d t = parse_value n d t"
    and m: "\<And>t. Suc (2 * length t) < n \<Longrightarrow> parse_elems (Suc n) d t = parse_elems n d t"
  shows "parse_elems (Suc (Suc n)) d s = parse_elems (Suc n) d s"
proof -
  have m': "parse_elems (Suc n) d y = parse_elems n d y" if "parse_value n d s = Some (w, x)" "next_tok x = Some (e, y)" for w x e y
    using next_tok_shorter [OF that(2)] parse_shorter(1) [OF that(1)] assms(1) by (intro m) simp
  have v': "parse_value (Suc n) d s = parse_value n d s" using assms(1) by (intro v) simp
  show ?thesis
    unfolding parse_elems.simps(2) [of "Suc n" d s] parse_elems.simps(2) [of n d s] v'
    by (auto simp: m' split: option.split simp del: parse_value.simps parse_elems.simps)
qed

lemma parse_fuel:
  "2 * length s < n \<Longrightarrow> parse_value (Suc n) d s = parse_value n d s"
  "2 * length s < n \<Longrightarrow> parse_members (Suc n) d s = parse_members n d s"
  "Suc (2 * length s) < n \<Longrightarrow> parse_elems (Suc n) d s = parse_elems n d s"
proof (induction n arbitrary: d s)
  case (Suc n)
  { case 1 show ?case by (rule fuel_value [OF 1 Suc(2,3)]) }
  { case 2 show ?case by (rule fuel_members [OF 2 Suc(1,2)]) }
  { case 3 show ?case by (rule fuel_elems [OF 3 Suc(1,3)]) }
qed simp_all

text \<open>Any larger fuel gives the same answer.\<close>

lemma parse_enough: "2 * length s < n \<Longrightarrow> parse_value n d s = parse_value (Suc (2 * length s)) d s"
proof (induction n)
  case (Suc n)
  then show ?case by (cases "2 * length s < n") (auto simp: parse_fuel(1) less_Suc_eq simp del: parse_value.simps)
qed simp


section \<open>What is printed is read back\<close>

definition int_literal :: "string \<Rightarrow> bool" where
  "int_literal s \<longleftrightarrow> (\<exists>n. s = FormatInt n)"

fun json_ok :: "json \<Rightarrow> bool" where
  "json_ok (JNum s) \<longleftrightarrow> int_literal s"
| "json_ok (JStr s) \<longleftrightarrow> valid_utf8 s"
| "json_ok (JArr xs) \<longleftrightarrow> list_all json_ok xs"
| "json_ok (JObj ms) \<longleftrightarrow> list_all (\<lambda>(k, v). valid_utf8 k \<and> json_ok v) ms"
| "json_ok j \<longleftrightarrow> True"

fun nesting :: "json \<Rightarrow> nat" where
  "nesting (JArr xs) = Suc (foldr max (map nesting xs) 0)"
| "nesting (JObj ms) = Suc (foldr max (map (\<lambda>(k, v). nesting v) ms) 0)"
| "nesting j = 0"

fun calls :: "json \<Rightarrow> nat" where
  "calls (JArr xs) = Suc (sum_list (map (\<lambda>x. Suc (calls x)) xs))"
| "calls (JObj ms) = Suc (sum_list (map (\<lambda>(k, v). Suc (calls v)) ms))"
| "calls j = 1"

text \<open>What may follow a number here: the end, punctuation, a newline.\<close>

definition delimited :: "string \<Rightarrow> bool" where
  "delimited r \<longleftrightarrow> r = [] \<or> hd r \<in> {CHR '','', CHR '']'', CHR ''}'', CHR 0x0A}"

lemma delimited_simps [simp]: "delimited []" "delimited (CHR '','' # r)" "delimited (CHR '']'' # r)" "delimited (CHR ''}'' # r)"
    "delimited (CHR 0x0A # r)"
  by (simp_all add: delimited_def)

lemma next_tok_Cons: "\<not> is_space c \<Longrightarrow> next_tok (c # r) = Some (c, r)"
  by (simp add: next_tok_def skip_ws_def)

lemma digit_not_space: "is_digit c \<Longrightarrow> \<not> is_space c"
  by (auto simp: is_digit_def is_space_def)

lemma not_space [simp]:
  "\<not> is_space (CHR '','')" "\<not> is_space (CHR '':'')" "\<not> is_space (CHR ''{'')" "\<not> is_space (CHR ''}'')" "\<not> is_space (CHR ''['')"
  "\<not> is_space (CHR '']'')" "\<not> is_space dquote" "\<not> is_space (CHR ''-'')" "\<not> is_space (CHR ''t'')" "\<not> is_space (CHR ''f'')" "\<not> is_space (CHR ''n'')"
  by (simp_all add: is_space_def)

lemma delimited_no_digit: "delimited r \<Longrightarrow> takeWhile is_digit r = [] \<and> dropWhile is_digit r = r \<and> scan_frac r = Some ([], r) \<and> scan_exp r = Some ([], r)"
  by (cases r) (auto simp: delimited_def is_digit_def scan_frac_def scan_exp_def)

lemma digit_char_0: "digit_char 0 = CHR ''0''"
  by code_simp

lemma print_nat_zero: "hd (print_nat n) = CHR ''0'' \<Longrightarrow> n = 0"
proof (induction n rule: print_nat.induct)
  case (1 n)
  show ?case
  proof (cases "n < 10")
    case True
    then have "digit_char n = digit_char 0" using 1(2) digit_char_0 by (subst (asm) print_nat.simps) simp
    then show ?thesis using digit_char_props(2) [of n] digit_char_props(2) [of 0] True by simp
  next
    case False
    then have "hd (print_nat n) = hd (print_nat (n div 10))" by (subst print_nat.simps) (simp add: print_nat_nonempty)
    then have "n div 10 = 0" using 1 False by simp
    with False show ?thesis by simp
  qed
qed

lemma scan_whole_print:
  assumes "delimited r"
  shows "scan_whole (print_nat n @ r) = Some (print_nat n, r)"
proof (cases "n = 0")
  case True
  then have "print_nat n = ''0''" by (subst print_nat.simps) (simp add: digit_char_0)
  then show ?thesis by (simp add: scan_whole_def)
next
  case False
  obtain c t where c: "print_nat n = c # t" using print_nat_nonempty by (cases "print_nat n") auto
  have "c \<noteq> CHR ''0''" using print_nat_zero [of n] c False by auto
  moreover have d: "\<forall>x\<in>set (print_nat n). is_digit x" using print_nat_digits by blast
  have "takeWhile is_digit (print_nat n @ r) = print_nat n" "dropWhile is_digit (print_nat n @ r) = r"
    using d delimited_no_digit [OF assms] by (simp_all add: takeWhile_append2 dropWhile_append2)
  ultimately show ?thesis using c by (simp add: scan_whole_def scan_digits_def)
qed

lemma scan_number_FormatInt:
  assumes "delimited r"
  shows "scan_number (FormatInt n @ r) = Some (FormatInt n, r)"
proof (cases "n < 0")
  case True
  then show ?thesis
    using scan_whole_print [OF assms] delimited_no_digit [OF assms] by (simp add: FormatInt_def scan_number_def)
next
  case False
  obtain c t where c: "print_nat (nat n) = c # t" using print_nat_nonempty by (cases "print_nat (nat n)") auto
  then have "c \<noteq> CHR ''-''" using print_nat_digits [of c "nat n"] is_digit_not_sign by auto
  then show ?thesis
    using False scan_whole_print [OF assms, of "nat n"] delimited_no_digit [OF assms] c by (simp add: FormatInt_def scan_number_def)
qed


lemma unquote_quote: "valid_utf8 s \<Longrightarrow> unquote (tl (quote_json s) @ r) = Some (s, r)"
  by (simp add: quote_json_def unquote_escape valid_utf8_def)

lemma quote_hd: "quote_json s = dquote # tl (quote_json s)"
  by (simp add: quote_json_def)

lemma FormatInt_nonempty: "FormatInt n \<noteq> []"
  by (simp add: FormatInt_def print_nat_nonempty)

lemma int_literal_first:
  assumes "int_literal s"
  obtains c t where "s = c # t" "c = CHR ''-'' \<or> is_digit c"
proof -
  obtain c t where "s = c # t" using assms FormatInt_nonempty unfolding int_literal_def by (metis neq_Nil_conv)
  moreover from this obtain n where "c # t = FormatInt n" using assms by (auto simp: int_literal_def)
  then have "c = CHR ''-'' \<or> is_digit c"
    using print_nat_digits [of c "nat n"] by (auto simp: FormatInt_def split: if_splits) (metis list.set_intros(1))
  ultimately show thesis using that by blast
qed

lemma parse_print_num:
  assumes "int_literal s" "delimited r"
  shows "parse_value (Suc n) d (s @ r) = Some (JNum s, r)"
proof -
  obtain c t where c: "s = c # t" "c = CHR ''-'' \<or> is_digit c" using assms(1) by (rule int_literal_first)
  have "next_tok (s @ r) = Some (c, t @ r)" using c digit_not_space by (auto simp: next_tok_Cons)
  moreover have "c \<notin> {CHR ''{'', CHR ''['', dquote, CHR ''t'', CHR ''f'', CHR ''n''}" using c(2) by (auto simp: is_digit_def)
  moreover have "scan_number (c # t @ r) = Some (s, r)" using scan_number_FormatInt [OF assms(2)] assms(1) c(1) unfolding int_literal_def by (metis append_Cons)
  ultimately show ?thesis using c(2) by simp
qed


definition readable :: "json \<Rightarrow> bool" where
  "readable v \<longleftrightarrow> (\<forall>n d r. calls v \<le> n \<longrightarrow> nesting v \<le> d \<longrightarrow> delimited r \<longrightarrow> parse_value n d (print_json v @ r) = Some (v, r))"

lemma parse_print_members:
  assumes "ms \<noteq> []" "\<forall>(k, v)\<in>set ms. valid_utf8 k \<and> readable v \<and> nesting v \<le> d"
    and "sum_list (map (\<lambda>(k, v). Suc (calls v)) ms) \<le> n"
  shows "parse_members n d (commas (map (\<lambda>(k, v). quote_json k @ CHR '':'' # print_json v) ms) @ CHR ''}'' # r) = Some (ms, r)"
  using assms
proof (induction ms arbitrary: n)
  case (Cons kv ms)
  obtain k v where kv: "kv = (k, v)" by fastforce
  obtain n' where n: "n = Suc n'" "calls v \<le> n'" "sum_list (map (\<lambda>(k, v). Suc (calls v)) ms) \<le> n'"
    using Cons.prems(3) kv by (cases n) auto
  have k: "valid_utf8 k" and v: "parse_value n' d (print_json v @ x) = Some (v, x)" if "delimited x" for x
    using Cons.prems(2) kv n(2) that by (auto simp: readable_def)
  have head: "next_tok (quote_json k @ x) = Some (dquote, tl (quote_json k) @ x)" for x
    by (subst quote_hd) (simp add: next_tok_Cons)
  show ?case
  proof (cases "ms = []")
    case True
    then show ?thesis
      using head v [of "CHR ''}'' # r"] k [of "[]"] unquote_quote by (simp add: kv n(1) next_tok_Cons)
  next
    case False
    let ?rest = "commas (map (\<lambda>(k, v). quote_json k @ CHR '':'' # print_json v) ms) @ CHR ''}'' # r"
    have c: "commas (map (\<lambda>(k, v). quote_json k @ CHR '':'' # print_json v) (kv # ms)) @ CHR ''}'' # r =
        quote_json k @ CHR '':'' # print_json v @ CHR '','' # ?rest"
      using False kv by (cases ms) auto
    have "parse_members n' d ?rest = Some (ms, r)" using Cons.IH [OF False _ n(3)] Cons.prems(2) by simp
    then show ?thesis
      unfolding c using head v [of "CHR '','' # ?rest"] k [of "[]"] unquote_quote by (simp add: kv n(1) next_tok_Cons)
  qed
qed simp

lemma parse_print_elems:
  assumes "xs \<noteq> []" "\<forall>v\<in>set xs. readable v \<and> nesting v \<le> d" "sum_list (map (\<lambda>v. Suc (calls v)) xs) \<le> n"
  shows "parse_elems n d (commas (map print_json xs) @ CHR '']'' # r) = Some (xs, r)"
  using assms
proof (induction xs arbitrary: n)
  case (Cons v xs)
  obtain n' where n: "n = Suc n'" "calls v \<le> n'" "sum_list (map (\<lambda>v. Suc (calls v)) xs) \<le> n'"
    using Cons.prems(3) by (cases n) auto
  have v: "parse_value n' d (print_json v @ x) = Some (v, x)" if "delimited x" for x
    using Cons.prems(2) n(2) that by (auto simp: readable_def)
  show ?case
  proof (cases "xs = []")
    case True
    then show ?thesis using v [of "CHR '']'' # r"] by (simp add: n(1) next_tok_Cons)
  next
    case False
    let ?rest = "commas (map print_json xs) @ CHR '']'' # r"
    have c: "commas (map print_json (v # xs)) @ CHR '']'' # r = print_json v @ CHR '','' # ?rest" using False by (cases xs) auto
    have "parse_elems n' d ?rest = Some (xs, r)" using Cons.IH [OF False _ n(3)] Cons.prems(2) by simp
    then show ?thesis unfolding c using v [of "CHR '','' # ?rest"] by (simp add: n(1) next_tok_Cons)
  qed
qed simp

lemma foldr_max_bound: "foldr max (map f xs) 0 \<le> d \<longleftrightarrow> (\<forall>x\<in>set xs. f x \<le> (d :: nat))"
  by (induction xs) auto

lemma print_first:
  assumes "json_ok j"
  obtains c t where "print_json j = c # t" "\<not> is_space c" "c \<noteq> CHR '']''"
proof (cases j)
  case (JNum s)
  obtain c t where c: "s = c # t" "c = CHR ''-'' \<or> is_digit c" using assms JNum by (auto elim: int_literal_first)
  then have "\<not> is_space c" "c \<noteq> CHR '']''" using digit_not_space by (auto simp: is_digit_def)
  then show thesis using that [of c t] JNum c(1) by simp
next
  case (JStr s)
  then show thesis using that quote_hd [of s] by auto
next
  case (JBool b)
  then show thesis using that by (cases b) auto
qed (use that in auto)

lemma readable_array:
  assumes "list_all json_ok xs" "\<forall>v\<in>set xs. readable v"
  shows "readable (JArr xs)"
  unfolding readable_def
proof (intro allI impI)
  fix n d r assume nd: "calls (JArr xs) \<le> n" "nesting (JArr xs) \<le> d"
  then obtain n' d' where n: "n = Suc n'" "sum_list (map (\<lambda>v. Suc (calls v)) xs) \<le> n'" "d = Suc d'" "\<forall>v\<in>set xs. nesting v \<le> d'"
    by (cases n; cases d) (auto simp: foldr_max_bound)
  show "parse_value n d (print_json (JArr xs) @ r) = Some (JArr xs, r)"
  proof (cases xs)
    case (Cons v vs)
    then obtain c t where c: "print_json v = c # t" "\<not> is_space c" "c \<noteq> CHR '']''" using assms(1) print_first by auto
    have "\<exists>y. next_tok (commas (map print_json xs) @ CHR '']'' # r) = Some (c, y)"
      using Cons c by (cases vs) (auto simp: next_tok_Cons)
    moreover have "parse_elems n' d' (commas (map print_json xs) @ CHR '']'' # r) = Some (xs, r)"
      using parse_print_elems [of xs d' n' r] Cons assms(2) n by auto
    ultimately show ?thesis using n c(3) by (auto simp: next_tok_Cons)
  qed (use n in \<open>simp add: next_tok_Cons\<close>)
qed

lemma readable_object:
  assumes "\<forall>(k, v)\<in>set ms. valid_utf8 k \<and> readable v"
  shows "readable (JObj ms)"
  unfolding readable_def
proof (intro allI impI)
  fix n d r assume nd: "calls (JObj ms) \<le> n" "nesting (JObj ms) \<le> d"
  then obtain n' d' where n: "n = Suc n'" "sum_list (map (\<lambda>(k, v). Suc (calls v)) ms) \<le> n'" "d = Suc d'" "\<forall>(k, v)\<in>set ms. nesting v \<le> d'"
    by (cases n; cases d) (auto simp: foldr_max_bound case_prod_beta')
  let ?text = "commas (map (\<lambda>(k, v). quote_json k @ CHR '':'' # print_json v) ms) @ CHR ''}'' # r"
  show "parse_value n d (print_json (JObj ms) @ r) = Some (JObj ms, r)"
  proof (cases ms)
    case (Cons kv vs)
    have "\<exists>y. next_tok ?text = Some (dquote, y)"
      using Cons by (cases kv; cases vs) (auto simp: next_tok_Cons quote_json_def)
    moreover have "parse_members n' d' ?text = Some (ms, r)"
      using parse_print_members [of ms d' n' r] Cons assms n by fastforce
    ultimately show ?thesis using n by (auto simp: next_tok_Cons)
  qed (use n in \<open>simp add: next_tok_Cons\<close>)
qed

lemma print_json_readable: "json_ok j \<Longrightarrow> readable j"
proof (induction j)
  case (JArr xs)
  then show ?case by (intro readable_array) (auto simp: list_all_iff)
next
  case (JObj ms)
  then show ?case by (intro readable_object) (fastforce simp: list_all_iff)
next
  case (JNum s)
  show ?case unfolding readable_def
  proof (intro allI impI)
    fix n d r assume "calls (JNum s) \<le> n" "delimited r"
    then show "parse_value n d (print_json (JNum s) @ r) = Some (JNum s, r)"
      using parse_print_num [of s r "n - 1" d] JNum by simp
  qed
next
  case (JStr s)
  have "parse_value (Suc n) d (quote_json s @ r) = Some (JStr s, r)" for n d r
    using JStr unquote_quote [of s r] by (subst quote_hd) (simp add: next_tok_Cons)
  then show ?case by (auto simp: readable_def dest!: Suc_le_D)
next
  case (JBool b)
  show ?case by (auto simp: readable_def next_tok_Cons expect_word_def dest!: Suc_le_D)
next
  case JNull
  show ?case by (auto simp: readable_def next_tok_Cons expect_word_def dest!: Suc_le_D)
qed


lemma commas_length: "xs \<noteq> [] \<Longrightarrow> Suc (length (commas xs)) = sum_list (map (\<lambda>x. Suc (length x)) xs)"
  by (induction xs rule: commas.induct) auto

lemma calls_length: "json_ok j \<Longrightarrow> calls j \<le> length (print_json j)"
proof (induction j)
  case (JArr xs)
  then have "sum_list (map (\<lambda>x. Suc (calls x)) xs) \<le> sum_list (map (\<lambda>x. Suc (length (print_json x))) xs)"
    by (intro sum_list_mono) (auto simp: list_all_iff)
  then show ?case using commas_length [of "map print_json xs"] by (cases "xs = []") (auto simp: comp_def)
next
  case (JObj ms)
  then have "sum_list (map (\<lambda>(k, v). Suc (calls v)) ms) \<le> sum_list (map (\<lambda>(k, v). Suc (length (quote_json k @ CHR '':'' # print_json v))) ms)"
    by (intro sum_list_mono) (fastforce simp: list_all_iff)
  then show ?case
    using commas_length [of "map (\<lambda>(k, v). quote_json k @ CHR '':'' # print_json v) ms"] by (cases "ms = []") (auto simp: comp_def case_prod_beta')
next
  case (JNum s)
  then show ?case by (auto elim: int_literal_first)
qed (auto simp: quote_json_def)

lemma readableD: "readable v \<Longrightarrow> calls v \<le> n \<Longrightarrow> nesting v \<le> d \<Longrightarrow> delimited r \<Longrightarrow> parse_value n d (print_json v @ r) = Some (v, r)"
  by (simp add: readable_def)

lemma parse_print_first:
  assumes "json_ok j" "nesting j \<le> maxNestingDepth" "delimited r"
  shows "parse_first (print_json j @ r) = Some (j, r)"
proof -
  have "calls j \<le> Suc (2 * length (print_json j @ r))" using calls_length [OF assms(1)] by simp
  from readableD [OF print_json_readable [OF assms(1)] this assms(2,3)] show ?thesis by (simp add: parse_first_def del: parse_value.simps)
qed

lemma parse_print:
  assumes "json_ok j" "nesting j \<le> maxNestingDepth"
  shows "parse_json (print_json j) = Some j" "parse_json (print_json j @ [CHR 0x0A]) = Some j"
  using parse_print_first [OF assms delimited_simps(1)] parse_print_first [OF assms delimited_simps(5)]
  by (simp_all add: parse_json_def skip_ws_def is_space_def)

section \<open>Decoding into a struct\<close>

text \<open>
  A struct type is the list of its fields: the name of the tag, and what a JSON value does to the record, \<open>None\<close>
  for a value of the wrong type. Such an error is saved while decoding goes on; a name that matches no field,
  not even up to case, is skipped.
\<close>

type_synonym 'r field = "string \<times> (json \<Rightarrow> ('r \<Rightarrow> 'r) option)"

text \<open>\<open>foldName\<close>: letters in upper case, with the two non-ASCII runes that fold to a letter.\<close>

fun fold_name :: "string \<Rightarrow> string" where
  "fold_name [] = []"
| "fold_name (a # s) =
     (if a = CHR 0xC5 \<and> take 1 s = [CHR 0xBF] then CHR ''S'' # fold_name (drop 1 s)
      else if a = CHR 0xE2 \<and> take 2 s = [CHR 0x84, CHR 0xAA] then CHR ''K'' # fold_name (drop 2 s)
      else (if 97 \<le> (of_char a :: nat) \<and> (of_char a :: nat) \<le> 122 then char_of ((of_char a :: nat) - 32) else a) # fold_name s)"

definition lookup_field :: "'r field list \<Rightarrow> string \<Rightarrow> (json \<Rightarrow> ('r \<Rightarrow> 'r) option) option" where
  "lookup_field fields k =
     (case map_of fields k of
        Some f \<Rightarrow> Some f
      | None \<Rightarrow> map_option snd (find (\<lambda>(n, f). fold_name n = fold_name k) fields))"

definition decode_member :: "'r field list \<Rightarrow> string \<times> json \<Rightarrow> 'r \<times> bool \<Rightarrow> 'r \<times> bool" where
  "decode_member fields kv acc =
     (case lookup_field fields (fst kv) of
        None \<Rightarrow> acc
      | Some f \<Rightarrow> (case f (snd kv) of None \<Rightarrow> (fst acc, False) | Some g \<Rightarrow> (g (fst acc), snd acc)))"

definition decode_into :: "'r field list \<Rightarrow> 'r \<Rightarrow> json \<Rightarrow> 'r \<times> bool" where
  "decode_into fields r j =
     (case j of JObj ms \<Rightarrow> fold (decode_member fields) ms (r, True) | JNull \<Rightarrow> (r, True) | _ \<Rightarrow> (r, False))"

text \<open>\<open>json.Unmarshal(data, &r)\<close>: the record and whether the error is nil. A text that does not parse changes nothing.\<close>

definition Unmarshal :: "'r field list \<Rightarrow> 'r \<Rightarrow> string \<Rightarrow> 'r \<times> bool" where
  "Unmarshal fields r s = (case parse_json s of None \<Rightarrow> (r, False) | Some j \<Rightarrow> decode_into fields r j)"

text \<open>Fields of the types the repository decodes. A null leaves a value as it is and clears a pointer.\<close>

definition string_field :: "(string \<Rightarrow> 'r \<Rightarrow> 'r) \<Rightarrow> json \<Rightarrow> ('r \<Rightarrow> 'r) option" where
  "string_field upd v = (case v of JStr s \<Rightarrow> Some (upd s) | JNull \<Rightarrow> Some id | _ \<Rightarrow> None)"

definition int_field :: "(int64 \<Rightarrow> 'r \<Rightarrow> 'r) \<Rightarrow> json \<Rightarrow> ('r \<Rightarrow> 'r) option" where
  "int_field upd v = (case v of JNum s \<Rightarrow> map_option upd (ParseInt s) | JNull \<Rightarrow> Some id | _ \<Rightarrow> None)"

definition int_pointer_field :: "(int64 option \<Rightarrow> 'r \<Rightarrow> 'r) \<Rightarrow> json \<Rightarrow> ('r \<Rightarrow> 'r) option" where
  "int_pointer_field upd v = (case v of JNum s \<Rightarrow> map_option (\<lambda>n. upd (Some n)) (ParseInt s) | JNull \<Rightarrow> Some (upd None) | _ \<Rightarrow> None)"

definition text_field :: "(string \<Rightarrow> 'a option) \<Rightarrow> ('a \<Rightarrow> 'r \<Rightarrow> 'r) \<Rightarrow> json \<Rightarrow> ('r \<Rightarrow> 'r) option" where
  "text_field unmarshalText upd v = (case v of JStr s \<Rightarrow> map_option upd (unmarshalText s) | JNull \<Rightarrow> Some id | _ \<Rightarrow> None)"

definition text_pointer_field :: "(string \<Rightarrow> 'a option) \<Rightarrow> ('a option \<Rightarrow> 'r \<Rightarrow> 'r) \<Rightarrow> json \<Rightarrow> ('r \<Rightarrow> 'r) option" where
  "text_pointer_field unmarshalText upd v =
     (case v of JStr s \<Rightarrow> map_option (\<lambda>x. upd (Some x)) (unmarshalText s) | JNull \<Rightarrow> Some (upd None) | _ \<Rightarrow> None)"

text \<open>Different fields of a struct do not interfere, so the order of the members does not matter.\<close>

definition apart :: "(json \<Rightarrow> ('r \<Rightarrow> 'r) option) \<Rightarrow> (json \<Rightarrow> ('r \<Rightarrow> 'r) option) \<Rightarrow> bool" where
  "apart f f' \<longleftrightarrow> (\<forall>v v' g g' r. f v = Some g \<longrightarrow> f' v' = Some g' \<longrightarrow> g (g' r) = g' (g r))"

definition fields_apart :: "'r field list \<Rightarrow> bool" where
  "fields_apart fields \<longleftrightarrow> (\<forall>(k, f)\<in>set fields. \<forall>(k', f')\<in>set fields. k \<noteq> k' \<longrightarrow> apart f f')"

definition shaped :: "(json \<Rightarrow> ('r \<Rightarrow> 'r) option) \<Rightarrow> ('a \<Rightarrow> 'r \<Rightarrow> 'r) \<Rightarrow> bool" where
  "shaped f upd \<longleftrightarrow> (\<forall>v g. f v = Some g \<longrightarrow> g = id \<or> (\<exists>x. g = upd x))"

lemma shaped_fields:
  "shaped (string_field upd1) upd1" "shaped (int_field upd2) upd2" "shaped (int_pointer_field upd3) upd3"
  "shaped (text_field p upd4) upd4" "shaped (text_pointer_field p upd5) upd5"
  by (auto simp: shaped_def string_field_def int_field_def int_pointer_field_def text_field_def text_pointer_field_def split: json.splits)

lemma apartI: "shaped f upd \<Longrightarrow> shaped f' upd' \<Longrightarrow> (\<And>x y r. upd x (upd' y r) = upd' y (upd x r)) \<Longrightarrow> apart f f'"
  unfolding apart_def shaped_def
proof (intro allI impI)
  fix v v' g g' r
  assume c: "\<And>x y r. upd x (upd' y r) = upd' y (upd x r)" and "f v = Some g" "f' v' = Some g'"
    and "\<forall>v g. f v = Some g \<longrightarrow> g = id \<or> (\<exists>x. g = upd x)" "\<forall>v g. f' v = Some g \<longrightarrow> g = id \<or> (\<exists>x. g = upd' x)"
  then have "g = id \<or> (\<exists>x. g = upd x)" "g' = id \<or> (\<exists>x. g' = upd' x)" by blast+
  then show "g (g' r) = g' (g r)" using c by auto
qed

lemma apart_sym: "apart f f' \<Longrightarrow> apart f' f"
  by (simp add: apart_def)

lemma fields_apartI: "sorted_wrt (\<lambda>(k, f) (k', f'). apart f f') fields \<Longrightarrow> fields_apart fields"
  by (induction fields) (auto simp: fields_apart_def intro: apart_sym)

lemma lookup_exact: "map_of fields k = Some f \<Longrightarrow> lookup_field fields k = Some f"
  by (simp add: lookup_field_def)

lemma decode_commute:
  assumes "fields_apart fields" "map_of fields k = Some f" "map_of fields k' = Some f'" "k \<noteq> k'"
  shows "decode_member fields (k, v) (decode_member fields (k', v') acc) = decode_member fields (k', v') (decode_member fields (k, v) acc)"
proof -
  have "apart f f'"
    using assms(1,4) map_of_SomeD [OF assms(2)] map_of_SomeD [OF assms(3)] unfolding fields_apart_def by fastforce
  then have "g (g' r) = g' (g r)" if "f v = Some g" "f' v' = Some g'" for g g' r
    using that unfolding apart_def by blast
  then show ?thesis
    using lookup_exact [OF assms(2)] lookup_exact [OF assms(3)] by (auto simp: decode_member_def split: option.splits)
qed

lemma decode_order:
  assumes "fields_apart fields" "\<And>k. k \<in> fst ` set ms \<Longrightarrow> k \<in> fst ` set fields \<or> lookup_field fields k = None"
    and "distinct (map fst ms)" "mset ms' = mset ms"
  shows "decode_into fields r (JObj ms') = decode_into fields r (JObj ms)"
proof -
  have "fold (decode_member fields) ms = fold (decode_member fields) ms'"
  proof (rule fold_multiset_equiv)
    fix x y assume xy: "x \<in> set ms" "y \<in> set ms"
    show "decode_member fields x \<circ> decode_member fields y = decode_member fields y \<circ> decode_member fields x"
    proof (cases "x = y \<or> lookup_field fields (fst x) = None \<or> lookup_field fields (fst y) = None")
      case True
      moreover have "decode_member fields z = id" if "lookup_field fields (fst z) = None" for z
        using that by (simp add: decode_member_def fun_eq_iff)
      ultimately show ?thesis by (metis comp_id id_comp)
    next
      case False
      obtain k v k' v' where p: "x = (k, v)" "y = (k', v')" by fastforce
      then have kk: "k \<noteq> k'" using False xy assms(3) by (metis eq_key_imp_eq_value)
      have "k \<in> fst ` set fields" "k' \<in> fst ` set fields" using xy p assms(2) [of k] assms(2) [of k'] False by force+
      then obtain f f' where "map_of fields k = Some f" "map_of fields k' = Some f'"
        by (metis map_of_eq_None_iff not_Some_eq)
      from decode_commute [OF assms(1) this kk] show ?thesis using p by auto
    qed
  qed (simp add: assms(4))
  then show ?thesis by (simp add: decode_into_def)
qed

end
