(* ===== verification/Service_Config.thy ===== *)
theory Service_Config
  imports Complex_Main Go_Text
begin

text \<open>
  Package \<open>internal/platform/config\<close> and the pure part of \<open>internal/platform/telemetry\<close>: how the environment
  variables become a \<open>Config\<close>, how the collector's address becomes exporter options, and how a trace context
  travels as two strings. The process environment, \<open>strconv.ParseFloat\<close> and the OpenTelemetry SDK are parameters.
\<close>

section \<open>Durations\<close>

text \<open>A \<open>time.Duration\<close> is an \<open>int64\<close> of nanoseconds.\<close>

definition Millisecond :: int64 where
  "Millisecond = 1000000"

text \<open>A \<open>float64\<close>: what comparisons with numbers see of it.\<close>

datatype float64 = Finite rat | PosInf | NegInf | NaN

fun not_positive :: "float64 \<Rightarrow> bool" where
  "not_positive (Finite x) = (x \<le> 0)"
| "not_positive NegInf = True"
| "not_positive PosInf = False"
| "not_positive NaN = False"

section \<open>Config\<close>

record Config =
  cf_DatabaseURL :: string
  cf_RedisURL :: string
  cf_AppPort :: string
  cf_LogLevel :: string
  cf_OrdersStreamName :: string
  cf_TradesStreamName :: string
  cf_ConsumerGroupName :: string
  cf_MatcherBatchSize :: int64
  cf_MatcherBatchTimeout :: int64
  cf_OutboxBatchSize :: int64
  cf_OutboxPollInterval :: int64
  cf_OtelExporterEndpoint :: string
  cf_OtelTracesSampleRatio :: float64

datatype config_error = ErrMissingDatabaseURL | ErrMissingRedisURL

text \<open>\<open>os.Getenv\<close> returns the empty string for an unset variable.\<close>

record CEnv =
  ce_Getenv :: "string \<Rightarrow> string"
  ce_ParseFloat :: "string \<Rightarrow> float64 option"

definition getEnvDefault :: "CEnv \<Rightarrow> string \<Rightarrow> string \<Rightarrow> string" where
  "getEnvDefault cenv key def = (if ce_Getenv cenv key \<noteq> [] then ce_Getenv cenv key else def)"

definition getEnvInt64Default :: "CEnv \<Rightarrow> string \<Rightarrow> int64 \<Rightarrow> int64" where
  "getEnvInt64Default cenv key def =
     (if ce_Getenv cenv key = [] then def
      else (case ParseInt (ce_Getenv cenv key) of None \<Rightarrow> def | Some n \<Rightarrow> n))"

definition getEnvDurationMillisDefault :: "CEnv \<Rightarrow> string \<Rightarrow> int64 \<Rightarrow> int64" where
  "getEnvDurationMillisDefault cenv key defMillis = i64_mul (getEnvInt64Default cenv key defMillis) Millisecond"

definition getEnvFloat64Default :: "CEnv \<Rightarrow> string \<Rightarrow> float64 \<Rightarrow> float64" where
  "getEnvFloat64Default cenv key def =
     (if ce_Getenv cenv key = [] then def
      else (case ce_ParseFloat cenv (ce_Getenv cenv key) of None \<Rightarrow> def | Some f \<Rightarrow> f))"

definition read_config :: "CEnv \<Rightarrow> Config" where
  "read_config cenv =
     \<lparr>cf_DatabaseURL = ce_Getenv cenv ''DATABASE_URL'',
      cf_RedisURL = ce_Getenv cenv ''REDIS_URL'',
      cf_AppPort = getEnvDefault cenv ''APP_PORT'' ''8080'',
      cf_LogLevel = getEnvDefault cenv ''LOG_LEVEL'' ''info'',
      cf_OrdersStreamName = getEnvDefault cenv ''ORDERS_STREAM_NAME'' ''orders:incoming'',
      cf_TradesStreamName = getEnvDefault cenv ''TRADES_STREAM_NAME'' ''trades:executed'',
      cf_ConsumerGroupName = getEnvDefault cenv ''CONSUMER_GROUP_NAME'' ''matcher-group'',
      cf_MatcherBatchSize = getEnvInt64Default cenv ''MATCHER_BATCH_SIZE'' 200,
      cf_MatcherBatchTimeout = getEnvDurationMillisDefault cenv ''MATCHER_BATCH_TIMEOUT_MS'' 50,
      cf_OutboxBatchSize = getEnvInt64Default cenv ''OUTBOX_BATCH_SIZE'' 200,
      cf_OutboxPollInterval = getEnvDurationMillisDefault cenv ''OUTBOX_POLL_INTERVAL_MS'' 100,
      cf_OtelExporterEndpoint = getEnvDefault cenv ''OTEL_EXPORTER_OTLP_ENDPOINT'' ''http://localhost:4318'',
      cf_OtelTracesSampleRatio = getEnvFloat64Default cenv ''OTEL_TRACES_SAMPLER_ARG'' (Finite 1)\<rparr>"

definition Load :: "CEnv \<Rightarrow> config_error + Config" where
  "Load cenv =
     (let cfg = read_config cenv
      in if cf_DatabaseURL cfg = [] then Inl ErrMissingDatabaseURL
         else if cf_RedisURL cfg = [] then Inl ErrMissingRedisURL
         else Inr cfg)"

section \<open>Telemetry\<close>

definition splitEndpoint :: "string \<Rightarrow> string \<times> bool" where
  "splitEndpoint endpoint =
     (case CutPrefix endpoint ''https://'' of (rest, ok) \<Rightarrow>
        if ok then (rest, False)
        else (case CutPrefix endpoint ''http://'' of (rest', ok') \<Rightarrow> if ok' then (rest', True) else (endpoint, True)))"

definition sample_ratio :: "float64 \<Rightarrow> float64" where
  "sample_ratio r = (if not_positive r then Finite 1 else r)"

text \<open>
  The propagator writes a context into a carrier and reads it back from one; a carrier is a map of strings whose
  missing keys read as the empty string.
\<close>

record 'c TraceEnv =
  tr_inject :: "'c \<Rightarrow> (string \<rightharpoonup> string)"
  tr_extract :: "'c \<Rightarrow> (string \<rightharpoonup> string) \<Rightarrow> 'c"

definition carrier_get :: "(string \<rightharpoonup> string) \<Rightarrow> string \<Rightarrow> string" where
  "carrier_get c k = (case c k of None \<Rightarrow> [] | Some v \<Rightarrow> v)"

definition Inject :: "'c TraceEnv \<Rightarrow> 'c \<Rightarrow> string \<times> string" where
  "Inject trenv ctx = (carrier_get (tr_inject trenv ctx) ''traceparent'', carrier_get (tr_inject trenv ctx) ''tracestate'')"

definition Extract :: "'c TraceEnv \<Rightarrow> 'c \<Rightarrow> string \<Rightarrow> string \<Rightarrow> 'c" where
  "Extract trenv ctx traceparent tracestate =
     (if traceparent = [] then ctx
      else tr_extract trenv ctx
        (if tracestate \<noteq> [] then [''traceparent'' \<mapsto> traceparent, ''tracestate'' \<mapsto> tracestate] else [''traceparent'' \<mapsto> traceparent]))"

section \<open>Lemmas\<close>

lemma getEnvInt64_unset: "ce_Getenv cenv key = [] \<Longrightarrow> getEnvInt64Default cenv key def = def"
  by (simp add: getEnvInt64Default_def)

lemma getEnvInt64_written:
  assumes "ce_Getenv cenv key = FormatInt n" "in64 n"
  shows "getEnvInt64Default cenv key def = n"
proof -
  have "FormatInt n \<noteq> []" using print_nat_nonempty by (simp add: FormatInt_def append_int_def)
  then show ?thesis using assms ParseInt_FormatInt [of n] by (simp add: getEnvInt64Default_def)
qed

lemma getEnvInt64_in64: "in64 def \<Longrightarrow> in64 (getEnvInt64Default cenv key def)"
  using ParseInt_range by (auto simp: getEnvInt64Default_def split: option.split)

lemma millis_exact: "\<bar>n\<bar> \<le> 9223372036854 \<Longrightarrow> i64_mul n Millisecond = n * 1000000"
  by (intro i64_mul_id [THEN trans]) (auto simp: in64_def MinInt64_def MaxInt64_def Millisecond_def)

end
