(* ===== verification/Event_Json.thy ===== *)
theory Event_Json
  imports Go_Json Order_Services Service_Config "HOL-Library.Sublist"
begin

text \<open>
  The events on the wire: \<open>orders.StreamEvent\<close> as \<open>json.Marshal\<close> writes it for the outbox and as the matcher reads it
  back, and the \<open>traceCarrier\<close> the publisher takes from the same text. The text form of an id is \<open>google/uuid\<close>'s
  (a parameter); the outbox column is JSONB, which may reorder the members.
\<close>

section \<open>StreamEvent\<close>

definition EventType_of_string :: "string \<Rightarrow> EventType" where
  "EventType_of_string s =
     (if s = ''NEW_ORDER'' then EventTypeNewOrder else if s = ''CANCEL_ORDER'' then EventTypeCancelOrder else EventTypeRaw s)"

fun string_of_EventType :: "EventType \<Rightarrow> string" where
  "string_of_EventType EventTypeNewOrder = ''NEW_ORDER''"
| "string_of_EventType EventTypeCancelOrder = ''CANCEL_ORDER''"
| "string_of_EventType (EventTypeRaw s) = s"

text \<open>A member with \<open>omitempty\<close>.\<close>

definition unless_empty :: "bool \<Rightarrow> string \<Rightarrow> json \<Rightarrow> (string \<times> json) list" where
  "unless_empty isEmpty k v = (if isEmpty then [] else [(k, v)])"

definition event_members :: "(uuid \<Rightarrow> string) \<Rightarrow> StreamEvent \<Rightarrow> (string \<times> json) list" where
  "event_members uuidText ev =
     [(''type'', JStr (string_of_EventType (ev_Type ev))),
      (''order_id'', JStr (uuidText (ev_OrderID ev))),
      (''user_id'', JStr (uuidText (ev_UserID ev)))] @
     unless_empty (string_of_Side (ev_Side ev) = []) ''side'' (JStr (string_of_Side (ev_Side ev))) @
     unless_empty (string_of_Type (ev_OrderType ev) = []) ''order_type'' (JStr (string_of_Type (ev_OrderType ev))) @
     (case ev_PriceCents ev of None \<Rightarrow> [] | Some p \<Rightarrow> [(''price_cents'', JNum (FormatInt p))]) @
     unless_empty (ev_Quantity ev = 0) ''quantity'' (JNum (FormatInt (ev_Quantity ev))) @
     (case ev_RequestedBy ev of None \<Rightarrow> [] | Some i \<Rightarrow> [(''requested_by'', JStr (uuidText i))]) @
     unless_empty (ev_TraceParent ev = []) ''traceparent'' (JStr (ev_TraceParent ev)) @
     unless_empty (ev_TraceState ev = []) ''tracestate'' (JStr (ev_TraceState ev))"

definition MarshalEvent :: "(uuid \<Rightarrow> string) \<Rightarrow> StreamEvent \<Rightarrow> string" where
  "MarshalEvent uuidText ev = print_json (JObj (event_members uuidText ev))"

definition zero_event :: StreamEvent where
  "zero_event = \<lparr>ev_Type = EventType_of_string [], ev_OrderID = 0, ev_UserID = 0, ev_Side = Side_of_string [],
     ev_OrderType = Type_of_string [], ev_PriceCents = None, ev_Quantity = 0, ev_RequestedBy = None,
     ev_TraceParent = [], ev_TraceState = []\<rparr>"

definition event_fields :: "(string \<Rightarrow> uuid option) \<Rightarrow> StreamEvent field list" where
  "event_fields uuidParse =
     [(''type'', string_field (\<lambda>s. ev_Type_update (\<lambda>_. EventType_of_string s))),
      (''order_id'', text_field uuidParse (\<lambda>i. ev_OrderID_update (\<lambda>_. i))),
      (''user_id'', text_field uuidParse (\<lambda>i. ev_UserID_update (\<lambda>_. i))),
      (''side'', string_field (\<lambda>s. ev_Side_update (\<lambda>_. Side_of_string s))),
      (''order_type'', string_field (\<lambda>s. ev_OrderType_update (\<lambda>_. Type_of_string s))),
      (''price_cents'', int_pointer_field (\<lambda>p. ev_PriceCents_update (\<lambda>_. p))),
      (''quantity'', int_field (\<lambda>n. ev_Quantity_update (\<lambda>_. n))),
      (''requested_by'', text_pointer_field uuidParse (\<lambda>i. ev_RequestedBy_update (\<lambda>_. i))),
      (''traceparent'', string_field (\<lambda>s. ev_TraceParent_update (\<lambda>_. s))),
      (''tracestate'', string_field (\<lambda>s. ev_TraceState_update (\<lambda>_. s)))]"

definition UnmarshalEvent :: "(string \<Rightarrow> uuid option) \<Rightarrow> string \<Rightarrow> StreamEvent option" where
  "UnmarshalEvent uuidParse s =
     (case Unmarshal (event_fields uuidParse) zero_event s of (ev, ok) \<Rightarrow> if ok then Some ev else None)"

section \<open>The trace context\<close>

record TraceCarrier =
  tc_TraceParent :: string
  tc_TraceState :: string

definition carrier_fields :: "TraceCarrier field list" where
  "carrier_fields =
     [(''traceparent'', string_field (\<lambda>s. tc_TraceParent_update (\<lambda>_. s))),
      (''tracestate'', string_field (\<lambda>s. tc_TraceState_update (\<lambda>_. s)))]"

text \<open>\<open>_ = json.Unmarshal(e.Payload, &tc)\<close>: what could be decoded, the error dropped.\<close>

definition trace_of_payload :: "string \<Rightarrow> TraceCarrier" where
  "trace_of_payload payload = fst (Unmarshal carrier_fields \<lparr>tc_TraceParent = [], tc_TraceState = []\<rparr> payload)"

text \<open>The contexts of the matcher's and the publisher's spans, from the same payload.\<close>

definition ExtractTraceContext :: "'c TraceEnv \<Rightarrow> 'c \<Rightarrow> StreamEvent \<Rightarrow> 'c" where
  "ExtractTraceContext trenv ctx ev = Extract trenv ctx (ev_TraceParent ev) (ev_TraceState ev)"

definition publish_context :: "'c TraceEnv \<Rightarrow> 'c \<Rightarrow> string \<Rightarrow> 'c" where
  "publish_context trenv ctx payload =
     Extract trenv ctx (tc_TraceParent (trace_of_payload payload)) (tc_TraceState (trace_of_payload payload))"

section \<open>Reading back\<close>

text \<open>An event as the services build it: named constants where there are names, values in range, text in UTF-8.\<close>

definition plain_event :: "StreamEvent \<Rightarrow> bool" where
  "plain_event ev \<longleftrightarrow> EventType_of_string (string_of_EventType (ev_Type ev)) = ev_Type ev \<and>
     Side_of_string (string_of_Side (ev_Side ev)) = ev_Side ev \<and> Type_of_string (string_of_Type (ev_OrderType ev)) = ev_OrderType ev \<and>
     in64 (ev_Quantity ev) \<and> (\<forall>p. ev_PriceCents ev = Some p \<longrightarrow> in64 p) \<and>
     valid_utf8 (string_of_EventType (ev_Type ev)) \<and> valid_utf8 (string_of_Side (ev_Side ev)) \<and> valid_utf8 (string_of_Type (ev_OrderType ev)) \<and>
     valid_utf8 (ev_TraceParent ev) \<and> valid_utf8 (ev_TraceState ev)"

text \<open>What is relied on of \<open>google/uuid\<close>: the text of an id is ASCII and parses back.\<close>

definition uuid_text_ok :: "(uuid \<Rightarrow> string) \<Rightarrow> (string \<Rightarrow> uuid option) \<Rightarrow> bool" where
  "uuid_text_ok uuidText uuidParse \<longleftrightarrow> (\<forall>i. ascii (uuidText i) \<and> uuidParse (uuidText i) = Some i)"

lemma event_fields_apart: "fields_apart (event_fields uuidParse)"
proof (rule fields_apartI)
  show "sorted_wrt (\<lambda>(k, f) (k', f'). apart f f') (event_fields uuidParse)"
    unfolding event_fields_def sorted_wrt.simps list.set ball_simps prod.case
    by (intro conjI TrueI; rule apartI, rule shaped_fields, rule shaped_fields, simp)
qed

lemma event_names:
  "subseq (map fst (event_members u ev)) (map fst (event_fields uuidParse))"
proof -
  have u: "subseq (map fst (unless_empty b k v)) [k]" for b k v by (simp add: unless_empty_def)
  have c: "subseq (map fst (case opt of None \<Rightarrow> [] | Some x \<Rightarrow> [(k, f x)])) [k]" for opt :: "'x option" and k and f :: "'x \<Rightarrow> json"
    by (simp split: option.split)
  have "map fst (event_fields uuidParse) = [''type'', ''order_id'', ''user_id''] @ [''side''] @ [''order_type''] @ [''price_cents''] @
      [''quantity''] @ [''requested_by''] @ [''traceparent''] @ [''tracestate'']"
    by (simp add: event_fields_def)
  then show ?thesis
    unfolding event_members_def map_append by (simp only:) (intro list_emb_append_mono u c, simp)
qed

lemma event_keys:
  "fst ` set (event_members u ev) \<subseteq> fst ` set (event_fields uuidParse)" "distinct (map fst (event_members u ev))"
proof -
  have s: "subseq (map fst (event_members u ev)) (map fst (event_fields p))" for p by (rule event_names)
  have "distinct (map fst (event_fields p))" for p by (simp add: event_fields_def)
  then show "distinct (map fst (event_members u ev))" by (rule subseqs_distinctD [OF in_set_subseqs [THEN iffD2, OF s]])
  show "fst ` set (event_members u ev) \<subseteq> fst ` set (event_fields uuidParse)"
    using list_emb_set [OF s [of uuidParse]] by (simp only: set_map subset_iff) blast
qed

lemma event_members_ok:
  assumes "plain_event ev" "uuid_text_ok u uuidParse"
  shows "json_ok (JObj (event_members u ev))" "nesting (JObj (event_members u ev)) \<le> maxNestingDepth"
proof -
  have "int_literal (FormatInt n)" for n by (auto simp: int_literal_def)
  moreover have "valid_utf8 (u i)" for i using assms(2) ascii_valid by (simp add: uuid_text_ok_def valid_utf8_def)
  moreover have "valid_utf8 k" if "k \<in> {''type'', ''order_id'', ''user_id'', ''side'', ''order_type'', ''price_cents'', ''quantity'',
      ''requested_by'', ''traceparent'', ''tracestate''}" for k
    using that by (auto simp: valid_utf8_def intro!: ascii_valid)
  ultimately show "json_ok (JObj (event_members u ev))"
    using assms(1) by (simp add: event_members_def unless_empty_def plain_event_def split: option.split)
  show "nesting (JObj (event_members u ev)) \<le> maxNestingDepth"
    by (simp add: event_members_def unless_empty_def maxNestingDepth_def split: option.split)
qed

lemma decode_field:
  "map_of fs k = Some f \<Longrightarrow> decode_member fs (k, v) acc = (case f v of None \<Rightarrow> (fst acc, False) | Some g \<Rightarrow> (g (fst acc), snd acc))"
  by (simp add: decode_member_def lookup_exact)

lemma decode_event_members:
  assumes "plain_event ev" "uuid_text_ok u uuidParse"
  shows "decode_into (event_fields uuidParse) zero_event (JObj (event_members u ev)) = (ev, True)"
proof -
  let ?d = "decode_member (event_fields uuidParse)"
  have str: "?d (''type'', JStr s) acc = ((fst acc)\<lparr>ev_Type := EventType_of_string s\<rparr>, snd acc)"
      "?d (''side'', JStr s) acc = ((fst acc)\<lparr>ev_Side := Side_of_string s\<rparr>, snd acc)"
      "?d (''order_type'', JStr s) acc = ((fst acc)\<lparr>ev_OrderType := Type_of_string s\<rparr>, snd acc)"
      "?d (''traceparent'', JStr s) acc = ((fst acc)\<lparr>ev_TraceParent := s\<rparr>, snd acc)"
      "?d (''tracestate'', JStr s) acc = ((fst acc)\<lparr>ev_TraceState := s\<rparr>, snd acc)" for s acc
    by (subst decode_field, simp add: event_fields_def, simp add: string_field_def)+
  have ids: "?d (''order_id'', JStr (u i)) acc = ((fst acc)\<lparr>ev_OrderID := i\<rparr>, snd acc)"
      "?d (''user_id'', JStr (u i)) acc = ((fst acc)\<lparr>ev_UserID := i\<rparr>, snd acc)"
      "?d (''requested_by'', JStr (u i)) acc = ((fst acc)\<lparr>ev_RequestedBy := Some i\<rparr>, snd acc)" for i acc
    using assms(2) by (subst decode_field, simp add: event_fields_def, simp add: text_field_def text_pointer_field_def uuid_text_ok_def)+
  have nums: "?d (''price_cents'', JNum (FormatInt n)) acc = ((fst acc)\<lparr>ev_PriceCents := Some n\<rparr>, snd acc)"
      "?d (''quantity'', JNum (FormatInt n)) acc = ((fst acc)\<lparr>ev_Quantity := n\<rparr>, snd acc)" if "in64 n" for n acc
    using ParseInt_FormatInt [OF that] by (subst decode_field, simp add: event_fields_def, simp add: int_field_def int_pointer_field_def)+
  have type: "fold ?d [(''type'', JStr (string_of_EventType (ev_Type ev))), (''order_id'', JStr (u (ev_OrderID ev))), (''user_id'', JStr (u (ev_UserID ev)))]
      (zero_event, True) = (zero_event\<lparr>ev_Type := ev_Type ev, ev_OrderID := ev_OrderID ev, ev_UserID := ev_UserID ev\<rparr>, True)"
    using assms(1) by (simp add: str ids plain_event_def)
  have opt: "fold ?d (unless_empty (string_of_Side (ev_Side ev) = []) ''side'' (JStr (string_of_Side (ev_Side ev)))) (x, True) =
        (x\<lparr>ev_Side := ev_Side ev\<rparr>, True)" if "ev_Side x = Side_of_string []" for x
    using assms(1) that by (auto simp: unless_empty_def plain_event_def str)
  have opt2: "fold ?d (unless_empty (string_of_Type (ev_OrderType ev) = []) ''order_type'' (JStr (string_of_Type (ev_OrderType ev)))) (x, True) =
        (x\<lparr>ev_OrderType := ev_OrderType ev\<rparr>, True)" if "ev_OrderType x = Type_of_string []" for x
    using assms(1) that by (auto simp: unless_empty_def plain_event_def str)
  have opt3: "fold ?d (case ev_PriceCents ev of None \<Rightarrow> [] | Some p \<Rightarrow> [(''price_cents'', JNum (FormatInt p))]) (x, True) =
        (x\<lparr>ev_PriceCents := ev_PriceCents ev\<rparr>, True)" if "ev_PriceCents x = None" for x
    using assms(1) that by (auto simp: plain_event_def nums split: option.split)
  have opt4: "fold ?d (unless_empty (ev_Quantity ev = 0) ''quantity'' (JNum (FormatInt (ev_Quantity ev)))) (x, True) =
        (x\<lparr>ev_Quantity := ev_Quantity ev\<rparr>, True)" if "ev_Quantity x = 0" for x
    using assms(1) that by (auto simp: unless_empty_def plain_event_def nums)
  have opt5: "fold ?d (case ev_RequestedBy ev of None \<Rightarrow> [] | Some i \<Rightarrow> [(''requested_by'', JStr (u i))]) (x, True) =
        (x\<lparr>ev_RequestedBy := ev_RequestedBy ev\<rparr>, True)" if "ev_RequestedBy x = None" for x
    using that by (auto simp: ids split: option.split)
  have opt6: "fold ?d (unless_empty (ev_TraceParent ev = []) ''traceparent'' (JStr (ev_TraceParent ev))) (x, True) =
        (x\<lparr>ev_TraceParent := ev_TraceParent ev\<rparr>, True)" if "ev_TraceParent x = []" for x
    using that by (auto simp: unless_empty_def str)
  have opt7: "fold ?d (unless_empty (ev_TraceState ev = []) ''tracestate'' (JStr (ev_TraceState ev))) (x, True) =
        (x\<lparr>ev_TraceState := ev_TraceState ev\<rparr>, True)" if "ev_TraceState x = []" for x
    using that by (auto simp: unless_empty_def str)
  show ?thesis
    unfolding decode_into_def json.case event_members_def fold_append comp_def type
    by (simp add: opt opt2 opt3 opt4 opt5 opt6 opt7 zero_event_def)
qed


lemma carrier_fields_apart: "fields_apart carrier_fields"
proof (rule fields_apartI)
  show "sorted_wrt (\<lambda>(k, f) (k', f'). apart f f') carrier_fields"
    unfolding carrier_fields_def sorted_wrt.simps list.set ball_simps prod.case
    by (intro conjI TrueI; rule apartI, rule shaped_fields, rule shaped_fields, simp)
qed

lemma carrier_ignores:
  "k \<in> {''type'', ''order_id'', ''user_id'', ''side'', ''order_type'', ''price_cents'', ''quantity'', ''requested_by''} \<Longrightarrow>
   lookup_field carrier_fields k = None"
  by (auto simp: lookup_field_def carrier_fields_def find.simps)

lemma decode_carrier_members:
  "decode_into carrier_fields \<lparr>tc_TraceParent = [], tc_TraceState = []\<rparr> (JObj (event_members u ev)) =
     (\<lparr>tc_TraceParent = ev_TraceParent ev, tc_TraceState = ev_TraceState ev\<rparr>, True)"
proof -
  let ?d = "decode_member carrier_fields"
  have skip: "?d (k, v) acc = acc" if "k \<in> {''type'', ''order_id'', ''user_id'', ''side'', ''order_type'', ''price_cents'', ''quantity'', ''requested_by''}" for k v acc
    using carrier_ignores [OF that] by (simp add: decode_member_def)
  have str: "?d (''traceparent'', JStr s) acc = ((fst acc)\<lparr>tc_TraceParent := s\<rparr>, snd acc)"
      "?d (''tracestate'', JStr s) acc = ((fst acc)\<lparr>tc_TraceState := s\<rparr>, snd acc)" for s acc
    by (subst decode_field, simp add: carrier_fields_def, simp add: string_field_def)+
  have parts: "fold ?d (unless_empty b k v) acc = acc" if "k \<in> {''side'', ''order_type'', ''quantity''}" for b k v acc
    using that by (auto simp: unless_empty_def skip)
  have opts: "fold ?d (case opt of None \<Rightarrow> [] | Some x \<Rightarrow> [(k, f x)]) acc = acc" if "k \<in> {''price_cents'', ''requested_by''}"
      for opt :: "'x option" and k f acc
    using that by (auto simp: skip split: option.split)
  show ?thesis
    unfolding decode_into_def json.case event_members_def fold_append comp_def
    by (simp add: skip parts opts) (auto simp: unless_empty_def str)
qed

section \<open>The column\<close>

text \<open>
  What is relied on of a JSONB column (its documentation): white space and the order of the members may change,
  the strings and integers of a flat object without duplicate keys do not.
\<close>

fun flat_value :: "json \<Rightarrow> bool" where
  "flat_value (JStr s) \<longleftrightarrow> True"
| "flat_value (JNum s) \<longleftrightarrow> int_literal s"
| "flat_value j \<longleftrightarrow> False"

definition jsonb_ok :: "(string \<Rightarrow> string option) \<Rightarrow> bool" where
  "jsonb_ok column \<longleftrightarrow> (\<forall>p p' ms. column p = Some p' \<longrightarrow> parse_json p = Some (JObj ms) \<longrightarrow> distinct (map fst ms) \<longrightarrow>
     list_all (\<lambda>(k, v). flat_value v) ms \<longrightarrow> (\<exists>ms'. parse_json p' = Some (JObj ms') \<and> mset ms' = mset ms))"

lemma event_flat: "list_all (\<lambda>(k, v). flat_value v) (event_members u ev)"
  by (auto simp: event_members_def unless_empty_def int_literal_def split: option.split)

lemma stored_event:
  assumes "plain_event ev" "uuid_text_ok u uuidParse" "jsonb_ok column" "column (MarshalEvent u ev) = Some p"
  shows "UnmarshalEvent uuidParse p = Some ev"
    and "trace_of_payload p = \<lparr>tc_TraceParent = ev_TraceParent ev, tc_TraceState = ev_TraceState ev\<rparr>"
proof -
  have "parse_json (MarshalEvent u ev) = Some (JObj (event_members u ev))"
    unfolding MarshalEvent_def by (rule parse_print(1) [OF event_members_ok [OF assms(1,2)]])
  then obtain ms where ms: "parse_json p = Some (JObj ms)" "mset ms = mset (event_members u ev)"
    using assms(3,4) event_keys(2) event_flat unfolding jsonb_ok_def by blast
  have e: "k \<in> fst ` set (event_fields uuidParse) \<or> lookup_field (event_fields uuidParse) k = None"
    if "k \<in> fst ` set (event_members u ev)" for k using that event_keys(1) by blast
  have "decode_into (event_fields uuidParse) zero_event (JObj ms) = (ev, True)"
    using decode_order [OF event_fields_apart _ event_keys(2) ms(2)] e decode_event_members [OF assms(1,2)] by metis
  then show "UnmarshalEvent uuidParse p = Some ev" by (simp add: UnmarshalEvent_def Unmarshal_def ms(1))
  have c: "k \<in> fst ` set carrier_fields \<or> lookup_field carrier_fields k = None" if "k \<in> fst ` set (event_members u ev)" for k
    using that event_keys(1) [of u ev uuidParse] carrier_ignores [of k] by (force simp: event_fields_def carrier_fields_def)
  show "trace_of_payload p = \<lparr>tc_TraceParent = ev_TraceParent ev, tc_TraceState = ev_TraceState ev\<rparr>"
    using decode_order [OF carrier_fields_apart _ event_keys(2) ms(2)] c decode_carrier_members [of u ev]
    by (metis (no_types, lifting) Unmarshal_def fst_conv ms(1) option.case(2) trace_of_payload_def)
qed


section \<open>The property\<close>

text \<open>
  C20: an event survives the outbox. What \<open>json.Marshal\<close> wrote of an event is read back as the same event, directly and
  after the JSONB column normalised it (members reordered, white space added): type, ids, side, order type,
  price, quantity, requester and trace strings, absent fields included. The publisher's carrier takes the
  same trace context from the payload as the matcher takes from the event.
\<close>

theorem event_survives_outbox:
  assumes "plain_event ev" "uuid_text_ok u uuidParse" "jsonb_ok column" "column (MarshalEvent u ev) = Some p"
  shows "UnmarshalEvent uuidParse (MarshalEvent u ev) = Some ev \<and> UnmarshalEvent uuidParse p = Some ev \<and>
    publish_context trenv ctx p = ExtractTraceContext trenv ctx ev"
proof -
  have "jsonb_ok Some" by (auto simp: jsonb_ok_def)
  from stored_event(1) [OF assms(1,2) this refl] stored_event [OF assms] show ?thesis
    by (simp add: publish_context_def ExtractTraceContext_def)
qed

definition digits_uuid :: "uuid \<Rightarrow> string" where
  "digits_uuid i = print_nat (unat i)"

definition uuid_of_digits :: "string \<Rightarrow> uuid option" where
  "uuid_of_digits s = Some (of_nat (digits_val 0 s))"

lemma digits_uuid_ok: "uuid_text_ok digits_uuid uuid_of_digits"
proof -
  have "(of_char c :: nat) < 128" if "c \<in> set (print_nat n)" for c n
    using print_nat_digits [OF that] by (simp add: is_digit_def)
  then have "ascii (print_nat n)" for n by (simp add: ascii_def list_all_iff)
  then show ?thesis by (simp add: uuid_text_ok_def digits_uuid_def uuid_of_digits_def print_nat_val)
qed

definition wire_event :: StreamEvent where
  "wire_event = \<lparr>ev_Type = EventTypeNewOrder, ev_OrderID = 7, ev_UserID = 1, ev_Side = SideSell, ev_OrderType = TypeLimit,
     ev_PriceCents = Some 1000, ev_Quantity = 5, ev_RequestedBy = None, ev_TraceParent = ''00-4bf9-00f0-01'', ev_TraceState = []\<rparr>"

lemma ascii_utf8: "ascii s \<Longrightarrow> valid_utf8 s"
  by (simp add: valid_utf8_def ascii_valid)

lemma wire_event_plain: "plain_event wire_event"
  by (simp add: plain_event_def wire_event_def EventType_of_string_def Side_of_string_def Type_of_string_def in64_def MinInt64_def MaxInt64_def
      ascii_utf8)

theorem event_survives_outbox_witness:
  "UnmarshalEvent uuid_of_digits (MarshalEvent digits_uuid wire_event) = Some wire_event"
proof -
  have "jsonb_ok Some" by (auto simp: jsonb_ok_def)
  then show ?thesis by (rule event_survives_outbox [OF wire_event_plain digits_uuid_ok _ refl, THEN conjunct1])
qed

end
