(* ===== verification/Http_Json.thy ===== *)
theory Http_Json
  imports Http_Properties Event_Json
begin

text \<open>
  The JSON bodies of package \<open>internal/infra/httpapi\<close> (\<open>dto.go\<close> and the encoder and decoder calls of the
  handlers) and the request log of \<open>middleware.go\<close>. With these the decoder is no parameter of the handlers any
  more: what a client prints is what the service is asked to do.
\<close>

section \<open>Requests\<close>

definition place_fields :: "PlaceOrderRequest field list" where
  "place_fields =
     [(''user_id'', string_field (\<lambda>s r. r\<lparr>pr_UserID := s\<rparr>)), (''side'', string_field (\<lambda>s r. r\<lparr>pr_Side := s\<rparr>)),
      (''type'', string_field (\<lambda>s r. r\<lparr>pr_Type := s\<rparr>)), (''price_cents'', int_pointer_field (\<lambda>p r. r\<lparr>pr_PriceCents := p\<rparr>)),
      (''quantity'', int_field (\<lambda>n r. r\<lparr>pr_Quantity := n\<rparr>))]"

definition zero_place :: PlaceOrderRequest where
  "zero_place = \<lparr>pr_UserID = [], pr_Side = [], pr_Type = [], pr_PriceCents = None, pr_Quantity = 0\<rparr>"

definition cancel_fields :: "CancelOrderRequest field list" where
  "cancel_fields = [(''user_id'', string_field (\<lambda>s r. r\<lparr>cq_UserID := s\<rparr>))]"

definition zero_cancel :: CancelOrderRequest where
  "zero_cancel = \<lparr>cq_UserID = []\<rparr>"

text \<open>
  \<open>Decoder.Decode\<close> on a body cut at the limit: it takes the first value and ignores what follows. An object or
  array ends with its bracket; any other value ends only at the byte after it or at the end of the input, which
  is not seen when the limit cut the body there.
\<close>

fun bracketed :: "json \<Rightarrow> bool" where
  "bracketed (JObj ms) = True"
| "bracketed (JArr xs) = True"
| "bracketed _ = False"

definition decode_body :: "'r field list \<Rightarrow> 'r \<Rightarrow> string \<Rightarrow> bool \<Rightarrow> 'r option" where
  "decode_body fs zero bytes over =
     (case parse_first bytes of
        None \<Rightarrow> None
      | Some (j, rest) \<Rightarrow>
          if over \<and> rest = [] \<and> \<not> bracketed j then None
          else (case decode_into fs zero j of (r, ok) \<Rightarrow> if ok then Some r else None))"

definition decode_place :: "string \<Rightarrow> bool \<Rightarrow> PlaceOrderRequest option" where
  "decode_place = decode_body place_fields zero_place"

definition decode_cancel :: "string \<Rightarrow> bool \<Rightarrow> CancelOrderRequest option" where
  "decode_cancel = decode_body cancel_fields zero_cancel"

text \<open>The handlers with the decoder of the standard library.\<close>

definition json_henv :: "HEnv \<Rightarrow> HEnv" where
  "json_henv henv = henv\<lparr>he_decodePlace := decode_place, he_decodeCancel := decode_cancel\<rparr>"

text \<open>What a client sends, printed compactly.\<close>

definition place_json :: "PlaceOrderRequest \<Rightarrow> json" where
  "place_json r = JObj
     [(''user_id'', JStr (pr_UserID r)), (''side'', JStr (pr_Side r)), (''type'', JStr (pr_Type r)),
      (''price_cents'', (case pr_PriceCents r of None \<Rightarrow> JNull | Some p \<Rightarrow> JNum (FormatInt p))), (''quantity'', JNum (FormatInt (pr_Quantity r)))]"

section \<open>Responses\<close>

text \<open>
  A \<open>time.Time\<close> is encoded in RFC 3339 with nanoseconds, in its own zone; a year beyond four digits or a zone of a day
  and more is refused.
\<close>

definition encodable_time :: "int \<Rightarrow> time \<Rightarrow> bool" where
  "encodable_time off t =
     (case local_civil off t of (y, m, d) \<Rightarrow> 0 \<le> y \<and> y \<le> 9999 \<and> (off = 0 \<or> \<bar>off\<bar> div 60 \<le> 23))"

definition time_json :: "int \<Rightarrow> time \<Rightarrow> json option" where
  "time_json off t = (if encodable_time off t then Some (JStr (FormatRFC3339Nano off t)) else None)"

text \<open>A time read from the database comes in the zone of the connection.\<close>

abbreviation stored_time :: "TEnv \<Rightarrow> time \<Rightarrow> json option" where
  "stored_time tenv t \<equiv> time_json (te_zone tenv t) t"

definition num :: "int64 \<Rightarrow> json" where
  "num n = JNum (FormatInt n)"

text \<open>All members in the order of the struct's fields; \<open>None\<close> when one of them cannot be encoded.\<close>

fun members :: "(string \<times> json option) list \<Rightarrow> (string \<times> json) list option" where
  "members [] = Some []"
| "members ((k, v) # kvs) = (case (v, members kvs) of (Some x, Some ms) \<Rightarrow> Some ((k, x) # ms) | _ \<Rightarrow> None)"

definition struct_json :: "(string \<times> json option) list \<Rightarrow> json option" where
  "struct_json kvs = map_option JObj (members kvs)"

definition array_json :: "json option list \<Rightarrow> json option" where
  "array_json xs = map_option JArr (those xs)"

definition trade_json :: "TEnv \<Rightarrow> TradeDTO \<Rightarrow> json option" where
  "trade_json tenv t = struct_json
     [(''trade_id'', Some (JStr (td_TradeID t))), (''buy_order_id'', Some (JStr (td_BuyOrderID t))),
      (''sell_order_id'', Some (JStr (td_SellOrderID t))), (''price_cents'', Some (num (td_PriceCents t))),
      (''quantity'', Some (num (td_Quantity t))), (''executed_at'', stored_time tenv (td_ExecutedAt t))]"

definition user_json :: "TEnv \<Rightarrow> UserDTO \<Rightarrow> json option" where
  "user_json tenv u = struct_json
     [(''id'', Some (JStr (ud_ID u))), (''username'', Some (JStr (ud_Username u))), (''created_at'', stored_time tenv (ud_CreatedAt u))]"

definition order_json :: "TEnv \<Rightarrow> GetOrderResponse \<Rightarrow> json option" where
  "order_json tenv r = struct_json
     [(''order_id'', Some (JStr (go_OrderID r))), (''status'', Some (JStr (go_Status r))), (''filled_quantity'', Some (num (go_FilledQuantity r))),
      (''quantity'', Some (num (go_Quantity r))),
      (''price_cents'', Some (case go_PriceCents r of None \<Rightarrow> JNull | Some p \<Rightarrow> num p)),
      (''side'', Some (JStr (go_Side r))), (''type'', Some (JStr (go_Type r))),
      (''created_at'', stored_time tenv (go_CreatedAt r)), (''updated_at'', stored_time tenv (go_UpdatedAt r))]"

definition wallet_json :: "GetWalletResponse \<Rightarrow> json option" where
  "wallet_json r = struct_json
     [(''user_id'', Some (JStr (gw_UserID r))), (''balance_brl_cents'', Some (num (gw_BalanceBRLCents r))),
      (''reserved_brl_cents'', Some (num (gw_ReservedBRLCents r))), (''available_brl_cents'', Some (num (gw_AvailableBRLCents r))),
      (''balance_vibranium'', Some (num (gw_BalanceVibranium r))), (''reserved_vibranium'', Some (num (gw_ReservedVibranium r))),
      (''available_vibranium'', Some (num (gw_AvailableVibranium r)))]"

text \<open>The time of a placed order is \<open>time.Now().UTC()\<close>. \<open>next_cursor\<close> is \<open>omitempty\<close>. A body that is no struct (\<open>/ping\<close>, a recovered panic) writes nothing.\<close>

fun body_json :: "TEnv \<Rightarrow> Body \<Rightarrow> json option" where
  "body_json tenv NoBody = None"
| "body_json tenv (ErrorBody e) = struct_json [(''code'', Some (JStr (er_Code e))), (''message'', Some (JStr (er_Message e)))]"
| "body_json tenv (PlacedBody r) = struct_json
     [(''order_id'', Some (JStr (ps_OrderID r))), (''status'', Some (JStr (ps_Status r))), (''created_at'', time_json 0 (ps_CreatedAt r))]"
| "body_json tenv (CancelBody r) = struct_json [(''order_id'', Some (JStr (cs_OrderID r))), (''status'', Some (JStr (cs_Status r)))]"
| "body_json tenv (OrderBody r) = order_json tenv r"
| "body_json tenv (WalletBody r) = wallet_json r"
| "body_json tenv (TradesBody ts cur) = struct_json
     ([(''trades'', array_json (map (trade_json tenv) ts))] @ (if cur = [] then [] else [(''next_cursor'', Some (JStr cur))]))"
| "body_json tenv (UserBody u) = user_json tenv u"
| "body_json tenv (UsersBody us) = struct_json [(''users'', array_json (map (user_json tenv) us))]"

text \<open>\<open>writeJSON\<close>: \<open>Encoder.Encode\<close> adds a newline; when it fails, its error is dropped and the body stays empty.\<close>

definition body_bytes :: "TEnv \<Rightarrow> Body \<Rightarrow> string" where
  "body_bytes tenv b = (case body_json tenv b of None \<Rightarrow> [] | Some j \<Rightarrow> print_json j @ [CHR 0x0A])"

section \<open>The request log\<close>

text \<open>
  \<open>RequestLogging\<close> sits inside \<open>Recoverer\<close>: when the handler panics, its line is never written. The clock and the span
  of the request are parameters.
\<close>

record LogEnv =
  lg_span :: "(string \<times> string) option"
  lg_start :: time
  lg_stop :: time

record LogLine =
  ll_trace :: "(string \<times> string) list"
  ll_method :: string
  ll_path :: string
  ll_status :: nat
  ll_latency :: time
  ll_requestID :: string

definition TraceFields :: "LogEnv \<Rightarrow> (string \<times> string) list" where
  "TraceFields lg = (case lg_span lg of None \<Rightarrow> [] | Some (t, s) \<Rightarrow> [(''trace_id'', t), (''span_id'', s)])"

text \<open>The answer of a handler, as the recovered panic of \<^theory_text>\<open>recovered\<close> or as written.\<close>

definition panicked :: "nat \<times> Body \<Rightarrow> bool" where
  "panicked answer \<longleftrightarrow> answer = (500, NoBody)"

definition RequestLogging :: "LogEnv \<Rightarrow> HttpRequest \<Rightarrow> string \<Rightarrow> 'w handler \<Rightarrow> 'w \<Rightarrow> ((nat \<times> Body) \<times> LogLine option) \<times> 'w" where
  "RequestLogging lg r rid next w =
     (case next w of (answer, w') \<Rightarrow>
        ((answer, if panicked answer then None
          else Some \<lparr>ll_trace = TraceFields lg, ll_method = rq_method r, ll_path = rq_path r, ll_status = fst answer,
                     ll_latency = lg_stop lg - lg_start lg, ll_requestID = rid\<rparr>), w'))"

definition serve_logged :: "LogEnv \<Rightarrow> HEnv \<Rightarrow> HttpRequest \<Rightarrow> 'z World_scheme \<Rightarrow> (HttpResponse \<times> LogLine option) \<times> 'z World_scheme" where
  "serve_logged lg henv r w =
     (case CorrelationID henv r w of (rid, w1) \<Rightarrow>
        (case RequestLogging lg r rid
            (case he_match henv (rq_method r) (rq_path r) of
               None \<Rightarrow> writeJSON (he_unmatched henv (rq_method r) (rq_path r)) NoBody
             | Some rt \<Rightarrow> dispatch henv rt r) w1 of
           (((status, body), line), w2) \<Rightarrow> ((\<lparr>rs_status = status, rs_requestID = rid, rs_body = body\<rparr>, line), w2)))"

lemma serve_logged_serve:
  "(fst (fst (serve_logged lg henv r w)), snd (serve_logged lg henv r w)) = serve henv r w"
  by (simp add: serve_logged_def serve_def RequestLogging_def writeJSON_def split: prod.split option.split)

lemma line_matches_response:
  "serve_logged lg henv r w = ((rs, Some l), w') \<Longrightarrow> ll_status l = rs_status rs \<and> ll_requestID l = rs_requestID rs"
  by (auto simp: serve_logged_def RequestLogging_def split: prod.splits option.splits if_splits)

lemma no_line_means_panic:
  "serve_logged lg henv r w = ((rs, None), w') \<Longrightarrow> rs_status rs = 500 \<and> rs_body rs = NoBody"
  by (auto simp: serve_logged_def RequestLogging_def panicked_def split: prod.splits option.splits if_splits)

section \<open>Requests arrive\<close>

definition wire_request :: "PlaceOrderRequest \<Rightarrow> bool" where
  "wire_request req \<longleftrightarrow> valid_utf8 (pr_UserID req) \<and> valid_utf8 (pr_Side req) \<and> valid_utf8 (pr_Type req) \<and>
     in64 (pr_Quantity req) \<and> (\<forall>p. pr_PriceCents req = Some p \<longrightarrow> in64 p)"

lemma field_names_valid:
  "ascii s \<Longrightarrow> valid_utf8 s" "valid_utf8 ''user_id''" "valid_utf8 ''side''" "valid_utf8 ''type''" "valid_utf8 ''price_cents''"
  "valid_utf8 ''quantity''"
  by (simp_all add: ascii_utf8)

lemma place_json_ok:
  assumes "wire_request req"
  shows "json_ok (place_json req)" "nesting (place_json req) \<le> maxNestingDepth"
proof -
  have "int_literal (FormatInt n)" for n by (auto simp: int_literal_def)
  then show "json_ok (place_json req)"
    using assms by (simp add: place_json_def wire_request_def field_names_valid split: option.split)
  show "nesting (place_json req) \<le> maxNestingDepth" by (simp add: place_json_def maxNestingDepth_def split: option.split)
qed

lemma decode_place_members:
  assumes "wire_request req"
  shows "decode_into place_fields zero_place (place_json req) = (req, True)"
proof -
  let ?d = "decode_member place_fields"
  have str: "?d (''user_id'', JStr s) acc = ((fst acc)\<lparr>pr_UserID := s\<rparr>, snd acc)"
      "?d (''side'', JStr s) acc = ((fst acc)\<lparr>pr_Side := s\<rparr>, snd acc)"
      "?d (''type'', JStr s) acc = ((fst acc)\<lparr>pr_Type := s\<rparr>, snd acc)" for s acc
    by (subst decode_field, simp add: place_fields_def, simp add: string_field_def)+
  have price: "?d (''price_cents'', case p of None \<Rightarrow> JNull | Some n \<Rightarrow> JNum (FormatInt n)) acc = ((fst acc)\<lparr>pr_PriceCents := p\<rparr>, snd acc)"
    if "\<forall>n. p = Some n \<longrightarrow> in64 n" for p acc
    using that by (subst decode_field, simp add: place_fields_def) (simp add: int_pointer_field_def ParseInt_FormatInt split: option.split)
  have qty: "?d (''quantity'', JNum (FormatInt n)) acc = ((fst acc)\<lparr>pr_Quantity := n\<rparr>, snd acc)" if "in64 n" for n acc
    using that by (subst decode_field, simp add: place_fields_def) (simp add: int_field_def ParseInt_FormatInt)
  show ?thesis
    using assms by (simp add: decode_into_def place_json_def str price qty wire_request_def zero_place_def)
qed

lemma limited_decode:
  assumes "json_ok j" "nesting j \<le> maxNestingDepth" "bracketed j" "delimited r" "length (print_json j) \<le> maxRequestBodyBytes"
    and "decode_into fs zero j = (x, True)"
  shows "limited (decode_body fs zero) (print_json j @ r) = Some x"
proof -
  have "delimited (take n r)" for n using assms(4) by (cases r; cases n) (simp_all add: delimited_def)
  then have "parse_first (take maxRequestBodyBytes (print_json j @ r)) = Some (j, take (maxRequestBodyBytes - length (print_json j)) r)"
    using parse_print_first [OF assms(1,2)] assms(5) by simp
  then show ?thesis using assms(3,6) by (simp add: limited_def decode_body_def)
qed

lemma place_request_decoded:
  assumes "wire_request req" "delimited r" "length (print_json (place_json req)) \<le> maxRequestBodyBytes"
  shows "limited decode_place (print_json (place_json req) @ r) = Some req"
  unfolding decode_place_def
  using limited_decode [OF place_json_ok [OF assms(1)] _ assms(2,3) decode_place_members [OF assms(1)]]
  by (simp add: place_json_def)

lemma cancel_request_decoded:
  assumes "valid_utf8 u" "delimited r" "length (print_json (JObj [(''user_id'', JStr u)])) \<le> maxRequestBodyBytes"
  shows "limited decode_cancel (print_json (JObj [(''user_id'', JStr u)]) @ r) = Some \<lparr>cq_UserID = u\<rparr>"
  unfolding decode_cancel_def
proof (rule limited_decode [OF _ _ _ assms(2,3)])
  show "decode_into cancel_fields zero_cancel (JObj [(''user_id'', JStr u)]) = (\<lparr>cq_UserID = u\<rparr>, True)"
    by (simp add: decode_into_def, subst decode_field, simp add: cancel_fields_def, simp add: string_field_def zero_cancel_def)
qed (use assms(1) in \<open>simp_all add: field_names_valid maxNestingDepth_def\<close>)

section \<open>Numbers fit\<close>

lemma decode_invariant:
  assumes "\<And>k f v g x. (k, f) \<in> set fs \<Longrightarrow> f v = Some g \<Longrightarrow> P x \<Longrightarrow> P (g x)" and "P x"
  shows "P (fst (decode_into fs x j))"
proof -
  have member: "P (fst (decode_member fs kv acc))" if "P (fst acc)" for kv acc
  proof (cases "lookup_field fs (fst kv)")
    case (Some f)
    then obtain k where "(k, f) \<in> set fs"
      by (auto simp: lookup_field_def find_Some_iff split: option.splits dest!: map_of_SomeD) (metis nth_mem)
    then show ?thesis using assms(1) [of k f "snd kv"] that Some by (auto simp: decode_member_def split: option.split)
  qed (use that in \<open>simp add: decode_member_def\<close>)
  have "P (fst (fold (decode_member fs) ms acc))" if "P (fst acc)" for ms acc
    using that by (induction ms arbitrary: acc) (simp_all add: member)
  then show ?thesis using assms(2) by (simp add: decode_into_def split: json.split)
qed

lemma decode_place_fits:
  assumes "decode_place bytes over = Some req"
  shows "in64 (pr_Quantity req) \<and> (\<forall>p. pr_PriceCents req = Some p \<longrightarrow> in64 p)"
proof -
  let ?P = "\<lambda>r. in64 (pr_Quantity r) \<and> (\<forall>p. pr_PriceCents r = Some p \<longrightarrow> in64 p)"
  obtain j where "decode_into place_fields zero_place j = (req, True)"
    using assms by (auto simp: decode_place_def decode_body_def split: option.splits prod.splits if_splits)
  then have "req = fst (decode_into place_fields zero_place j)" by simp
  moreover have "?P (fst (decode_into place_fields zero_place j))" for j
  proof (rule decode_invariant)
    show "?P zero_place" by (simp add: zero_place_def in64_def MinInt64_def MaxInt64_def)
  qed (auto simp: place_fields_def string_field_def int_field_def int_pointer_field_def ParseInt_range split: json.splits)
  ultimately show ?thesis by simp
qed

section \<open>Responses are read\<close>

text \<open>The strings of a body.\<close>

fun body_text :: "Body \<Rightarrow> string list" where
  "body_text NoBody = []"
| "body_text (ErrorBody e) = [er_Code e, er_Message e]"
| "body_text (PlacedBody r) = [ps_OrderID r, ps_Status r]"
| "body_text (CancelBody r) = [cs_OrderID r, cs_Status r]"
| "body_text (OrderBody r) = [go_OrderID r, go_Status r, go_Side r, go_Type r]"
| "body_text (WalletBody r) = [gw_UserID r]"
| "body_text (TradesBody ts cur) = cur # concat (map (\<lambda>t. [td_TradeID t, td_BuyOrderID t, td_SellOrderID t]) ts)"
| "body_text (UserBody u) = [ud_ID u, ud_Username u]"
| "body_text (UsersBody us) = concat (map (\<lambda>u. [ud_ID u, ud_Username u]) us)"

lemma format_ascii: "ascii (FormatRFC3339Nano off t)"
proof -
  have digit: "is_digit c \<Longrightarrow> (of_char c :: nat) < 128" for c by (simp add: is_digit_def)
  note low = pad_digits_digits print_nat_digits
  have int: "ascii (append_int w x)" for w x
    using low by (auto simp: append_int_def ascii_def list_all_iff Let_def split: if_splits intro!: digit)
  have "ascii (frac_part ns)" for ns
    using low by (auto simp: frac_part_def trim_zeros_def ascii_def list_all_iff dest!: set_dropWhileD intro!: digit)
  with int show ?thesis by (auto simp: FormatRFC3339Nano_def zone_part_def Let_def split: prod.splits)
qed

definition fine :: "nat \<Rightarrow> json \<Rightarrow> bool" where
  "fine d j \<longleftrightarrow> json_ok j \<and> nesting j \<le> d"

lemma fine_mono: "fine d j \<Longrightarrow> d \<le> d' \<Longrightarrow> fine d' j"
  by (simp add: fine_def)

lemma fine_values [simp]: "fine d (JStr s) \<longleftrightarrow> valid_utf8 s" "fine d (num n)" "fine d JNull"
  by (auto simp: fine_def num_def int_literal_def)

lemma fine_time: "time_json off t = Some j \<Longrightarrow> fine d j"
  by (auto simp: time_json_def format_ascii field_names_valid split: if_splits)

lemma fine_struct:
  assumes "struct_json kvs = Some j" and "\<And>k v x. (k, v) \<in> set kvs \<Longrightarrow> v = Some x \<Longrightarrow> ascii k \<and> fine d x"
  shows "fine (Suc d) j"
proof -
  obtain ms where ms: "members kvs = Some ms" "j = JObj ms" using assms(1) by (auto simp: struct_json_def)
  have "list_all (\<lambda>(k, x). valid_utf8 k \<and> fine d x) ms"
    using ms(1) assms(2)
  proof (induction kvs arbitrary: ms)
    case (Cons kv kvs)
    obtain k v where kv: "kv = (k, v)" by (cases kv)
    with Cons.prems(1) obtain x ms' where m: "v = Some x" "members kvs = Some ms'" "ms = (k, x) # ms'"
      by (auto split: option.splits)
    then show ?case using Cons.IH [OF m(2)] Cons.prems(2) [of k v x] Cons.prems(2) by (auto simp: kv field_names_valid)
  qed simp
  then show ?thesis
    unfolding ms(2) by (auto simp: fine_def foldr_max_bound list_all_iff)
qed

lemma fine_array:
  assumes "array_json xs = Some j" and "\<And>x. Some x \<in> set xs \<Longrightarrow> fine d x"
  shows "fine (Suc d) j"
proof -
  obtain ys where ys: "those xs = Some ys" "j = JArr ys" using assms(1) by (auto simp: array_json_def)
  have "list_all (fine d) ys"
    using ys(1) assms(2)
  proof (induction xs arbitrary: ys)
    case (Cons x xs)
    then show ?case by (cases x) (auto split: option.splits)
  qed simp
  then show ?thesis unfolding ys(2) by (auto simp: fine_def foldr_max_bound list_all_iff)
qed

lemma fine_rows: "array_json xs = Some a \<Longrightarrow> (\<And>x. Some x \<in> set xs \<Longrightarrow> fine 1 x) \<Longrightarrow> fine 2 a"
  using fine_array [of xs a 1] by (simp add: numeral_2_eq_2)

lemmas fine_flat = fine_struct [where d = 0, simplified]
  and fine_nested = fine_struct [where d = 2, simplified]

lemma trade_json_fine:
  "trade_json tenv t = Some j \<Longrightarrow> valid_utf8 (td_TradeID t) \<Longrightarrow> valid_utf8 (td_BuyOrderID t) \<Longrightarrow> valid_utf8 (td_SellOrderID t) \<Longrightarrow> fine 1 j"
  unfolding trade_json_def by (rule fine_flat [unfolded One_nat_def [symmetric]]) (auto simp: fine_time)

lemma user_json_fine: "user_json tenv u = Some j \<Longrightarrow> valid_utf8 (ud_ID u) \<Longrightarrow> valid_utf8 (ud_Username u) \<Longrightarrow> fine 1 j"
  unfolding user_json_def by (rule fine_flat [unfolded One_nat_def [symmetric]]) (auto simp: fine_time)

lemma body_json_fine:
  assumes "body_json tenv b = Some j" "list_all valid_utf8 (body_text b)"
  shows "fine 3 j"
proof -
  have flat: "fine 1 x \<Longrightarrow> fine 3 x" for x by (erule fine_mono) simp
  show ?thesis
  proof (cases b)
    case (TradesBody ts cur)
    have "fine 2 a" if "array_json (map (trade_json tenv) ts) = Some a" for a
    proof (rule fine_rows [OF that])
      fix x assume "Some x \<in> set (map (trade_json tenv) ts)"
      then obtain e where "e \<in> set ts" "trade_json tenv e = Some x" by auto
      then show "fine 1 x" using assms(2) TradesBody
        by (auto simp del: One_nat_def simp: list_all_iff intro!: trade_json_fine)
    qed
    then show ?thesis using assms TradesBody by (auto elim!: fine_nested split: if_splits)
  next
    case (UsersBody us)
    have "fine 2 a" if "array_json (map (user_json tenv) us) = Some a" for a
    proof (rule fine_rows [OF that])
      fix x assume "Some x \<in> set (map (user_json tenv) us)"
      then obtain e where "e \<in> set us" "user_json tenv e = Some x" by auto
      then show "fine 1 x" using assms(2) UsersBody
        by (auto simp del: One_nat_def simp: list_all_iff intro!: user_json_fine)
    qed
    then show ?thesis using assms UsersBody by (auto elim!: fine_nested split: if_splits)
  next
    case (UserBody u)
    then show ?thesis using assms by (auto intro!: flat user_json_fine)
  qed (use assms in \<open>auto simp: order_json_def wallet_json_def fine_time intro!: flat [unfolded One_nat_def] elim!: fine_flat split: option.splits\<close>)
qed


section \<open>Properties\<close>

text \<open>
  C21: a placed order arrives as it was sent. A body that prints the request (any side, type, price, absent included,
  and quantity of 64 bits), alone or followed by other bytes such as a newline, decodes to that request under the body limit,
  and the handler with the standard decoder does with it what the handler given the request itself does.
\<close>

theorem request_survives_wire:
  assumes "wire_request req" "delimited rest" "length (print_json (place_json req)) \<le> maxRequestBodyBytes"
    and "rq_body r = print_json (place_json req) @ rest"
  shows "limited decode_place (rq_body r) = Some req \<and>
    PlaceOrderH (json_henv henv) r w = PlaceOrderH (henv\<lparr>he_decodePlace := \<lambda>bytes over. Some req\<rparr>) r w"
proof -
  have "limited decode_place (rq_body r) = Some req" unfolding assms(4) by (rule place_request_decoded [OF assms(1-3)])
  then show ?thesis by (simp add: PlaceOrderH_def json_henv_def limited_def place_input_def parse_or_nil_def cong: option.case_cong sum.case_cong)
qed

definition wire_order :: PlaceOrderRequest where
  "wire_order = \<lparr>pr_UserID = ''1'', pr_Side = ''SELL'', pr_Type = ''LIMIT'', pr_PriceCents = Some 1000, pr_Quantity = 4\<rparr>"

lemma wire_order_ok: "wire_request wire_order" "length (print_json (place_json wire_order)) \<le> maxRequestBodyBytes"
proof -
  show "wire_request wire_order" by (simp add: wire_request_def wire_order_def in64_def MinInt64_def MaxInt64_def ascii_utf8)
  show "length (print_json (place_json wire_order)) \<le> maxRequestBodyBytes" by code_simp
qed

theorem request_survives_wire_witness:
  "limited decode_place (print_json (place_json wire_order) @ [CHR 0x0A]) = Some wire_order"
  using request_survives_wire [OF wire_order_ok(1) _ wire_order_ok(2), of "[CHR 0x0A]"
      "http_call ''POST'' ''/orders'' (print_json (place_json wire_order) @ [CHR 0x0A])" http_env0 sample_world, THEN conjunct1]
  by (simp add: http_call_def)





end
