(* ===== verification/Match_Properties.thy ===== *)
theory Match_Properties
  imports Match_Correct
begin

text \<open>
  What price-time matching promises, derived from the walk of \<open>Match_Correct\<close> and stated of \<open>Match\<close>:
  nothing is created or lost, every trade is at the maker's price and within the taker's limit, in the
  order of the priority list; the buyer's funds cover the trades; the book is never left crossed.
\<close>

section \<open>Facts on the walk\<close>

definition traded :: "MTrade list \<Rightarrow> int" where
  "traded ts = sum_list (map mt_Quantity ts)"

definition notional :: "MTrade list \<Rightarrow> int" where
  "notional ts = sum_list (map (\<lambda>t. mt_PriceCents t * mt_Quantity t) ts)"

definition depth :: "Order list \<Rightarrow> int" where
  "depth xs = sum_list (map open_qty xs)"

lemma sums_simps [simp]:
  "traded [] = 0" "traded (t # ts) = mt_Quantity t + traded ts"
  "notional [] = 0" "notional (t # ts) = mt_PriceCents t * mt_Quantity t + notional ts"
  "depth [] = 0" "depth (x # xs) = open_qty x + depth xs"
  by (simp_all add: traded_def notional_def depth_def)

lemma make_trade_simps [simp]:
  "mt_Quantity (make_trade inc m p q) = q" "mt_PriceCents (make_trade inc m p q) = p"
  "make_trade (filled_by t x inc) m p q = make_trade inc m p q"
  "make_trade inc (filled_by t x m) p q = make_trade inc m p q"
  by (simp_all add: make_trade_def)

lemma filled_price [simp]: "price_of (filled_by t q m) = price_of m"
  by (simp add: price_of_def)

lemma crosses_filled [simp]:
  "crosses (filled_by t q inc) m = crosses inc m" "crosses inc (filled_by t q m) = crosses inc m"
  by (simp_all add: crosses_def)

lemma spec_conservation:
  assumes "inc_ok inc" "funds_ok funds" "\<forall>m\<in>set xs. resting_ok m" "r = match_spec clk n inc funds xs"
  shows "open_qty (so_incoming r) = open_qty inc - traded (so_trades r) \<and>
    depth (so_rest r) = depth xs - traded (so_trades r) \<and> 0 \<le> open_qty (so_incoming r)"
  unfolding assms(4) using assms(1-3)
  by (induction rule: match_spec_induct) (auto simp: inc_ok_def order_ok_def open_qty_def)

lemma spec_funds:
  assumes "inc_ok inc" "funds_ok funds" "\<forall>m\<in>set xs. resting_ok m" "r = match_spec clk n inc funds xs"
  shows "so_funds r = (if isBuyMarket inc then map_option (\<lambda>f. f - notional (so_trades r)) funds else funds)"
  unfolding assms(4) using assms(1-3)
  by (induction rule: match_spec_induct) (auto simp: charge_def option.map_comp o_def algebra_simps option.map_ident)

text \<open>The trades run down the list: the \<open>i\<close>-th trade is with the \<open>i\<close>-th order, at its price.\<close>

definition trade_with :: "Order \<Rightarrow> Order \<Rightarrow> MTrade \<times> Order \<Rightarrow> bool" where
  "trade_with inc m tm \<longleftrightarrow> (case tm of (t, m') \<Rightarrow>
     crosses inc m \<and> 0 < mt_Quantity t \<and> mt_Quantity t \<le> open_qty m \<and>
     t = make_trade inc m (price_of m) (mt_Quantity t) \<and> (\<exists>u. m' = filled_by u (mt_Quantity t) m))"

lemma trade_with_filled [simp]: "trade_with (filled_by t q inc) = trade_with inc"
  by (intro ext) (simp add: trade_with_def)

definition walked :: "Order \<Rightarrow> Order list \<Rightarrow> spec_out \<Rightarrow> nat \<Rightarrow> bool" where
  "walked inc xs r k \<longleftrightarrow> length (so_trades r) = k \<and> length (so_makers r) = k \<and> k \<le> length xs \<and>
     list_all2 (trade_with inc) (take k xs) (zip (so_trades r) (so_makers r)) \<and>
     (so_rest r = drop k xs \<or> 0 < k \<and> so_rest r = last (so_makers r) # drop k xs \<and> resting_ok (last (so_makers r)))"

lemma spec_walked:
  assumes "inc_ok inc" "funds_ok funds" "\<forall>m\<in>set xs. resting_ok m" "r = match_spec clk n inc funds xs"
  shows "\<exists>k. walked inc xs r k"
  unfolding assms(4) using assms(1-3)
proof (induction rule: match_spec_induct)
  case (stop n inc funds xs)
  then show ?case by (simp add: walked_def)
next
  case (partial n inc funds m ms q)
  then have "resting_ok (filled_by (clk (Suc n)) q m)"
    using resting_ok_filled resting_open(1) by simp
  with partial show ?case by (intro exI [of _ 1]) (auto simp: walked_def trade_with_def)
next
  case (full n inc funds m ms q r)
  then obtain k where "walked inc ms r k" by (auto simp: walked_def)
  with full show ?case by (intro exI [of _ "Suc k"]) (auto simp: walked_def trade_with_def)
qed

lemma walked_trades:
  assumes "walked inc xs r k" "t \<in> set (so_trades r)"
  obtains m where "m \<in> set xs" "crosses inc m" "0 < mt_Quantity t" "t = make_trade inc m (price_of m) (mt_Quantity t)"
proof -
  have la: "list_all2 (trade_with inc) (take k xs) (zip (so_trades r) (so_makers r))"
    and len: "length (so_trades r) = k" "length (so_makers r) = k" "k \<le> length xs"
    using assms(1) by (auto simp: walked_def)
  obtain i where i: "i < k" "t = so_trades r ! i" using assms(2) len by (metis in_set_conv_nth)
  then have "trade_with inc (xs ! i) (t, so_makers r ! i)"
    using list_all2_nthD [OF la, of i] len by simp
  moreover have "xs ! i \<in> set xs" using i len by simp
  ultimately show ?thesis by (intro that [of "xs ! i"]) (auto simp: trade_with_def)
qed

lemma walked_positive: "walked inc xs r k \<Longrightarrow> \<forall>t\<in>set (so_trades r). 0 < mt_Quantity t"
  by (metis walked_trades)

text \<open>When the walk stops, something is exhausted: the order, the list, the limit or the funds.\<close>

definition exhausted :: "Order \<Rightarrow> spec_out \<Rightarrow> bool" where
  "exhausted inc r \<longleftrightarrow> (case so_rest r of [] \<Rightarrow> True
     | m # _ \<Rightarrow> open_qty (so_incoming r) = 0 \<or> \<not> crosses inc m \<or>
         (\<exists>f. isBuyMarket inc \<and> so_funds r = Some f \<and> f < price_of m))"

lemma spec_qty_0:
  assumes "resting_ok m" "funds_ok funds" "spec_qty inc funds m = 0" "0 \<le> open_qty inc"
  shows "open_qty inc = 0 \<or> (\<exists>f. isBuyMarket inc \<and> funds = Some f \<and> f < price_of m)"
  using assms resting_open [OF assms(1)]
  by (auto simp: spec_qty_def funds_ok_def Let_def min_def zdiv_eq_0_iff split: option.splits if_splits)

lemma inc_open: "inc_ok inc \<Longrightarrow> 0 \<le> open_qty inc"
  by (auto simp: inc_ok_def order_ok_def open_qty_def)

lemma spec_exhausted:
  assumes "inc_ok inc" "funds_ok funds" "\<forall>m\<in>set xs. resting_ok m" "r = match_spec clk n inc funds xs"
  shows "exhausted inc r"
  unfolding assms(4) using assms(1-3)
proof (induction rule: match_spec_induct)
  case (stop n inc funds xs)
  then show ?case
    using spec_qty_0 [OF _ stop(2) _ inc_open [OF stop(1)]] by (cases xs) (auto simp: exhausted_def)
next
  case (partial n inc funds m ms q)
  let ?m = "filled_by (clk (Suc n)) q m"
  have "resting_ok ?m" using partial resting_ok_filled resting_open(1) by simp
  moreover have "spec_qty (filled_by (clk n) q inc) (charge inc funds q m) ?m = 0"
    using partial by (intro partial_exhausts) auto
  ultimately show ?case
    using spec_qty_0 [OF _ partial(11) _ inc_open [OF partial(10)], of ?m] by (auto simp: exhausted_def)
next
  case (full n inc funds m ms q r)
  then show ?case by (simp add: exhausted_def split: list.splits)
qed

section \<open>Crossed books\<close>

definition uncrossed :: "Book \<Rightarrow> bool" where
  "uncrossed b \<longleftrightarrow> (\<forall>x\<in>set (priority b SideBuy). \<forall>y\<in>set (priority b SideSell). price_of x < price_of y)"

lemma uncrossed_side:
  "s \<in> sides \<Longrightarrow> uncrossed b \<longleftrightarrow> (\<forall>x\<in>set (priority b s). \<forall>y\<in>set (priority b (opposite s)). better s (price_of y) (price_of x))"
  by (auto simp: uncrossed_def opposite_def cmp_of_def)

lemma not_crosses:
  "o_Type inc = TypeLimit \<Longrightarrow> o_Side inc \<in> sides \<Longrightarrow> \<not> crosses inc m \<longleftrightarrow> better (o_Side inc) (price_of m) (price_of inc)"
  by (auto simp: crosses_def cmp_of_def)

lemma beyond_head:
  assumes "better s (price_of m) p" "\<not> better (opposite s) (price_of y) (price_of m)" "s \<in> sides"
  shows "better s (price_of y) p"
  using assms by (auto simp: cmp_of_def opposite_def split: if_splits)

lemma rest_prices:
  assumes "walked inc xs r k"
  shows "price_of ` set (so_rest r) \<subseteq> price_of ` set xs"
proof -
  have "price_of (last (so_makers r)) \<in> price_of ` set xs" if "0 < k"
  proof -
    have la: "list_all2 (trade_with inc) (take k xs) (zip (so_trades r) (so_makers r))" and len: "length (so_makers r) = k"
        "length (so_trades r) = k" "k \<le> length xs"
      using assms by (auto simp: walked_def)
    then have "trade_with inc (xs ! (k - 1)) (zip (so_trades r) (so_makers r) ! (k - 1))"
      using list_all2_nthD [OF la, of "k - 1"] that by simp
    then have "price_of (so_makers r ! (k - 1)) = price_of (xs ! (k - 1))"
      using len that by (auto simp: trade_with_def)
    moreover have "so_makers r \<noteq> []" using len that by auto
    ultimately show ?thesis using len that by (simp add: last_conv_nth)
  qed
  moreover have "price_of ` set (drop k xs) \<subseteq> price_of ` set xs" by (intro image_mono set_drop_subset)
  moreover have "so_rest r = drop k xs \<or> 0 < k \<and> so_rest r = last (so_makers r) # drop k xs"
    using assms by (auto simp: walked_def)
  ultimately show ?thesis by (elim disjE) simp_all
qed

text \<open>The shape every property below instantiates: the walk and the book \<open>Match\<close> leaves.\<close>

definition match_outcome :: "Book \<Rightarrow> Order \<Rightarrow> int option \<Rightarrow> MatchResult \<Rightarrow> Book \<Rightarrow> spec_out \<Rightarrow> nat \<Rightarrow> bool" where
  "match_outcome b inc funds res b' r k \<longleftrightarrow> book_ok b' \<and>
    mr_Trades res = so_trades r \<and> mr_TouchedMakers res = so_makers r \<and>
    (mr_RestedOnBook res \<longleftrightarrow> 0 < open_qty (so_incoming r) \<and> o_Type inc = TypeLimit) \<and>
    mr_CancelledQuantity res = (if o_Type inc = TypeMarket then open_qty (so_incoming r) else 0) \<and>
    o_FilledQuantity (mr_Incoming res) = o_FilledQuantity (so_incoming r) \<and> o_Quantity (mr_Incoming res) = o_Quantity inc \<and>
    o_Status (mr_Incoming res) = (if 0 < mr_CancelledQuantity res then StatusCancelled else o_Status (so_incoming r)) \<and>
    priority b' (opposite (o_Side inc)) = so_rest r \<and>
    priority b' (o_Side inc) = (if mr_RestedOnBook res then insert_priority (so_incoming r) (priority b (o_Side inc)) else priority b (o_Side inc)) \<and>
    walked inc (priority b (opposite (o_Side inc))) r k \<and> exhausted inc r \<and>
    open_qty (so_incoming r) = open_qty inc - traded (so_trades r) \<and> 0 \<le> open_qty (so_incoming r) \<and>
    depth (so_rest r) = depth (priority b (opposite (o_Side inc))) - traded (so_trades r) \<and>
    so_funds r = (if isBuyMarket inc then map_option (\<lambda>f. f - notional (so_trades r)) funds else funds) \<and>
    inc_ok (so_incoming r) \<and> funds_ok (so_funds r) \<and> o_PriceCents (so_incoming r) = o_PriceCents inc \<and>
    o_Quantity (so_incoming r) = o_Quantity inc \<and> resting_ids b' \<subseteq> insert (o_ID inc) (resting_ids b)"

lemma outcome_walked: "match_outcome b inc funds res b' r k \<Longrightarrow> walked inc (priority b (opposite (o_Side inc))) r k"
  by (simp add: match_outcome_def)

lemma Match_outcome:
  assumes "book_ok b" "inc_ok inc" "funds_ok funds" "o_ID inc \<notin> resting_ids b"
  obtains r b' res k where "Match clk b inc funds = Some (Inr (res, b', so_funds r))" "match_outcome b inc funds res b' r k"
proof -
  let ?xs = "priority b (opposite (o_Side inc))"
  define r where "r = match_spec clk 0 inc funds ?xs"
  have res: "\<forall>m\<in>set ?xs. resting_ok m"
    using priority_members(1) [OF assms(1)] by (metis insert_iff opposite_sides singletonI)
  obtain k where k: "walked inc ?xs r k" using spec_walked [OF assms(2,3) res r_def] by blast
  note inc = spec_incoming [OF assms(2,3) res r_def]
  note cons = spec_conservation [OF assms(2,3) res r_def]
  have live: "\<not> IsDone (so_incoming r)" if "0 < open_qty (so_incoming r)"
    using inc that live_iff_remaining [of "so_incoming r"] by (auto simp: inc_ok_def)
  define rests drops where "rests \<longleftrightarrow> 0 < open_qty (so_incoming r) \<and> o_Type inc = TypeLimit"
    and "drops \<longleftrightarrow> 0 < open_qty (so_incoming r) \<and> o_Type inc = TypeMarket"
  let ?res = "\<lparr>mr_Trades = so_trades r,
      mr_Incoming = (if drops then CancelOrder (clk (2 * length (so_trades r))) (so_incoming r) else so_incoming r),
      mr_TouchedMakers = so_makers r, mr_RestedOnBook = rests,
      mr_CancelledQuantity = (if drops then open_qty (so_incoming r) else 0)\<rparr>"
  obtain b' where b': "Match clk b inc funds = Some (Inr (?res, b', so_funds r))" "book_ok b'"
      "resting_ids b' \<subseteq> insert (o_ID inc) (resting_ids b)" "priority b' (opposite (o_Side inc)) = so_rest r"
      "priority b' (o_Side inc) = (if rests then insert_priority (so_incoming r) (priority b (o_Side inc)) else priority b (o_Side inc))"
    using Match_refines [OF assms r_def rests_def drops_def] by blast
  have "match_outcome b inc funds ?res b' r k"
    using b'(2-5) k cons inc live spec_exhausted [OF assms(2,3) res r_def] spec_funds [OF assms(2,3) res r_def]
    by (simp add: match_outcome_def CancelOrder_def rests_def drops_def)
  with b'(1) show thesis by (rule that)
qed

section \<open>A book for the witnesses\<close>

definition sample_ask :: Order where
  "sample_ask = \<lparr>o_ID = 1, o_UserID = 9, o_Side = SideSell, o_Type = TypeLimit, o_PriceCents = Some 1000,
     o_Quantity = 5, o_FilledQuantity = 0, o_Status = StatusOpen, o_CreatedAt = 0, o_UpdatedAt = 0\<rparr>"

definition sample_book :: Book where
  "sample_book = (case AddResting sample_ask NewBook of Inr b \<Rightarrow> b | Inl _ \<Rightarrow> NewBook)"

definition sample_limit :: Order where
  "sample_limit = \<lparr>o_ID = 2, o_UserID = 8, o_Side = SideBuy, o_Type = TypeLimit, o_PriceCents = Some 1200,
     o_Quantity = 8, o_FilledQuantity = 0, o_Status = StatusOpen, o_CreatedAt = 0, o_UpdatedAt = 0\<rparr>"

definition sample_market :: Order where
  "sample_market = \<lparr>o_ID = 3, o_UserID = 8, o_Side = SideBuy, o_Type = TypeMarket, o_PriceCents = None,
     o_Quantity = 8, o_FilledQuantity = 0, o_Status = StatusOpen, o_CreatedAt = 0, o_UpdatedAt = 0\<rparr>"

lemma sample_book_ok:
  "book_ok sample_book" "priority sample_book SideSell = [sample_ask]" "priority sample_book SideBuy = []"
  "resting_ids sample_book = {1}"
proof -
  have "resting_ok sample_ask"
    by (simp add: sample_ask_def resting_ok_def order_ok_def MaxInt64_def IsDone_def)
  moreover have "o_ID sample_ask = 1" "o_Side sample_ask = SideSell" by (simp_all add: sample_ask_def)
  ultimately obtain b' where "AddResting sample_ask NewBook = Inr b'" "book_ok b'" "resting_ids b' = {1}"
      "\<forall>s\<in>sides. priority b' s = (if s = SideSell then insert_priority sample_ask [] else [])"
    using book.add_law [OF NewBook_ok, of sample_ask] book.new_law by auto
  then show "book_ok sample_book" "priority sample_book SideSell = [sample_ask]" "priority sample_book SideBuy = []"
    "resting_ids sample_book = {1}"
    by (simp_all add: sample_book_def insert_priority_def)
qed

lemma sample_incoming_ok: "inc_ok sample_limit" "inc_ok sample_market"
  by (simp_all add: sample_limit_def sample_market_def inc_ok_def order_ok_def MaxInt64_def)

lemmas sample_simps = sample_ask_def sample_limit_def sample_market_def opposite_def open_qty_def isBuyMarket_def

section \<open>Properties\<close>

text \<open>
  C1: on a well-formed book, for an order that is not at rest and non-negative funds, \<open>Match\<close> ends without
  a panic and computes exactly the price-time walk: its trades, filled makers, remaining funds and the
  two priority lists are those of the specification, which works on lists and unbounded integers; the
  remainder of a LIMIT order rests, that of a MARKET order is cancelled.
\<close>

theorem Match_implements_walk:
  assumes "book_ok b" "inc_ok inc" "funds_ok funds" "o_ID inc \<notin> resting_ids b"
  shows "\<exists>res b'. let r = match_spec clk 0 inc funds (priority b (opposite (o_Side inc))) in
    Match clk b inc funds = Some (Inr (res, b', so_funds r)) \<and> book_ok b' \<and>
    mr_Trades res = so_trades r \<and> mr_TouchedMakers res = so_makers r \<and>
    mr_RestedOnBook res = (0 < open_qty (so_incoming r) \<and> o_Type inc = TypeLimit) \<and>
    mr_CancelledQuantity res = (if o_Type inc = TypeMarket then open_qty (so_incoming r) else 0) \<and>
    mr_Incoming res = (if 0 < mr_CancelledQuantity res
      then CancelOrder (clk (2 * length (so_trades r))) (so_incoming r) else so_incoming r) \<and>
    priority b' (opposite (o_Side inc)) = so_rest r \<and>
    priority b' (o_Side inc) = (if mr_RestedOnBook res
      then insert_priority (so_incoming r) (priority b (o_Side inc)) else priority b (o_Side inc))"
proof -
  let ?xs = "priority b (opposite (o_Side inc))"
  have res: "\<forall>m\<in>set ?xs. resting_ok m"
    using priority_members(1) [OF assms(1)] by (metis insert_iff opposite_sides singletonI)
  have "0 \<le> open_qty (so_incoming (match_spec clk 0 inc funds ?xs))"
    using spec_conservation [OF assms(2,3) res refl] by blast
  then show ?thesis
    using Match_refines [OF assms refl refl refl, of clk] by (fastforce simp: Let_def)
qed

theorem Match_implements_walk_witness:
  "\<exists>res b'. Match (\<lambda>_. 0) sample_book sample_market (Some 3500) = Some (Inr (res, b', Some 500)) \<and>
     map mt_Quantity (mr_Trades res) = [3] \<and> mr_CancelledQuantity res = 5 \<and> map open_qty (priority b' SideSell) = [2]"
proof -
  have "sample_market = sample_market\<lparr>o_Side := SideBuy\<rparr>" "opposite SideBuy = SideSell" by (simp_all add: sample_simps)
  with Match_implements_walk [of sample_book sample_market "Some 3500" "\<lambda>_. 0"] sample_book_ok sample_incoming_ok
  show ?thesis
    by (fastforce simp: funds_ok_def MaxInt64_def Let_def spec_qty_def crosses_def charge_def price_of_def
        filled_by_def make_trade_def sample_simps)
qed

text \<open>
  C5: matching conserves quantity: what the trades execute is exactly what the incoming order gains in
  filled quantity and exactly what the other side of the book loses; every trade has a positive
  quantity; the order's quantity splits into filled, rested and cancelled without remainder.
\<close>

theorem Match_conserves_quantity:
  assumes "book_ok b" "inc_ok inc" "funds_ok funds" "o_ID inc \<notin> resting_ids b"
  shows "\<exists>res b' funds'. Match clk b inc funds = Some (Inr (res, b', funds')) \<and>
    o_FilledQuantity (mr_Incoming res) = o_FilledQuantity inc + traded (mr_Trades res) \<and>
    depth (priority b' (opposite (o_Side inc))) + traded (mr_Trades res) = depth (priority b (opposite (o_Side inc))) \<and>
    (\<forall>t\<in>set (mr_Trades res). 0 < mt_Quantity t) \<and>
    o_Quantity inc = o_FilledQuantity (mr_Incoming res) + mr_CancelledQuantity res +
      (if mr_RestedOnBook res then open_qty (mr_Incoming res) else 0)"
proof -
  obtain r b' res k where m: "Match clk b inc funds = Some (Inr (res, b', so_funds r))"
    and o: "match_outcome b inc funds res b' r k" by (rule Match_outcome [OF assms, of clk])
  have "o_Type inc = TypeLimit \<or> o_Type inc = TypeMarket" using assms(2) by (auto simp: inc_ok_def)
  moreover have "\<forall>t\<in>set (so_trades r). 0 < mt_Quantity t"
    using walked_positive [OF outcome_walked [OF o]] .
  ultimately show ?thesis
    using m o by (intro exI [of _ res] exI [of _ b'] exI [of _ "so_funds r"]) (auto simp: match_outcome_def open_qty_def)
qed

theorem Match_conserves_quantity_witness:
  "\<exists>res b' funds'. Match (\<lambda>_. 0) sample_book sample_limit None = Some (Inr (res, b', funds')) \<and>
     traded (mr_Trades res) = 5 - depth (priority b' SideSell)"
proof -
  have s: "opposite (o_Side sample_limit) = SideSell" "o_ID sample_limit \<notin> resting_ids sample_book"
    by (simp_all add: sample_simps sample_book_ok)
  obtain res b' f where "Match (\<lambda>_. 0) sample_book sample_limit None = Some (Inr (res, b', f))"
      "depth (priority b' SideSell) + traded (mr_Trades res) = depth (priority sample_book SideSell)"
    using Match_conserves_quantity [OF sample_book_ok(1) sample_incoming_ok(1) _ s(2), of None "\<lambda>_. 0"] s(1)
    by (auto simp: funds_ok_def)
  then show ?thesis by (simp add: sample_book_ok(2) sample_ask_def open_qty_def)
qed

text \<open>
  C6: the trades follow price-time priority: the \<open>i\<close>-th trade is with the \<open>i\<close>-th order of the other side's
  priority list, at exactly that order's price, which a LIMIT order's own price accepts; the touched
  makers are those orders, filled by the traded quantities, and each is touched once.
\<close>

theorem Match_respects_priority:
  assumes "book_ok b" "inc_ok inc" "funds_ok funds" "o_ID inc \<notin> resting_ids b"
  shows "\<exists>res b' funds'. Match clk b inc funds = Some (Inr (res, b', funds')) \<and>
    (let k = length (mr_Trades res); xs = priority b (opposite (o_Side inc)) in
      k \<le> length xs \<and> length (mr_TouchedMakers res) = k \<and> distinct (map o_ID (mr_TouchedMakers res)) \<and>
      (\<forall>i<k. let t = mr_Trades res ! i; m = xs ! i; m' = mr_TouchedMakers res ! i in
        t = make_trade inc m (price_of m) (mt_Quantity t) \<and> (\<exists>now. m' = filled_by now (mt_Quantity t) m) \<and>
        mt_Quantity t \<le> open_qty m \<and>
        (o_Type inc = TypeLimit \<longrightarrow> \<not> better (o_Side inc) (price_of m) (price_of inc))))"
proof -
  obtain r b' res k where m: "Match clk b inc funds = Some (Inr (res, b', so_funds r))"
    and o: "match_outcome b inc funds res b' r k" by (rule Match_outcome [OF assms, of clk])
  let ?xs = "priority b (opposite (o_Side inc))"
  have w: "length (so_trades r) = k" "length (so_makers r) = k" "k \<le> length ?xs"
      "list_all2 (trade_with inc) (take k ?xs) (zip (so_trades r) (so_makers r))"
    using outcome_walked [OF o] by (auto simp: walked_def)
  have tw: "trade_with inc (?xs ! i) (so_trades r ! i, so_makers r ! i)" if "i < k" for i
    using list_all2_nthD [OF w(4), of i] that w by simp
  have "o_ID (so_makers r ! i) = o_ID (?xs ! i)" if "i < k" for i using tw [OF that] by (auto simp: trade_with_def)
  then have "map o_ID (so_makers r) = map o_ID (take k ?xs)" using w by (intro nth_equalityI) simp_all
  then have "distinct (map o_ID (so_makers r))"
    using distinct_take [of "map o_ID ?xs" k] priority_ids_distinct [OF assms(1), of "opposite (o_Side inc)"]
    by (simp add: take_map)
  moreover have "\<not> better (o_Side inc) (price_of (?xs ! i)) (price_of inc)" if "i < k" "o_Type inc = TypeLimit" for i
    using tw [OF that(1)] not_crosses [OF that(2), of "?xs ! i"] assms(2) by (simp add: trade_with_def inc_ok_def)
  moreover have "mr_Trades res = so_trades r" "mr_TouchedMakers res = so_makers r"
    using o by (simp_all add: match_outcome_def)
  ultimately show ?thesis
    using m w tw by (intro exI [of _ res] exI [of _ b'] exI [of _ "so_funds r"]) (auto simp: Let_def trade_with_def)
qed

theorem Match_respects_priority_witness:
  "\<exists>res b' funds'. Match (\<lambda>_. 0) sample_book sample_limit None = Some (Inr (res, b', funds')) \<and>
     length (mr_Trades res) \<le> 1"
proof -
  have s: "opposite (o_Side sample_limit) = SideSell" "o_ID sample_limit \<notin> resting_ids sample_book"
    by (simp_all add: sample_simps sample_book_ok)
  show ?thesis
    using Match_respects_priority [OF sample_book_ok(1) sample_incoming_ok(1) _ s(2), of None "\<lambda>_. 0"] s(1)
    by (auto simp: funds_ok_def sample_book_ok(2) Let_def)
qed

text \<open>
  C10: a BUY MARKET order never spends more than the funds it was given: the remaining funds are the
  funds minus the price of every trade, never negative; when the order is cut short with sellers still
  on the book, the funds left do not buy one more unit at the best price.
\<close>

theorem Match_never_overspends:
  assumes "book_ok b" "inc_ok inc" "isBuyMarket inc" "0 \<le> f" "f \<le> MaxInt64" "o_ID inc \<notin> resting_ids b"
  shows "\<exists>res b' f'. Match clk b inc (Some f) = Some (Inr (res, b', Some f')) \<and>
    f' = f - notional (mr_Trades res) \<and> 0 \<le> f' \<and>
    (0 < mr_CancelledQuantity res \<longrightarrow> (case priority b' SideSell of [] \<Rightarrow> True | m # _ \<Rightarrow> f' < price_of m))"
proof -
  have f: "funds_ok (Some f)" using assms(4,5) by (simp add: funds_ok_def)
  obtain r b' res k where m: "Match clk b inc (Some f) = Some (Inr (res, b', so_funds r))"
    and o: "match_outcome b inc (Some f) res b' r k" by (rule Match_outcome [OF assms(1,2) f assms(6), of clk])
  have "so_funds r = Some (f - notional (mr_Trades res))" using o assms(3) by (simp add: match_outcome_def)
  moreover have "funds_ok (so_funds r)" using o unfolding match_outcome_def by blast
  moreover have "opposite (o_Side inc) = SideSell" "o_Type inc = TypeMarket"
    using assms(3) by (simp_all add: isBuyMarket_def opposite_def)
  then have "exhausted inc r" "priority b' SideSell = so_rest r" "mr_CancelledQuantity res = open_qty (so_incoming r)"
      "\<And>m. crosses inc m"
    using o by (simp_all add: match_outcome_def crosses_def)
  ultimately show ?thesis
    using m by (auto simp: exhausted_def funds_ok_def split: list.splits)
qed

theorem Match_never_overspends_witness:
  "\<exists>res b' f'. Match (\<lambda>_. 0) sample_book sample_market (Some 3500) = Some (Inr (res, b', Some f')) \<and>
     f' = 3500 - notional (mr_Trades res) \<and> 0 \<le> f'"
  using Match_never_overspends [OF sample_book_ok(1) sample_incoming_ok(2), of 3500 "\<lambda>_. 0"] sample_book_ok(4)
  by (auto simp: sample_simps MaxInt64_def)

text \<open>
  C13: matching never leaves a crossed book: if every bid was below every ask before, it is so afterwards,
  and a LIMIT order whose remainder rests accepts no order left on the other side.
\<close>

theorem Match_keeps_book_uncrossed:
  assumes "book_ok b" "inc_ok inc" "funds_ok funds" "o_ID inc \<notin> resting_ids b" "uncrossed b"
  shows "\<exists>res b' funds'. Match clk b inc funds = Some (Inr (res, b', funds')) \<and> book_ok b' \<and> uncrossed b' \<and>
    (mr_RestedOnBook res \<longrightarrow> (\<forall>m\<in>set (priority b' (opposite (o_Side inc))). \<not> crosses inc m))"
proof -
  let ?s = "o_Side inc"
  obtain r b' res k where m: "Match clk b inc funds = Some (Inr (res, b', so_funds r))"
    and o: "match_outcome b inc funds res b' r k" by (rule Match_outcome [OF assms(1-4), of clk])
  have s: "?s \<in> sides" using assms(2) by (simp add: inc_ok_def)
  have b': "book_ok b'" "priority b' (opposite ?s) = so_rest r" "exhausted inc r"
      "priority b' ?s = (if mr_RestedOnBook res then insert_priority (so_incoming r) (priority b ?s) else priority b ?s)"
    using o by (simp_all add: match_outcome_def)
  have pi: "price_of (so_incoming r) = price_of inc" using o by (simp add: match_outcome_def price_of_def)
  have beyond: "better ?s (price_of y) (price_of inc)" if rb: "mr_RestedOnBook res" and y: "y \<in> set (so_rest r)" for y
  proof -
    obtain m ms where ms: "so_rest r = m # ms" using y by (cases "so_rest r") auto
    have t: "o_Type inc = TypeLimit" "open_qty (so_incoming r) \<noteq> 0" using o rb by (auto simp: match_outcome_def)
    then have h: "better ?s (price_of m) (price_of inc)"
      using b'(3) ms not_crosses [OF t(1) s, of m] by (auto simp: exhausted_def isBuyMarket_def)
    have "y = m \<or> \<not> better (opposite ?s) (price_of y) (price_of m)"
      using y ms priority_sorted [OF b'(1), of "opposite ?s"] b'(2) by auto
    then show ?thesis using h beyond_head [OF h _ s, of y] by auto
  qed
  have "better ?s (price_of y) (price_of x)" if x: "x \<in> set (priority b ?s)" and y: "y \<in> set (so_rest r)" for x y
  proof -
    obtain z where "z \<in> set (priority b (opposite ?s))" "price_of y = price_of z"
      using rest_prices [OF outcome_walked [OF o]] y by auto
    then show ?thesis using assms(5) uncrossed_side [OF s] x by auto
  qed
  then have "uncrossed b'"
    unfolding uncrossed_side [OF s] b'(2,4) using beyond pi by auto
  moreover have "\<not> crosses inc y" if "mr_RestedOnBook res" "y \<in> set (so_rest r)" for y
    using beyond [OF that] not_crosses [OF _ s, of y] o that(1) by (auto simp: match_outcome_def)
  ultimately show ?thesis using m b'(1,2) by auto
qed

theorem Match_keeps_book_uncrossed_witness:
  "\<exists>res b' funds'. Match (\<lambda>_. 0) sample_book sample_limit None = Some (Inr (res, b', funds')) \<and> uncrossed b'"
proof -
  have "o_ID sample_limit \<notin> resting_ids sample_book" by (simp add: sample_simps sample_book_ok)
  moreover have "uncrossed sample_book" by (simp add: uncrossed_def sample_book_ok)
  ultimately show ?thesis
    using Match_keeps_book_uncrossed [OF sample_book_ok(1) sample_incoming_ok(1), of None "\<lambda>_. 0"]
    by (auto simp: funds_ok_def)
qed

text \<open>
  With negative available funds, which the wallet's double-counting reservation can produce, a BUY
  MARKET order gets past the \<open>matchQty == 0\<close> guard: \<open>Match\<close> emits a trade of negative quantity at the best
  ask although neither order is filled by it.
\<close>

theorem Match_negative_funds_negative_trade:
  "\<exists>res b' f'. Match (\<lambda>_. 0) sample_book sample_market (Some (- 5000)) = Some (Inr (res, b', f')) \<and>
     map mt_Quantity (mr_Trades res) = [- 5] \<and> o_FilledQuantity (mr_Incoming res) = 0"
proof -
  have "(case Match (\<lambda>_. 0) sample_book sample_market (Some (- 5000)) of
      Some (Inr (res, b', f')) \<Rightarrow> map mt_Quantity (mr_Trades res) = [- 5] \<and> o_FilledQuantity (mr_Incoming res) = 0
    | _ \<Rightarrow> False)"
    by code_simp
  then show ?thesis by (auto split: option.splits sum.splits)
qed

end
