(* ===== verification/Match_Returns.thy ===== *)
theory Match_Returns
  imports Match_Properties
begin

text \<open>
  \<open>Match\<close> returns on every book whose stored orders have sane quantities, whatever the structure of the book, the
  limit, the prices and the funds: each pass through the loop lowers what the incoming order lacks, or, when
  the funds make the quantity negative, brings the funds nearer to zero.
\<close>

section \<open>Sane orders\<close>

text \<open>\<open>Q\<close> bounds the quantity of the order with an id, as the \<open>orders\<close> table records it.\<close>

definition sane :: "(uuid \<Rightarrow> int) \<Rightarrow> Order \<Rightarrow> bool" where
  "sane Q ord \<longleftrightarrow> 0 \<le> o_FilledQuantity ord \<and> o_FilledQuantity ord \<le> o_Quantity ord \<and> o_Quantity ord \<le> MaxInt64 \<and>
     o_Quantity ord \<le> Q (o_ID ord)"

definition store_ok :: "(uuid \<Rightarrow> int) \<Rightarrow> Book \<Rightarrow> bool" where
  "store_ok Q b \<longleftrightarrow> (\<forall>e. sane Q (b_elems b e))"

lemma sane_remaining: "sane Q ord \<Longrightarrow> Remaining ord = o_Quantity ord - o_FilledQuantity ord"
  by (auto simp: sane_def Remaining_def MaxInt64_def intro!: i64_sub_id simp: in64_def MinInt64_def)

lemma sane_remaining_nonneg: "sane Q ord \<Longrightarrow> 0 \<le> Remaining ord"
  by (simp add: sane_remaining) (simp add: sane_def)

lemma sane_fill:
  assumes "sane Q ord"
  shows "sane Q (fill_ignoring_error t q ord)"
    and "0 < q \<Longrightarrow> q \<le> Remaining ord \<Longrightarrow> Remaining (fill_ignoring_error t q ord) = Remaining ord - q"
    and "q \<le> 0 \<Longrightarrow> fill_ignoring_error t q ord = ord"
proof -
  have add: "i64_add (o_FilledQuantity ord) q = o_FilledQuantity ord + q" if "0 < q" "q \<le> Remaining ord"
    using assms that by (intro i64_add_id) (auto simp: sane_remaining [OF assms] sane_def in64_def MinInt64_def)
  show s: "sane Q (fill_ignoring_error t q ord)"
    using assms add by (auto simp: fill_ignoring_error_def Fill_def Let_def sane_remaining [OF assms]) (auto simp: sane_def)
  show "q \<le> 0 \<Longrightarrow> fill_ignoring_error t q ord = ord" by (simp add: fill_ignoring_error_def Fill_def)
  show "Remaining (fill_ignoring_error t q ord) = Remaining ord - q" if "0 < q" "q \<le> Remaining ord"
    using sane_remaining [OF s] sane_remaining [OF assms] that add
    by (simp add: fill_ignoring_error_def Fill_def Let_def split: if_splits)
qed

lemma sane_cancel [simp]: "sane Q (CancelOrder t ord) = sane Q ord"
  by (simp add: CancelOrder_def sane_def)

lemma store_put [simp]: "store_ok Q b \<Longrightarrow> sane Q ord \<Longrightarrow> store_ok Q (put_order e ord b)"
  by (simp add: store_ok_def put_order_def)

lemma put_heapAndIndex_elems [simp]: "b_elems (put_heapAndIndex side mh idx b) = b_elems b"
  by (simp add: put_heapAndIndex_def)

lemma removeFront_elems: "removeFront ord side lvl b = Inr b' \<Longrightarrow> b_elems b' = b_elems b"
  by (auto simp: removeFront_def Let_def heapAndIndex_def split: option.splits sum.splits if_splits prod.splits)

lemma AddResting_store: "AddResting ord b = Inr b' \<Longrightarrow> store_ok Q b \<Longrightarrow> sane Q ord \<Longrightarrow> store_ok Q b'"
  by (auto simp: AddResting_def push_back_def level_for_def Let_def store_ok_def heapAndIndex_def
      split: option.splits prod.splits if_splits)

lemma CancelResting_store:
  assumes "CancelResting i b = Inr (r, b')" "store_ok Q b"
  shows "store_ok Q b'" "\<forall>ord. r = Some ord \<longrightarrow> sane Q ord"
  using assms by (auto simp: CancelResting_def store_ok_def split: option.splits sum.splits dest: removeFront_elems)

section \<open>Funds\<close>

lemma wrap64_mod: "wrap64 (x + 18446744073709551616 * k) = wrap64 x"
proof -
  have "x + 18446744073709551616 * k + 9223372036854775808 = (x + 9223372036854775808) + 18446744073709551616 * k" by simp
  then show ?thesis unfolding wrap64_def by (simp only: mod_mult_self2)
qed

lemma wrap64_decomp: obtains k where "wrap64 x = x + 18446744073709551616 * k"
proof -
  have "wrap64 x = x + 18446744073709551616 * (- ((x + 9223372036854775808) div 18446744073709551616))"
    unfolding wrap64_def using div_mult_mod_eq [of "x + 9223372036854775808" 18446744073709551616] by linarith
  then show ?thesis using that by blast
qed

lemma smod_bounds:
  fixes f p :: int
  shows "\<bar>f smod p\<bar> \<le> \<bar>f\<bar>" "0 \<le> f \<Longrightarrow> 0 \<le> f smod p" "f \<le> 0 \<Longrightarrow> f smod p \<le> 0"
    and "f sdiv p \<noteq> 0 \<Longrightarrow> \<bar>f smod p\<bar> < \<bar>f\<bar>"
proof -
  have m: "0 \<le> \<bar>f\<bar> mod \<bar>p\<bar>" "\<bar>f\<bar> mod \<bar>p\<bar> \<le> \<bar>f\<bar>"
    by (cases "p = 0"; simp) (simp add: zmod_le_nonneg_dividend)
  have a: "\<bar>f smod p\<bar> = (if f = 0 then 0 else \<bar>f\<bar> mod \<bar>p\<bar>)"
    using m(1) by (simp add: signed_modulo_int_def abs_mult abs_sgn_eq)
  then show "\<bar>f smod p\<bar> \<le> \<bar>f\<bar>" using m by simp
  show "0 \<le> f \<Longrightarrow> 0 \<le> f smod p" "f \<le> 0 \<Longrightarrow> f smod p \<le> 0"
    using m(1) by (auto simp: signed_modulo_int_def sgn_if)
  assume "f sdiv p \<noteq> 0"
  then have "\<bar>f\<bar> div \<bar>p\<bar> \<noteq> 0" "f \<noteq> 0" "p \<noteq> 0" by (auto simp: signed_divide_int_def)
  then have "\<bar>p\<bar> \<le> \<bar>f\<bar>" using div_pos_pos_trivial [of "\<bar>f\<bar>" "\<bar>p\<bar>"] by linarith
  moreover have "\<bar>f\<bar> mod \<bar>p\<bar> < \<bar>p\<bar>" using \<open>p \<noteq> 0\<close> by simp
  ultimately show "\<bar>f smod p\<bar> < \<bar>f\<bar>" using a \<open>f \<noteq> 0\<close> by simp
qed

lemma charge_is_remainder:
  assumes "in64 f"
  shows "i64_sub f (i64_mul (wrap64 (f sdiv p)) p) = f smod p"
proof -
  obtain j where j: "wrap64 (f sdiv p) = f sdiv p + 18446744073709551616 * j" by (rule wrap64_decomp)
  obtain k where k: "wrap64 (wrap64 (f sdiv p) * p) = wrap64 (f sdiv p) * p + 18446744073709551616 * k" by (rule wrap64_decomp)
  have "f - wrap64 (wrap64 (f sdiv p) * p) = (f - (f sdiv p) * p) + 18446744073709551616 * (- k - j * p)"
    unfolding k unfolding j by (simp add: algebra_simps)
  then have "i64_sub f (i64_mul (wrap64 (f sdiv p)) p) = wrap64 (f - (f sdiv p) * p)"
    unfolding i64_sub_def i64_mul_def by (simp only: wrap64_mod)
  also have "\<dots> = wrap64 (f smod p)" by (simp add: minus_sdiv_mult_eq_smod)
  also have "in64 (f smod p)"
    using assms smod_bounds(1-3) [of f p] by (cases "0 \<le> f") (auto simp: in64_def MinInt64_def MaxInt64_def)
  then have "wrap64 (f smod p) = f smod p" by (rule wrap64_id)
  finally show ?thesis .
qed

section \<open>The loop returns\<close>

definition funds_in64 :: "int option \<Rightarrow> bool" where
  "funds_in64 funds \<longleftrightarrow> (\<forall>f. funds = Some f \<longrightarrow> in64 f)"

definition funds_size :: "int option \<Rightarrow> nat" where
  "funds_size funds = (case funds of None \<Rightarrow> 0 | Some f \<Rightarrow> nat \<bar>f\<bar>)"

definition loop_measure :: "(MatchState \<times> MatchState) set" where
  "loop_measure = measures [\<lambda>st. nat (Remaining (ms_incoming st)), \<lambda>st. funds_size (ms_funds st)]"

text \<open>A quantity that is not positive comes from the funds alone.\<close>

lemma match_qty_cases:
  assumes "match_qty inc funds m price = Inr q" "0 < Remaining inc" "0 \<le> Remaining m" "q \<noteq> 0"
  shows "0 < q \<and> q \<le> Remaining inc \<and> q \<le> Remaining m \<or>
    q < 0 \<and> isBuyMarket inc \<and> (\<exists>f. funds = Some f \<and> q = wrap64 (f sdiv price))"
  using assms
  by (auto simp: match_qty_def Let_def min64_def i64_quot_def split: option.splits if_splits)

lemma match_exec_store:
  assumes "match_exec clk lvl e q st = Inr (Continues st')" "store_ok Q (ms_book st)" "sane Q (ms_incoming st)"
  shows "store_ok Q (ms_book st')" "sane Q (ms_incoming st')" "funds_in64 (ms_funds st) \<Longrightarrow> funds_in64 (ms_funds st')"
    "ms_incoming st' = fill_ignoring_error (clk (ms_clock st)) q (ms_incoming st)" "length (ms_trades st') = Suc (length (ms_trades st))"
    "ms_funds st' = (case ms_funds st of
       Some f \<Rightarrow> if isBuyMarket (ms_incoming st) then Some (i64_sub f (i64_mul q (lv_priceCents (b_mem (ms_book st) lvl)))) else Some f
     | None \<Rightarrow> None)"
proof -
  let ?m' = "fill_ignoring_error (clk (Suc (ms_clock st))) q (b_elems (ms_book st) e)"
  have m: "sane Q ?m'" using assms(2) sane_fill(1) by (simp add: store_ok_def)
  have "b_elems (ms_book st') = b_elems (put_order e ?m' (ms_book st))"
    using assms(1) by (auto simp: match_exec_def Let_def split: if_splits sum.splits dest: removeFront_elems)
  then show "store_ok Q (ms_book st')" using assms(2) m by (simp add: store_ok_def put_order_def)
  show inc: "ms_incoming st' = fill_ignoring_error (clk (ms_clock st)) q (ms_incoming st)"
    and fu: "ms_funds st' = (case ms_funds st of
       Some f \<Rightarrow> if isBuyMarket (ms_incoming st) then Some (i64_sub f (i64_mul q (lv_priceCents (b_mem (ms_book st) lvl)))) else Some f
     | None \<Rightarrow> None)" and "length (ms_trades st') = Suc (length (ms_trades st))"
    using assms(1) by (auto simp: match_exec_def Let_def split: if_splits sum.splits)
  show "sane Q (ms_incoming st')" unfolding inc by (rule sane_fill(1) [OF assms(3)])
  show "funds_in64 (ms_funds st) \<Longrightarrow> funds_in64 (ms_funds st')" by (auto simp: funds_in64_def fu split: option.splits if_splits)
qed

lemma match_iter_continues:
  assumes "match_iter clk st = Inr (Continues st')"
  obtains lvl e q where "q \<noteq> 0" "match_exec clk lvl e q st = Inr (Continues st')"
    "match_qty (ms_incoming st) (ms_funds st) (b_elems (ms_book st) e) (lv_priceCents (b_mem (ms_book st) lvl)) = Inr q"
  using assms by (auto simp: match_iter_def Let_def split: option.splits sum.splits bool.splits if_splits)

lemma match_iter_broke: "match_iter clk st = Inr (Broke st') \<Longrightarrow> st' = st"
  by (auto simp: match_iter_def match_exec_def Let_def split: option.splits sum.splits bool.splits if_splits)

lemma match_iter_decreases:
  assumes "match_iter clk st = Inr (Continues st')" "0 < Remaining (ms_incoming st)"
    and ok: "store_ok Q (ms_book st)" "sane Q (ms_incoming st)" "funds_in64 (ms_funds st)"
  shows "(st', st) \<in> loop_measure" "store_ok Q (ms_book st')" "sane Q (ms_incoming st')" "funds_in64 (ms_funds st')"
proof -
  from match_iter_continues [OF assms(1)] obtain lvl e q where q: "q \<noteq> 0" and x: "match_exec clk lvl e q st = Inr (Continues st')"
    and mq: "match_qty (ms_incoming st) (ms_funds st) (b_elems (ms_book st) e) (lv_priceCents (b_mem (ms_book st) lvl)) = Inr q"
    by metis
  note st' = match_exec_store [OF x ok(1,2)]
  show "store_ok Q (ms_book st')" "sane Q (ms_incoming st')" "funds_in64 (ms_funds st')" using st'(1,2,3) ok(3) by auto
  have "0 \<le> Remaining (b_elems (ms_book st) e)" using ok(1) sane_remaining_nonneg by (auto simp: store_ok_def)
  from match_qty_cases [OF mq assms(2) this q] show "(st', st) \<in> loop_measure"
  proof
    assume "0 < q \<and> q \<le> Remaining (ms_incoming st) \<and> q \<le> Remaining (b_elems (ms_book st) e)"
    then show ?thesis using sane_fill(2) [OF ok(2)] st'(4) by (simp add: loop_measure_def)
  next
    assume n: "q < 0 \<and> isBuyMarket (ms_incoming st) \<and> (\<exists>f. ms_funds st = Some f \<and> q = wrap64 (f sdiv lv_priceCents (b_mem (ms_book st) lvl)))"
    then obtain f where f: "ms_funds st = Some f" "q = wrap64 (f sdiv lv_priceCents (b_mem (ms_book st) lvl))" by blast
    have "in64 f" using ok(3) f(1) by (simp add: funds_in64_def)
    then have fs: "ms_funds st' = Some (f smod lv_priceCents (b_mem (ms_book st) lvl))"
      using st'(6) f n charge_is_remainder by auto
    have "f sdiv lv_priceCents (b_mem (ms_book st) lvl) \<noteq> 0" using f(2) q by (auto simp: wrap64_def)
    then have "funds_size (ms_funds st') < funds_size (ms_funds st)"
      using smod_bounds(4) [of f] unfolding fs f(1) funds_size_def by auto
    moreover have "ms_incoming st' = ms_incoming st" using n st'(4) sane_fill(3) [OF ok(2)] by auto
    ultimately show ?thesis by (simp add: loop_measure_def)
  qed
qed

lemma match_loop_returns:
  assumes "store_ok Q (ms_book st)" "sane Q (ms_incoming st)" "funds_in64 (ms_funds st)"
  shows "(\<exists>p. match_loop clk st = Some (Inl p)) \<or>
    (\<exists>st'. match_loop clk st = Some (Inr st') \<and> store_ok Q (ms_book st') \<and> sane Q (ms_incoming st'))"
proof -
  have "wf loop_measure" by (simp add: loop_measure_def)
  then show ?thesis using assms
  proof (induction st rule: wf_induct_rule)
    case (less st)
    have unfold: "match_loop clk st =
        (if 0 < Remaining (ms_incoming st)
         then (case match_iter clk st of Inl p \<Rightarrow> Some (Inl p) | Inr (Broke st') \<Rightarrow> Some (Inr st') | Inr (Continues st') \<Rightarrow> match_loop clk st')
         else Some (Inr st))" by (rule match_loop.simps)
    show ?case
    proof (cases "0 < Remaining (ms_incoming st)")
      case False
      then show ?thesis using less.prems unfold by simp
    next
      case True
      show ?thesis
      proof (cases "match_iter clk st")
        case (Inl p)
        then show ?thesis using True unfold by simp
      next
        case (Inr x)
        show ?thesis
        proof (cases x)
          case (Broke st')
          then have "st' = st" using Inr match_iter_broke by blast
          then show ?thesis using True Inr Broke unfold less.prems by simp
        next
          case (Continues st')
          then have it: "match_iter clk st = Inr (Continues st')" using Inr by simp
          then have "match_loop clk st = match_loop clk st'" using True unfold by simp
          then show ?thesis using less.IH [OF match_iter_decreases [OF it True less.prems]] by simp
        qed
      qed
    qed
  qed
qed

text \<open>An incoming order is new: nothing is filled, and its quantity is an \<open>int64\<close>, positive or not.\<close>

definition fresh_order :: "(uuid \<Rightarrow> int) \<Rightarrow> Order \<Rightarrow> bool" where
  "fresh_order Q ord \<longleftrightarrow> o_FilledQuantity ord = 0 \<and> in64 (o_Quantity ord) \<and> o_Quantity ord \<le> Q (o_ID ord)"

text \<open>What a row takes over from an order.\<close>

definition row_fits :: "(uuid \<Rightarrow> int) \<Rightarrow> Order \<Rightarrow> bool" where
  "row_fits Q ord \<longleftrightarrow> 0 \<le> o_FilledQuantity ord \<and> o_FilledQuantity ord \<le> Q (o_ID ord)"

lemma sane_fits: "sane Q ord \<Longrightarrow> row_fits Q ord"
  by (auto simp: sane_def row_fits_def)

lemma match_end_store:
  assumes "match_end clk st = Inr (res, b', f)" "store_ok Q (ms_book st)" "sane Q (ms_incoming st)"
  shows "store_ok Q b' \<and> sane Q (mr_Incoming res) \<and> (\<forall>m\<in>set (mr_TouchedMakers res). sane Q m)"
  using assms AddResting_store [OF _ assms(2,3)]
  by (auto simp: match_end_def Let_def store_ok_def split: if_splits sum.splits)

lemma Match_returns:
  assumes "store_ok Q b" "fresh_order Q ord" "funds_in64 funds" "0 \<le> Q (o_ID ord)"
  obtains p where "Match clk b ord funds = Some (Inl p)"
  | res b' f where "Match clk b ord funds = Some (Inr (res, b', f))" "store_ok Q b'" "row_fits Q (mr_Incoming res)"
      "\<forall>m\<in>set (mr_TouchedMakers res). row_fits Q m"
proof -
  let ?st = "\<lparr>ms_book = b, ms_incoming = ord, ms_funds = funds, ms_trades = [], ms_makers = [], ms_clock = 0\<rparr>"
  show thesis
  proof (cases "0 < o_Quantity ord")
    case False
    then have "Remaining ord \<le> 0" using assms(2) by (simp add: fresh_order_def Remaining_def i64_sub_id)
    then have "Match clk b ord funds = Some (Inr (\<lparr>mr_Trades = [], mr_Incoming = ord, mr_TouchedMakers = [], mr_RestedOnBook = False,
        mr_CancelledQuantity = 0\<rparr>, b, funds))"
      using match_loop.simps [of clk ?st] by (simp add: Match_def match_end_def)
    then show ?thesis using that(2) assms(1,2,4) by (simp add: row_fits_def fresh_order_def)
  next
    case True
    then have "sane Q ord" using assms(2) by (simp add: fresh_order_def sane_def in64_def)
    from match_loop_returns [of Q ?st clk] this assms(1,3)
    consider p where "match_loop clk ?st = Some (Inl p)"
      | st' where "match_loop clk ?st = Some (Inr st')" "store_ok Q (ms_book st')" "sane Q (ms_incoming st')" by auto
    then show ?thesis
    proof cases
      case (1 p)
      then show ?thesis using that(1) by (simp add: Match_def)
    next
      case (2 st')
      then show ?thesis
        using that(1,2) match_end_store [OF _ 2(2,3), of clk] sane_fits by (cases "match_end clk st'") (auto simp: Match_def)
    qed
  qed
qed

end
