(* ===== verification/Matcher_Loop.thy ===== *)
theory Matcher_Loop
  imports Order_Services Match_Properties
begin

text \<open>
  Package \<open>internal/application/matcherapp\<close> and the Redis consumer it reads from. The matcher's world
  extends the database with the in-memory book, the wallet cache of the batch in progress (one object
  per user, so a self-trade's buyer and seller are the same object) and the \<open>bookDirty\<close> flag. Redis is a
  parameter: what \<open>XREADGROUP\<close> and \<open>XACK\<close> answer at each interaction.
\<close>

section \<open>World and parameters\<close>

record XMessage =
  xm_ID :: string
  xm_Payload :: "string option"

datatype RedisReply = RedisNil | RedisError | Streams "XMessage list list"

record MEnv =
  me_env :: Env
  me_xreadgroup :: "nat \<Rightarrow> string \<Rightarrow> int64 \<Rightarrow> RedisReply"
  me_xack :: "nat \<Rightarrow> string list \<Rightarrow> bool"
  me_ctxDone :: "nat \<Rightarrow> bool"
  me_streamName :: string
  me_batchSize :: int64

record MWorld = World +
  mw_book :: Book
  mw_cache :: "Wallet list"
  mw_bookDirty :: bool

section \<open>The consumer\<close>

definition read_group :: "MEnv \<Rightarrow> string \<Rightarrow> int64 \<Rightarrow> (MWorld, XMessage list) action" where
  "read_group menv start cnt w =
     (case me_xreadgroup menv (w_step w) start cnt of
        RedisNil \<Rightarrow> (Inr [], tick w)
      | RedisError \<Rightarrow> (Inl RedisFault, tick w)
      | Streams [] \<Rightarrow> (Inr [], tick w)
      | Streams (msgs # _) \<Rightarrow> (Inr msgs, tick w))"

definition ReadBatch :: "MEnv \<Rightarrow> int64 \<Rightarrow> (MWorld, XMessage list) action" where
  "ReadBatch menv cnt = read_group menv ''>'' cnt"

definition ReadPending :: "MEnv \<Rightarrow> int64 \<Rightarrow> (MWorld, XMessage list) action" where
  "ReadPending menv cnt = read_group menv ''0'' cnt"

definition Ack :: "MEnv \<Rightarrow> string list \<Rightarrow> (MWorld, unit) action" where
  "Ack menv ids w =
     (if ids = [] then (Inr (), w)
      else if me_xack menv (w_step w) ids then (Inr (), tick w) else (Inl RedisFault, tick w))"

section \<open>Wallets of the batch\<close>

definition loadWallet :: "MEnv \<Rightarrow> uuid \<Rightarrow> (MWorld, Wallet) action" where
  "loadWallet menv userID w =
     (case find_row w_UserID userID (mw_cache w) of
        Some wal \<Rightarrow> (Inr wal, w)
      | None \<Rightarrow> bind_ok (WalletRepo_GetForUpdate (me_env menv) userID)
                 (\<lambda>wal w'. (Inr wal, w'\<lparr>mw_cache := mw_cache w' @ [wal]\<rparr>)) w)"

text \<open>A method call on the cached wallet object of a user.\<close>

definition wallet_do :: "uuid \<Rightarrow> (Wallet \<Rightarrow> wallet_error + Wallet) \<Rightarrow> (MWorld, unit) action" where
  "wallet_do userID op w =
     (case find_row w_UserID userID (mw_cache w) of
        None \<Rightarrow> (Inl (Panics NilDereference), w)
      | Some wal \<Rightarrow>
          (case op wal of
             Inl e \<Rightarrow> (Inl (WalletErr e), w)
           | Inr wal' \<Rightarrow> (Inr (), w\<lparr>mw_cache := write_rows w_UserID userID (\<lambda>_. wal') (mw_cache w)\<rparr>)))"

fun for_each :: "('a \<Rightarrow> ('w, unit) action) \<Rightarrow> 'a list \<Rightarrow> ('w, unit) action" where
  "for_each f [] = return_ok ()"
| "for_each f (x # xs) = bind_ok (f x) (\<lambda>_. for_each f xs)"

section \<open>Applying events\<close>

text \<open>The price improvement of a BUY LIMIT taker, lines 378 to 385.\<close>

definition release_improvement :: "Order \<Rightarrow> MTrade \<Rightarrow> (MWorld, unit) action" where
  "release_improvement ord tr =
     (if o_Side ord = SideBuy \<and> o_Type ord = TypeLimit then
        (case o_PriceCents ord of
           None \<Rightarrow> return_err (Panics NilDereference)
         | Some l \<Rightarrow>
             let improvement = i64_mul (i64_sub l (mt_PriceCents tr)) (mt_Quantity tr)
             in if improvement > 0 then wallet_do (mt_BuyerUserID tr) (ReleaseBRLReservation improvement)
                else return_ok ())
      else return_ok ())"

definition settle_trade :: "MEnv \<Rightarrow> Order \<Rightarrow> MTrade \<Rightarrow> (MWorld, unit) action" where
  "settle_trade menv ord tr =
     bind_ok (loadWallet menv (mt_BuyerUserID tr)) (\<lambda>_.
     bind_ok (loadWallet menv (mt_SellerUserID tr)) (\<lambda>_.
     bind_ok (if o_Side ord = SideBuy \<and> o_Type ord = TypeMarket
              then wallet_do (mt_BuyerUserID tr) (SettleBuyMarketFill (mt_PriceCents tr) (mt_Quantity tr))
              else bind_ok (wallet_do (mt_BuyerUserID tr) (SettleBuyLimitFill (mt_PriceCents tr) (mt_Quantity tr)))
                     (\<lambda>_. release_improvement ord tr)) (\<lambda>_.
     bind_ok (wallet_do (mt_SellerUserID tr) (SettleSellFill (mt_PriceCents tr) (mt_Quantity tr))) (\<lambda>_.
     bind_ok (new_uuid (me_env menv)) (\<lambda>i.
     bind_ok (now (me_env menv)) (\<lambda>t.
       (case New_Trade i (mt_BuyOrderID tr) (mt_SellOrderID tr) (mt_BuyerUserID tr) (mt_SellerUserID tr)
               (mt_PriceCents tr) (mt_Quantity tr) t of
          Inl e \<Rightarrow> return_err (TradeErr e)
        | Inr trd \<Rightarrow> TradeRepo_Insert (me_env menv) trd)))))))"

text \<open>The call of \<open>Match\<close> on the loop's book.\<close>

definition run_match :: "MEnv \<Rightarrow> Order \<Rightarrow> int64 option \<Rightarrow> (MWorld, MatchResult) action" where
  "run_match menv ord funds w =
     (case Match (\<lambda>n. e_clock (me_env menv) (w_step w + n)) (mw_book w) ord funds of
        None \<Rightarrow> (Inl NeverReturns, w)
      | Some (Inl p) \<Rightarrow> (Inl (Panics p), w)
      | Some (Inr (res, b', _)) \<Rightarrow>
          (Inr res, w\<lparr>mw_book := b', w_step := w_step w + 2 * length (mr_Trades res) + 1\<rparr>))"

definition order_of_event :: "StreamEvent \<Rightarrow> time \<Rightarrow> Order" where
  "order_of_event ev t =
     \<lparr>o_ID = ev_OrderID ev, o_UserID = ev_UserID ev, o_Side = ev_Side ev, o_Type = ev_OrderType ev,
      o_PriceCents = ev_PriceCents ev, o_Quantity = ev_Quantity ev, o_FilledQuantity = 0, o_Status = StatusOpen,
      o_CreatedAt = t, o_UpdatedAt = t\<rparr>"

definition available_funds :: "MEnv \<Rightarrow> Order \<Rightarrow> (MWorld, int64 option) action" where
  "available_funds menv ord =
     (if o_Side ord = SideBuy \<and> o_Type ord = TypeMarket
      then bind_ok (loadWallet menv (o_UserID ord)) (\<lambda>wal. return_ok (Some (AvailableBRLCents wal)))
      else return_ok None)"

definition release_remainder :: "MEnv \<Rightarrow> Order \<Rightarrow> int64 \<Rightarrow> (MWorld, unit) action" where
  "release_remainder menv ord cancelled =
     (if cancelled > 0 \<and> o_Side ord = SideSell
      then bind_ok (loadWallet menv (o_UserID ord)) (\<lambda>_. wallet_do (o_UserID ord) (ReleaseVibraniumReservation cancelled))
      else return_ok ())"

definition applyNewOrder :: "MEnv \<Rightarrow> StreamEvent \<Rightarrow> (MWorld, unit) action" where
  "applyNewOrder menv event =
     bind_ok (now (me_env menv)) (\<lambda>t.
     bind_ok (available_funds menv (order_of_event event t)) (\<lambda>funds.
     bind_ok (run_match menv (order_of_event event t) funds) (\<lambda>result.
     bind_ok (for_each (settle_trade menv (mr_Incoming result)) (mr_Trades result)) (\<lambda>_.
     bind_ok (for_each (OrderRepo_Update (me_env menv)) (mr_TouchedMakers result)) (\<lambda>_.
     bind_ok (release_remainder menv (mr_Incoming result) (mr_CancelledQuantity result)) (\<lambda>_.
       OrderRepo_Update (me_env menv) (mr_Incoming result)))))))"

text \<open>\<open>l.book.Cancel\<close>, then the release of the reservation and the row update.\<close>

definition book_cancel :: "uuid \<Rightarrow> (MWorld, Order option) action" where
  "book_cancel i w =
     (case CancelResting i (mw_book w) of
        Inl p \<Rightarrow> (Inl (Panics p), w)
      | Inr (r, b') \<Rightarrow> (Inr r, w\<lparr>mw_book := b'\<rparr>))"

definition release_cancelled :: "MEnv \<Rightarrow> Order \<Rightarrow> int64 \<Rightarrow> (MWorld, unit) action" where
  "release_cancelled menv removed remaining =
     bind_ok (loadWallet menv (o_UserID removed)) (\<lambda>_.
       if o_Side removed = SideBuy then
         (case o_PriceCents removed of
            None \<Rightarrow> return_err (Panics NilDereference)
          | Some p \<Rightarrow> wallet_do (o_UserID removed) (ReleaseBRLReservation (i64_mul p remaining)))
       else wallet_do (o_UserID removed) (ReleaseVibraniumReservation remaining))"

definition applyCancel :: "MEnv \<Rightarrow> StreamEvent \<Rightarrow> (MWorld, unit) action" where
  "applyCancel menv event =
     bind_ok (book_cancel (ev_OrderID event)) (\<lambda>found.
       (case found of
          None \<Rightarrow> return_ok ()
        | Some removed \<Rightarrow>
            bind_ok (now (me_env menv)) (\<lambda>t.
            bind_ok (release_cancelled menv removed (Remaining removed)) (\<lambda>_.
              OrderRepo_Update (me_env menv) (CancelOrder t removed)))))"

definition applyEntry :: "MEnv \<Rightarrow> StreamEvent \<Rightarrow> (MWorld, unit) action" where
  "applyEntry menv event =
     (case ev_Type event of
        EventTypeNewOrder \<Rightarrow> applyNewOrder menv event
      | EventTypeCancelOrder \<Rightarrow> applyCancel menv event
      | EventTypeRaw _ \<Rightarrow> return_ok ())"

section \<open>The batch\<close>

text \<open>One message: the idempotency guard, the payload (the zero string when absent), the entry.\<close>

definition apply_message :: "MEnv \<Rightarrow> XMessage \<Rightarrow> (MWorld, unit) action" where
  "apply_message menv m =
     bind_ok (ProcessedRepo_TryMark (me_env menv) (xm_ID m) (me_streamName menv)) (\<lambda>firstTime.
       if \<not> firstTime then return_ok ()
       else (case e_unmarshal (me_env menv) (case xm_Payload m of None \<Rightarrow> [] | Some raw \<Rightarrow> raw) of
               None \<Rightarrow> return_ok ()
             | Some event \<Rightarrow> applyEntry menv event))"

text \<open>The final flush; Go visits the map in some order, and the rows are distinct.\<close>

definition flush_wallets :: "MEnv \<Rightarrow> (MWorld, unit) action" where
  "flush_wallets menv w = for_each (WalletRepo_Update (me_env menv)) (mw_cache w) w"

definition batch_body :: "MEnv \<Rightarrow> XMessage list \<Rightarrow> (MWorld, unit tx_exit) action" where
  "batch_body menv msgs w =
     bind_ok (for_each (apply_message menv) msgs) (\<lambda>_.
     bind_ok (flush_wallets menv) (\<lambda>_. return_ok (Commits ()))) (w\<lparr>mw_cache := []\<rparr>)"

definition applyBatch :: "MEnv \<Rightarrow> XMessage list \<Rightarrow> (MWorld, unit) action" where
  "applyBatch menv msgs = in_tx (me_env menv) (batch_body menv msgs)"

definition processMessages :: "MEnv \<Rightarrow> XMessage list \<Rightarrow> (MWorld, nat) action" where
  "processMessages menv msgs w =
     (if msgs = [] then (Inr 0, w)
      else (case applyBatch menv msgs w of
              (Inl e, w') \<Rightarrow> (Inl e, w'\<lparr>mw_bookDirty := True\<rparr>)
            | (Inr _, w') \<Rightarrow> bind_ok (Ack menv (map xm_ID msgs)) (\<lambda>_. return_ok (length msgs)) w'))"

definition ProcessOnce :: "MEnv \<Rightarrow> (MWorld, nat) action" where
  "ProcessOnce menv = bind_ok (ReadBatch menv (me_batchSize menv)) (processMessages menv)"

section \<open>Recovery\<close>

fun rest_all :: "Order list \<Rightarrow> Book \<Rightarrow> go_panic + Book" where
  "rest_all [] b = Inr b"
| "rest_all (ord # os) b =
     (if o_Type ord = TypeLimit
      then (case AddResting ord b of Inl p \<Rightarrow> Inl p | Inr b' \<Rightarrow> rest_all os b')
      else rest_all os b)"

definition RecoverBook :: "Env \<Rightarrow> ('z World_scheme, Book) action" where
  "RecoverBook env =
     bind_ok (OrderRepo_ListOpenForRecovery env) (\<lambda>openOrders.
       (case rest_all openOrders NewBook of Inl p \<Rightarrow> return_err (Panics p) | Inr b \<Rightarrow> return_ok b))"

definition resyncBook :: "MEnv \<Rightarrow> (MWorld, unit) action" where
  "resyncBook menv = bind_ok (RecoverBook (me_env menv)) (\<lambda>b w. (Inr (), w\<lparr>mw_book := b\<rparr>))"

text \<open>The two loops; \<open>None\<close> when they never end. A sleep changes nothing.\<close>

partial_function (option) ReclaimPending :: "MEnv \<Rightarrow> MWorld \<Rightarrow> ((app_error + unit) \<times> MWorld) option" where
  "ReclaimPending menv w =
     (if me_ctxDone menv (w_step w) then Some (Inl CtxCancelled, w)
      else (case ReadPending menv (me_batchSize menv) w of
              (Inl e, w1) \<Rightarrow> Some (Inl e, w1)
            | (Inr msgs, w1) \<Rightarrow>
                if msgs = [] then Some (Inr (), w1)
                else (case processMessages menv msgs w1 of
                        (Inl NeverReturns, w2) \<Rightarrow> None
                      | (Inl e, w2) \<Rightarrow> Some (Inl e, w2)
                      | (Inr _, w2) \<Rightarrow> ReclaimPending menv w2)))"

partial_function (option) resync_until_clean :: "MEnv \<Rightarrow> MWorld \<Rightarrow> ((app_error + unit) \<times> MWorld) option" where
  "resync_until_clean menv w =
     (if mw_bookDirty w then
        (if me_ctxDone menv (w_step w) then Some (Inl CtxCancelled, w)
         else (case resyncBook menv w of
                 (Inl (Panics p), w') \<Rightarrow> Some (Inl (Panics p), w')
               | (Inl e, w') \<Rightarrow> resync_until_clean menv w'
               | (Inr _, w') \<Rightarrow> resync_until_clean menv (w'\<lparr>mw_bookDirty := False\<rparr>)))
      else Some (Inr (), w))"

declare ReclaimPending.simps [code]
declare resync_until_clean.simps [code]

text \<open>An error of \<open>ReclaimPending\<close> is logged and dropped (a panic is no error value and goes on).\<close>

definition recoverAfterFailure :: "MEnv \<Rightarrow> MWorld \<Rightarrow> ((app_error + unit) \<times> MWorld) option" where
  "recoverAfterFailure menv w =
     (case resync_until_clean menv w of
        None \<Rightarrow> None
      | Some (Inl e, w1) \<Rightarrow> Some (Inl e, w1)
      | Some (Inr _, w1) \<Rightarrow>
          (case ReclaimPending menv w1 of
             None \<Rightarrow> None
           | Some (Inl (Panics p), w2) \<Rightarrow> Some (Inl (Panics p), w2)
           | Some (_, w2) \<Rightarrow> Some (Inr (), w2)))"

partial_function (option) run_loop :: "MEnv \<Rightarrow> MWorld \<Rightarrow> ((app_error + unit) \<times> MWorld) option" where
  "run_loop menv w =
     (if me_ctxDone menv (w_step w) then Some (Inl CtxCancelled, w)
      else (case ProcessOnce menv w of
              (Inl (Panics p), w1) \<Rightarrow> Some (Inl (Panics p), w1)
            | (Inl NeverReturns, w1) \<Rightarrow> None
            | (Inl e, w1) \<Rightarrow>
                (case recoverAfterFailure menv w1 of
                   None \<Rightarrow> None
                 | Some (Inl e', w2) \<Rightarrow> Some (Inl e', w2)
                 | Some (Inr _, w2) \<Rightarrow> run_loop menv w2)
            | (Inr _, w1) \<Rightarrow> run_loop menv w1))"

definition Run :: "MEnv \<Rightarrow> MWorld \<Rightarrow> ((app_error + unit) \<times> MWorld) option" where
  "Run menv w =
     (case ReclaimPending menv w of
        None \<Rightarrow> None
      | Some (Inl e, w1) \<Rightarrow> Some (Inl e, w1)
      | Some (Inr _, w1) \<Rightarrow> run_loop menv w1)"

end
