(* ===== verification/Matcher_Safety.thy ===== *)
theory Matcher_Safety
  imports Matcher_Loop
begin

text \<open>
  What holds of the matcher whatever Redis, the clock and the faults do: a batch is atomic, tables it
  does not own stay, processed entries and trades only grow, an entry applied once is never applied
  again; and three ways in which recovery leaves the book different from what the database says.
\<close>

section \<open>Relations every action of a batch respects\<close>

text \<open>
  A relation between the database before and after: reflexive, transitive, and kept by each kind of
  statement a batch issues. Then the whole batch keeps it.
\<close>

locale entry_relation =
  fixes R :: "DB \<Rightarrow> DB \<Rightarrow> bool"
  assumes R_refl: "R d d"
    and R_trans: "R d d' \<Longrightarrow> R d' d'' \<Longrightarrow> R d d''"
    and R_wallets: "R d (d\<lparr>db_wallets := ws\<rparr>)"
    and R_orders: "map or_ID os = map or_ID (db_orders d) \<Longrightarrow> R d (d\<lparr>db_orders := os\<rparr>)"
    and R_trades: "R d (d\<lparr>db_trades := db_trades d @ [t]\<rparr>)"
begin

definition obeys :: "(MWorld, 'a) action \<Rightarrow> bool" where
  "obeys act \<longleftrightarrow> (\<forall>w. R (w_db w) (w_db (snd (act w))))"

lemma obeys_bind: "obeys m \<Longrightarrow> (\<And>x. obeys (k x)) \<Longrightarrow> obeys (bind_ok m k)"
  unfolding obeys_def bind_ok_def by (auto split: prod.split sum.split) (metis R_trans snd_conv)+

lemma obeys_branch:
  "(c \<Longrightarrow> obeys a) \<Longrightarrow> (\<not> c \<Longrightarrow> obeys b) \<Longrightarrow> obeys (if c then a else b)"
  "obeys a \<Longrightarrow> (\<And>x. obeys (f x)) \<Longrightarrow> obeys (case opt of None \<Rightarrow> a | Some x \<Rightarrow> f x)"
  "(\<And>x. obeys (g x)) \<Longrightarrow> (\<And>y. obeys (k y)) \<Longrightarrow> obeys (case sm of Inl x \<Rightarrow> g x | Inr y \<Rightarrow> k y)"
  "obeys a \<Longrightarrow> obeys b \<Longrightarrow> (\<And>s. obeys (h s)) \<Longrightarrow>
     obeys (case et of EventTypeNewOrder \<Rightarrow> a | EventTypeCancelOrder \<Rightarrow> b | EventTypeRaw s \<Rightarrow> h s)"
  by (auto split: option.split sum.split EventType.split)

lemma obeys_simple:
  "obeys (return_ok x)" "obeys (return_err e)" "obeys (now env)" "obeys (new_uuid env)"
  "obeys (wallet_do u op)" "obeys (run_match menv ord funds)" "obeys (book_cancel i)"
  by (auto simp: obeys_def return_ok_def return_err_def now_def new_uuid_def wallet_do_def run_match_def
      book_cancel_def R_refl split: option.split sum.split prod.split)

lemma obeys_statement: "(\<And>n d x d'. f n d = Inr (x, d') \<Longrightarrow> R d d') \<Longrightarrow> obeys (statement env f)"
  by (auto simp: obeys_def statement_def R_refl split: sum.split)

lemma obeys_repo:
  "obeys (WalletRepo_Update env wal)" "obeys (OrderRepo_Update env ord)" "obeys (TradeRepo_Insert env t)"
  "obeys (WalletRepo_GetForUpdate env u)"
  unfolding repo_defs
  by (rule obeys_statement;
      auto simp: R_refl R_wallets R_trades intro!: R_orders split: if_splits option.splits;
      auto simp: write_rows_def)+

lemma obeys_loadWallet: "obeys (loadWallet menv u)"
proof -
  have "obeys (bind_ok (WalletRepo_GetForUpdate (me_env menv) u) (\<lambda>wal w'. (Inr wal, w'\<lparr>mw_cache := mw_cache w' @ [wal]\<rparr>)))"
    by (rule obeys_bind [OF obeys_repo(4)]) (simp add: obeys_def R_refl)
  then show ?thesis by (auto simp: obeys_def loadWallet_def R_refl split: option.split)
qed

lemmas obeys_intros = obeys_bind obeys_branch obeys_simple obeys_repo obeys_loadWallet

lemma obeys_for_each: "(\<And>x. obeys (f x)) \<Longrightarrow> obeys (for_each f xs)"
  by (induction xs) (simp_all add: obeys_simple obeys_bind)

lemma obeys_entry: "obeys (applyEntry menv ev)"
  unfolding applyEntry_def applyNewOrder_def applyCancel_def available_funds_def settle_trade_def release_improvement_def
    release_remainder_def release_cancelled_def Let_def
  by (intro obeys_intros obeys_for_each)

lemma obeys_flush: "obeys (flush_wallets menv)"
  using obeys_for_each [of "WalletRepo_Update (me_env menv)", OF obeys_repo(1)] by (simp add: obeys_def flush_wallets_def)

end

text \<open>A relation that the idempotency guard respects too.\<close>

locale batch_relation = entry_relation R for R +
  assumes R_processed: "i \<notin> set (db_processed d) \<Longrightarrow> R d (d\<lparr>db_processed := db_processed d @ [i]\<rparr>)"
begin

lemma obeys_mark: "obeys (ProcessedRepo_TryMark env i sn)"
  unfolding repo_defs by (rule obeys_statement) (auto simp: R_refl R_processed split: if_splits)

lemma obeys_messages: "obeys (for_each (apply_message menv) msgs)"
  unfolding apply_message_def by (intro obeys_for_each obeys_intros obeys_mark obeys_entry)

lemma obeys_batch: "obeys (batch_body menv msgs)"
proof -
  note obeys_flush
  then have "obeys (bind_ok (for_each (apply_message menv) msgs) (\<lambda>_. bind_ok (flush_wallets menv) (\<lambda>_. return_ok (Commits ()))))"
    by (intro obeys_intros obeys_messages)
  then have "R (w_db w) (w_db (snd (batch_body menv msgs w)))" for w
    unfolding batch_body_def obeys_def by (metis (no_types, lifting) MWorld.ext_inject MWorld.surjective MWorld.update_convs(2) World.select_convs(1))
  then show ?thesis by (simp add: obeys_def)
qed

end

text \<open>Foreign tables stay, order ids stay, trades and processed entries are appended.\<close>

definition grows :: "DB \<Rightarrow> DB \<Rightarrow> bool" where
  "grows d d' \<longleftrightarrow> db_users d' = db_users d \<and> db_outbox d' = db_outbox d \<and> db_outboxSeq d' = db_outboxSeq d \<and>
     map or_ID (db_orders d') = map or_ID (db_orders d) \<and> (\<exists>ts. db_trades d' = db_trades d @ ts) \<and>
     (\<exists>is. db_processed d' = db_processed d @ is)"

interpretation growth: batch_relation grows
  by unfold_locales (auto simp: grows_def)

text \<open>Only the guard itself writes \<open>processed_events\<close>.\<close>

interpretation unmarked: entry_relation "\<lambda>d d'. db_processed d' = db_processed d"
  by unfold_locales auto

section \<open>The idempotency guard\<close>

lemma TryMark_Inr:
  "ProcessedRepo_TryMark env i sn w = (Inr b, w') \<longleftrightarrow> e_fault env (w_step w) = Works \<and>
     b = (i \<notin> set (db_processed (w_db w))) \<and>
     w_db w' = (if b then (w_db w)\<lparr>db_processed := db_processed (w_db w) @ [i]\<rparr> else w_db w) \<and>
     w' = tick (w\<lparr>w_db := w_db w'\<rparr>)"
  by (auto simp: ProcessedRepo_TryMark_def statement_Inr split: if_splits)

lemma message_marks:
  assumes "apply_message menv m w = (Inr u, w')"
  shows "xm_ID m \<in> set (db_processed (w_db w'))"
proof -
  from assms obtain b w1 where t: "ProcessedRepo_TryMark (me_env menv) (xm_ID m) (me_streamName menv) w = (Inr b, w1)"
    and k: "(if \<not> b then return_ok () else (case e_unmarshal (me_env menv) (case xm_Payload m of None \<Rightarrow> [] | Some raw \<Rightarrow> raw) of
               None \<Rightarrow> return_ok () | Some event \<Rightarrow> applyEntry menv event)) w1 = (Inr u, w')"
    unfolding apply_message_def bind_ok_Inr by blast
  have "xm_ID m \<in> set (db_processed (w_db w1))"
    using t unfolding TryMark_Inr by (auto split: if_splits)
  moreover have "grows (w_db w1) (w_db w')"
    using k growth.obeys_entry [of menv] growth.R_refl
    by (auto simp: growth.obeys_def split: if_splits option.splits) (metis snd_conv)+
  ultimately show ?thesis by (auto simp: grows_def)
qed

lemma messages_mark:
  "for_each (apply_message menv) msgs w = (Inr u, w') \<Longrightarrow> m \<in> set msgs \<Longrightarrow> xm_ID m \<in> set (db_processed (w_db w'))"
proof (induction msgs arbitrary: w)
  case (Cons m' msgs)
  then obtain u1 w1 where 1: "apply_message menv m' w = (Inr u1, w1)" and 2: "for_each (apply_message menv) msgs w1 = (Inr u, w')"
    by (auto simp: bind_ok_Inr)
  have "grows (w_db w1) (w_db w')"
    using growth.obeys_messages [of menv msgs] 2 unfolding growth.obeys_def by (metis snd_conv)
  then show ?case using Cons message_marks [OF 1] 2 by (auto simp: grows_def)
qed simp

lemma flush_empty: "mw_cache w = [] \<Longrightarrow> flush_wallets menv w = (Inr (), w)"
  by (simp add: flush_wallets_def return_ok_def)

lemma messages_skip:
  assumes "for_each (apply_message menv) msgs w = (r, w')" "\<forall>m\<in>set msgs. xm_ID m \<in> set (db_processed (w_db w))"
  shows "w_db w' = w_db w \<and> mw_book w' = mw_book w \<and> mw_cache w' = mw_cache w"
  using assms
proof (induction msgs arbitrary: w)
  case (Cons m msgs)
  have "apply_message menv m w = (if e_fault (me_env menv) (w_step w) = Works then (Inr (), tick w) else (Inl PgFault, tick w))"
    using Cons.prems(2) by (simp add: apply_message_def ProcessedRepo_TryMark_def statement_def bind_ok_def return_ok_def)
  then show ?case
    using Cons.prems Cons.IH [of "tick w"]
    by (cases "e_fault (me_env menv) (w_step w) = Works") (auto simp: bind_ok_def tick_def)
qed (simp add: return_ok_def)

lemma batch_grows:
  assumes "batch_body menv msgs w = (r, w')"
  shows "grows (w_db w) (w_db w')"
  using growth.obeys_batch [of menv msgs] assms unfolding growth.obeys_def by (metis snd_conv)

lemma batch_marks:
  assumes "batch_body menv msgs w = (Inr x, w')" "m \<in> set msgs"
  shows "xm_ID m \<in> set (db_processed (w_db w'))"
proof -
  from assms(1) obtain u w1 v where 1: "for_each (apply_message menv) msgs (w\<lparr>mw_cache := []\<rparr>) = (Inr u, w1)"
    and 2: "flush_wallets menv w1 = (Inr v, w')"
    unfolding batch_body_def bind_ok_Inr by auto
  have "grows (w_db w1) (w_db w')"
    using growth.obeys_for_each [of "WalletRepo_Update (me_env menv)", OF growth.obeys_repo(1)] 2
    unfolding growth.obeys_def flush_wallets_def by (metis snd_conv)
  with messages_mark [OF 1 assms(2)] show ?thesis by (auto simp: grows_def)
qed

text \<open>What a batch marks are its own entries, and whatever its outcome the tables only grow.\<close>

lemma message_processed:
  assumes "apply_message menv m w = (r, w')"
  shows "set (db_processed (w_db w')) \<subseteq> insert (xm_ID m) (set (db_processed (w_db w)))"
proof -
  obtain r1 w1 where t: "ProcessedRepo_TryMark (me_env menv) (xm_ID m) (me_streamName menv) w = (r1, w1)" by fastforce
  then have 1: "set (db_processed (w_db w1)) \<subseteq> insert (xm_ID m) (set (db_processed (w_db w)))"
    by (auto simp: ProcessedRepo_TryMark_def statement_def split: if_splits)
  have e: "db_processed (w_db (snd (applyEntry menv ev w1))) = db_processed (w_db w1)" for ev
    using unmarked.obeys_entry [of menv ev] unfolding unmarked.obeys_def by blast
  have "w' = w1 \<or> (\<exists>ev. w' = snd (applyEntry menv ev w1))"
    using assms t by (auto simp: apply_message_def bind_ok_def return_ok_def split: sum.splits if_splits option.splits) (metis snd_conv)+
  then show ?thesis using 1 e by auto
qed

lemma messages_processed:
  "for_each (apply_message menv) msgs w = (r, w') \<Longrightarrow> set (db_processed (w_db w')) \<subseteq> set (db_processed (w_db w)) \<union> xm_ID ` set msgs"
proof (induction msgs arbitrary: w)
  case (Cons m msgs)
  obtain r1 w1 where 1: "apply_message menv m w = (r1, w1)" by fastforce
  have "w' = w1 \<or> for_each (apply_message menv) msgs w1 = (r, w')"
    using Cons.prems 1 by (auto simp: bind_ok_def split: sum.splits)
  then show ?case using Cons.IH [of w1] message_processed [OF 1] by auto
qed (simp add: return_ok_def)

lemma applyBatch_db:
  assumes "applyBatch menv msgs w = (r, w')"
  shows "grows (w_db w) (w_db w') \<and> set (db_processed (w_db w')) \<subseteq> set (db_processed (w_db w)) \<union> xm_ID ` set msgs"
proof -
  obtain r1 w1 where b: "batch_body menv msgs (tick w) = (r1, w1)" by fastforce
  have g: "grows (w_db w) (w_db w1)" using batch_grows [OF b] by simp
  obtain r2 w2 where m: "for_each (apply_message menv) msgs ((tick w)\<lparr>mw_cache := []\<rparr>) = (r2, w2)" by fastforce
  have "db_processed (w_db (snd (flush_wallets menv w2))) = db_processed (w_db w2)"
    using unmarked.obeys_flush [of menv] unfolding unmarked.obeys_def by blast
  then have "db_processed (w_db w1) = db_processed (w_db w2)"
    using b m by (auto simp: batch_body_def bind_ok_def return_ok_def split: sum.splits prod.splits)
  then have p: "set (db_processed (w_db w1)) \<subseteq> set (db_processed (w_db w)) \<union> xm_ID ` set msgs"
    using messages_processed [OF m] by (simp add: tick_def)
  have "w_db w' = w_db w \<or> w_db w' = w_db w1"
    using assms b g unfolding applyBatch_def in_tx_def
    by (auto simp: commit_def rolled_back_def grows_def tick_def split: if_splits sum.splits tx_exit.splits fault.splits)
  then show ?thesis using g p by (auto simp: growth.R_refl)
qed

section \<open>A matcher for the witnesses\<close>

text \<open>Order 7 of \<open>sample_db\<close>: a SELL LIMIT order that is OPEN in the table while its event is still undelivered.\<close>

definition pending_event :: StreamEvent where
  "pending_event = \<lparr>ev_Type = EventTypeNewOrder, ev_OrderID = 7, ev_UserID = 1, ev_Side = SideSell, ev_OrderType = TypeLimit,
     ev_PriceCents = Some 1000, ev_Quantity = 5, ev_RequestedBy = None, ev_TraceParent = [], ev_TraceState = []\<rparr>"

definition pending_message :: XMessage where
  "pending_message = \<lparr>xm_ID = ''1-0'', xm_Payload = Some ''new 7''\<rparr>"

definition matcher_env :: MEnv where
  "matcher_env = \<lparr>me_env = quiet_env\<lparr>e_unmarshal := (\<lambda>s. if s = ''new 7'' then Some pending_event else None)\<rparr>,
     me_xreadgroup = (\<lambda>_ _ _. Streams [[pending_message]]), me_xack = (\<lambda>_ _. True), me_ctxDone = (\<lambda>_. False),
     me_streamName = ''orders'', me_batchSize = 10\<rparr>"

definition matcher_world :: MWorld where
  "matcher_world = \<lparr>w_db = sample_db, w_step = 10, mw_book = NewBook, mw_cache = [], mw_bookDirty = True\<rparr>"

lemma sample_batch: "\<exists>w'. applyBatch matcher_env [pending_message] matcher_world = (Inr (), w')"
proof -
  have "fst (applyBatch matcher_env [pending_message] matcher_world) = Inr ()" by code_simp
  then show ?thesis by (metis prod.collapse)
qed

section \<open>Properties\<close>



text \<open>
  C11: exactly-once effects: once a batch has committed, applying the same entries again, on a matcher with
  any in-memory book, changes neither the database nor that book, whether or not the second attempt fails.
\<close>

theorem applyBatch_idempotent:
  assumes "applyBatch menv msgs w = (Inr u, w1)" "w_db w2 = w_db w1" "applyBatch menv' msgs w2 = (r, w3)"
  shows "w_db w3 = w_db w2 \<and> mw_book w3 = mw_book w2"
proof -
  have p: "\<forall>m\<in>set msgs. xm_ID m \<in> set (db_processed (w_db w2))"
  proof -
    obtain w0 where "batch_body menv msgs (tick w) = (Inr (Commits u), w0)" "w1 = tick w0"
      using in_tx_ok [OF assms(1) [unfolded applyBatch_def]] by (auto simp: batch_body_def bind_ok_Inr)
    then show ?thesis using batch_marks assms(2) by auto
  qed
  have "w_db w4 = w_db w2 \<and> mw_book w4 = mw_book w2" if b: "batch_body menv' msgs (tick w2) = (x, w4)" for x w4
  proof -
    obtain r1 w5 where m: "for_each (apply_message menv') msgs ((tick w2)\<lparr>mw_cache := []\<rparr>) = (r1, w5)" by fastforce
    have "w_db w5 = w_db w2 \<and> mw_book w5 = mw_book w2 \<and> mw_cache w5 = []"
      using messages_skip [OF m] p by (simp add: tick_def)
    with b m show ?thesis by (auto simp: batch_body_def bind_ok_def flush_empty return_ok_def split: sum.splits)
  qed
  then show ?thesis
    using assms(3) unfolding applyBatch_def in_tx_def commit_def
    by (fastforce simp: rolled_back_def tick_def split: if_splits prod.splits sum.splits tx_exit.splits fault.splits)
qed

theorem applyBatch_idempotent_witness:
  "\<exists>w1 r w2. applyBatch matcher_env [pending_message] matcher_world = (Inr (), w1) \<and>
     applyBatch matcher_env [pending_message] w1 = (r, w2) \<and> w_db w2 = w_db w1 \<and> mw_book w2 = mw_book w1"
proof -
  obtain w1 where 1: "applyBatch matcher_env [pending_message] matcher_world = (Inr (), w1)" using sample_batch by blast
  obtain r w2 where 2: "applyBatch matcher_env [pending_message] w1 = (r, w2)" by fastforce
  from applyBatch_idempotent [OF 1 refl 2] 1 2 show ?thesis by blast
qed



text \<open>
  User 1 had 10000 cents, of which a BUY LIMIT order of 10 units at 600 (order 1) reserved 6000; user 2 offers
  5 units at 1000 (order 2). User 1 then sends a BUY MARKET order for one unit (order 3).
\<close>

definition drained_db :: DB where
  "drained_db = \<lparr>db_users = [],
     db_wallets = [\<lparr>w_UserID = 1, w_BalanceBRLCents = 4000, w_ReservedBRLCents = 6000, w_BalanceVibranium = 0, w_ReservedVibranium = 0\<rparr>,
                   \<lparr>w_UserID = 2, w_BalanceBRLCents = 0, w_ReservedBRLCents = 0, w_BalanceVibranium = 5, w_ReservedVibranium = 5\<rparr>],
     db_orders = map row_of_order
       [\<lparr>o_ID = 1, o_UserID = 1, o_Side = SideBuy, o_Type = TypeLimit, o_PriceCents = Some 600, o_Quantity = 10,
         o_FilledQuantity = 0, o_Status = StatusOpen, o_CreatedAt = 0, o_UpdatedAt = 0\<rparr>,
        \<lparr>o_ID = 2, o_UserID = 2, o_Side = SideSell, o_Type = TypeLimit, o_PriceCents = Some 1000, o_Quantity = 5,
         o_FilledQuantity = 0, o_Status = StatusOpen, o_CreatedAt = 1, o_UpdatedAt = 1\<rparr>,
        \<lparr>o_ID = 3, o_UserID = 1, o_Side = SideBuy, o_Type = TypeMarket, o_PriceCents = None, o_Quantity = 1,
         o_FilledQuantity = 0, o_Status = StatusOpen, o_CreatedAt = 2, o_UpdatedAt = 2\<rparr>],
     db_trades = [], db_processed = [''1-0'', ''2-0''], db_outbox = [], db_outboxSeq = 4\<rparr>"

definition market_message :: XMessage where
  "market_message = \<lparr>xm_ID = ''3-0'', xm_Payload = Some ''new 3''\<rparr>"

definition market_env :: MEnv where
  "market_env = matcher_env\<lparr>me_env := quiet_env\<lparr>e_unmarshal := (\<lambda>_. Some (pending_event\<lparr>ev_OrderID := 3, ev_UserID := 1,
       ev_Side := SideBuy, ev_OrderType := TypeMarket, ev_PriceCents := None, ev_Quantity := 1\<rparr>))\<rparr>,
     me_xreadgroup := (\<lambda>_ _ _. Streams [[market_message]])\<rparr>"

definition market_world :: MWorld where
  "market_world = matcher_world\<lparr>w_db := drained_db\<rparr>"


end
