(* ===== verification/Matcher_Conservation.thy ===== *)
theory Matcher_Conservation
  imports Matcher_Safety
begin

text \<open>
  Settlement moves money and Vibranium between wallets and creates or destroys none. The wallets a batch
  works on are the rows of the table, overridden by the objects in its cache; every action of the batch is
  given the amount by which it changes a sum over them, and the amounts of a whole entry add up to nothing.
\<close>

section \<open>The wallets a batch sees\<close>

definition seen :: "Wallet list \<Rightarrow> Wallet \<Rightarrow> Wallet" where
  "seen cache r = (case find_row w_UserID (w_UserID r) cache of None \<Rightarrow> r | Some c \<Rightarrow> c)"

definition cache_ok :: "MWorld \<Rightarrow> bool" where
  "cache_ok w \<longleftrightarrow> distinct (map w_UserID (db_wallets (w_db w))) \<and> distinct (map w_UserID (mw_cache w)) \<and>
     w_UserID ` set (mw_cache w) \<subseteq> w_UserID ` set (db_wallets (w_db w))"

definition holdings :: "(Wallet \<Rightarrow> 'g::ab_group_add) \<Rightarrow> MWorld \<Rightarrow> 'g" where
  "holdings f w = sum_list (map (\<lambda>r. f (seen (mw_cache w) r)) (db_wallets (w_db w)))"

lemma sum_list_split_key:
  fixes g :: "'r \<Rightarrow> 'g::ab_group_add"
  assumes "distinct (map key rows)" "r \<in> set rows" "\<And>x. x \<in> set rows \<Longrightarrow> key x \<noteq> key r \<Longrightarrow> g' x = g x"
  shows "sum_list (map g' rows) = sum_list (map g rows) - g r + g' r"
proof -
  obtain us vs where rows: "rows = us @ r # vs" using assms(2) by (meson split_list)
  have "g' x = g x" if "x \<in> set us \<union> set vs" for x
    using assms(1,3) that by (auto simp: rows image_iff)
  then have "sum_list (map g' us) = sum_list (map g us)" "sum_list (map g' vs) = sum_list (map g vs)"
    by (metis UnCI map_eq_conv)+
  then show ?thesis unfolding rows by (simp del: map_eq_conv add: algebra_simps)
qed

lemma find_row_append: "find_row key k (xs @ ys) = (case find_row key k xs of None \<Rightarrow> find_row key k ys | Some r \<Rightarrow> Some r)"
  by (induction xs) (auto simp: find_row_def)

text \<open>Loading a wallet changes nothing; a method call on a cached one changes its row.\<close>

lemma loadWallet_seen:
  assumes "loadWallet menv u w = (Inr wal, w')" "cache_ok w"
  shows "cache_ok w' \<and> holdings f w' = holdings f w \<and> find_row w_UserID u (mw_cache w') = Some wal \<and> w_db w' = w_db w"
proof (cases "find_row w_UserID u (mw_cache w)")
  case (Some c)
  with assms show ?thesis by (simp add: loadWallet_def)
next
  case None
  with assms(1) have l: "find_row w_UserID u (db_wallets (w_db w)) = Some wal" "w_db w' = w_db w" "mw_cache w' = mw_cache w @ [wal]"
    by (auto simp: loadWallet_def bind_ok_Inr WalletRepo_GetForUpdate_def statement_Inr tick_def split: option.splits)
  have d: "distinct (map w_UserID (db_wallets (w_db w)))" "distinct (map w_UserID (mw_cache w))" using assms(2) by (simp_all add: cache_ok_def)
  have wal: "wal \<in> set (db_wallets (w_db w))" "w_UserID wal = u" using l(1) wallets.lookup_law [OF d(1)] by auto
  have "u \<notin> w_UserID ` set (mw_cache w)" using None wallets.lookup_none [OF d(2)] by simp
  then have "cache_ok w'" using assms(2) wal l by (auto simp: cache_ok_def)
  moreover have "seen (mw_cache w') r = seen (mw_cache w) r" if "r \<in> set (db_wallets (w_db w))" for r
    using that wal d(1) unfolding seen_def l(3) find_row_append
    by (auto simp: find_row_def distinct_map inj_on_def split: option.splits)
  moreover have "find_row w_UserID u (mw_cache w') = Some wal"
    using None wal(2) by (simp add: l(3) find_row_append) (simp add: find_row_def)
  ultimately show ?thesis using l(2) by (simp add: holdings_def cong: map_cong)
qed

lemma wallet_do_seen:
  assumes "wallet_do u op w = (Inr x, w')" "cache_ok w" "\<And>c c'. op c = Inr c' \<Longrightarrow> w_UserID c' = w_UserID c"
  shows "\<exists>c c'. find_row w_UserID u (mw_cache w) = Some c \<and> op c = Inr c' \<and> cache_ok w' \<and>
    find_row w_UserID u (mw_cache w') = Some c' \<and> holdings f w' = holdings f w - f c + f c'"
proof -
  from assms(1) obtain c c' where c: "find_row w_UserID u (mw_cache w) = Some c" "op c = Inr c'"
      "w' = w\<lparr>mw_cache := write_rows w_UserID u (\<lambda>_. c') (mw_cache w)\<rparr>"
    by (auto simp: wallet_do_def split: option.splits sum.splits)
  have d: "distinct (map w_UserID (db_wallets (w_db w)))" "distinct (map w_UserID (mw_cache w))" using assms(2) by (simp_all add: cache_ok_def)
  have u: "w_UserID c = u" "w_UserID c' = u" "c \<in> set (mw_cache w)" using c(1,2) wallets.lookup_law [OF d(2)] assms(3) by auto
  have keys: "map w_UserID (write_rows w_UserID u (\<lambda>_. c') (mw_cache w)) = map w_UserID (mw_cache w)"
    by (rule wallets.modify_keys) (simp add: u)
  then have "w_UserID ` set (write_rows w_UserID u (\<lambda>_. c') (mw_cache w)) = w_UserID ` set (mw_cache w)"
    by (metis set_map)
  then have ok: "cache_ok w'" using assms(2) keys by (simp add: cache_ok_def c(3))
  have look: "find_row w_UserID v (mw_cache w') = (if v = u then Some c' else find_row w_UserID v (mw_cache w))" for v
    using wallets.lookup_modify [OF d(2), of u "\<lambda>_. c'" v] u c(1) by (simp add: c(3))
  obtain r where r: "r \<in> set (db_wallets (w_db w))" "w_UserID r = u"
    using assms(2) u by (auto simp: cache_ok_def)
  have "holdings f w' = holdings f w - f (seen (mw_cache w) r) + f (seen (mw_cache w') r)"
    using sum_list_split_key [OF d(1) r(1), of "\<lambda>r. f (seen (mw_cache w') r)" "\<lambda>r. f (seen (mw_cache w) r)"] look r(2)
    by (simp add: holdings_def seen_def c(3))
  then show ?thesis using c(1,2) ok look r(2) by (auto simp: seen_def)
qed

text \<open>The final flush makes the table what the batch saw.\<close>

lemma seen_Cons: "seen (c # cs) r = (if w_UserID r = w_UserID c then c else seen cs r)"
  by (auto simp: seen_def find_row_def)

lemma flush_rows:
  assumes "for_each (WalletRepo_Update env) cs w = (Inr x, w')" "distinct (map w_UserID cs)"
  shows "db_wallets (w_db w') = map (seen cs) (db_wallets (w_db w)) \<and> mw_cache w' = mw_cache w"
  using assms
proof (induction cs arbitrary: w)
  case Nil
  have "seen [] = (\<lambda>r. r)" by (auto simp: seen_def find_row_def)
  with Nil show ?case by simp
next
  case (Cons c cs)
  then obtain w1 where w1: "WalletRepo_Update env c w = (Inr (), w1)" "for_each (WalletRepo_Update env) cs w1 = (Inr x, w')"
    by (auto simp: bind_ok_Inr)
  have "db_wallets (w_db w1) = map (\<lambda>r. if w_UserID r = w_UserID c then c else r) (db_wallets (w_db w))" "mw_cache w1 = mw_cache w"
    using w1(1) by (auto simp: WalletRepo_Update_def statement_Inr write_rows_def tick_def split: if_splits intro: Wallet.equality)
  moreover have "seen cs c = c"
    using Cons.prems(2) wallets.lookup_none [of cs "w_UserID c"] by (simp add: seen_def)
  ultimately show ?case
    using Cons.IH [OF w1(2)] Cons.prems(2) by (auto simp: seen_Cons)
qed

section \<open>Ledgers\<close>

text \<open>
  A quantity kept per wallet in some abelian group, of which a buyer gains \<open>gain p q\<close> and a seller loses as
  much when \<open>q\<close> units trade at price \<open>p\<close>, and which releases leave alone. The provider is the wallet
  package; the client is the matcher, whose batches conserve the sum of any such quantity.
\<close>

locale ledger =
  fixes f :: "Wallet \<Rightarrow> 'g::ab_group_add" and gain :: "int64 \<Rightarrow> int64 \<Rightarrow> 'g"
  assumes buy_limit_law: "SettleBuyLimitFill p q c = Inr c' \<Longrightarrow> f c' = f c + gain p q"
    and buy_market_law: "SettleBuyMarketFill p q c = Inr c' \<Longrightarrow> f c' = f c + gain p q"
    and sell_law: "SettleSellFill p q c = Inr c' \<Longrightarrow> f c' = f c - gain p q"
    and release_brl_law: "ReleaseBRLReservation a c = Inr c' \<Longrightarrow> f c' = f c"
    and release_vib_law: "ReleaseVibraniumReservation a c = Inr c' \<Longrightarrow> f c' = f c"
begin

definition moves :: "(MWorld, 'a) action \<Rightarrow> 'g \<Rightarrow> bool" where
  "moves act a \<longleftrightarrow> (\<forall>w x w'. act w = (Inr x, w') \<longrightarrow> cache_ok w \<longrightarrow> cache_ok w' \<and> holdings f w' = holdings f w + a)"

lemma movesI: "(\<And>w x w'. act w = (Inr x, w') \<Longrightarrow> cache_ok w \<Longrightarrow> cache_ok w' \<and> holdings f w' = holdings f w + a) \<Longrightarrow> moves act a"
  by (simp add: moves_def)

lemma moves_bind: "moves m a \<Longrightarrow> (\<And>x. moves (k x) b) \<Longrightarrow> moves (bind_ok m k) (a + b)"
  unfolding moves_def bind_ok_Inr by (metis add.assoc)

lemma moves_bind0: "moves m 0 \<Longrightarrow> (\<And>x. moves (k x) 0) \<Longrightarrow> moves (bind_ok m k) 0"
  using moves_bind [of m 0 k 0] by simp

lemma moves_branch:
  "moves m a \<Longrightarrow> moves n a \<Longrightarrow> moves (if c then m else n) a"
  "moves m a \<Longrightarrow> (\<And>x. moves (k x) a) \<Longrightarrow> moves (case opt of None \<Rightarrow> m | Some x \<Rightarrow> k x) a"
  "(\<And>x. moves (g x) a) \<Longrightarrow> (\<And>y. moves (k y) a) \<Longrightarrow> moves (case sm of Inl x \<Rightarrow> g x | Inr y \<Rightarrow> k y) a"
  "moves m a \<Longrightarrow> moves n a \<Longrightarrow> (\<And>s. moves (h s) a) \<Longrightarrow>
     moves (case et of EventTypeNewOrder \<Rightarrow> m | EventTypeCancelOrder \<Rightarrow> n | EventTypeRaw s \<Rightarrow> h s) a"
  by (auto split: option.split sum.split EventType.split)

lemma moves_simple:
  "moves (return_ok x) 0" "moves (return_err e) a" "moves (now env) 0" "moves (new_uuid env) 0"
  "moves (run_match menv ord funds) 0" "moves (book_cancel i) 0"
  by (auto simp: moves_def return_ok_def return_err_def now_def new_uuid_def run_match_def book_cancel_def cache_ok_def
      holdings_def tick_def split: option.splits sum.splits prod.splits)

lemma moves_statement:
  assumes "\<And>n d x d'. h n d = Inr (x, d') \<Longrightarrow> db_wallets d' = db_wallets d"
  shows "moves (statement env h) 0"
proof (rule movesI)
  fix w :: MWorld and x w'
  assume s: "statement env h w = (Inr x, w')" and ok: "cache_ok w"
  then have "db_wallets (w_db w') = db_wallets (w_db w)" "mw_cache w' = mw_cache w"
    by (auto simp: statement_Inr tick_def dest: assms)
  with ok show "cache_ok w' \<and> holdings f w' = holdings f w + 0" by (simp add: cache_ok_def holdings_def)
qed

lemma moves_repo:
  "moves (OrderRepo_Update env ord) 0" "moves (TradeRepo_Insert env t) 0" "moves (ProcessedRepo_TryMark env i sn) 0"
  unfolding repo_defs by (auto intro!: moves_statement split: if_splits)

lemma moves_loadWallet: "moves (loadWallet menv u) 0"
  by (rule movesI) (simp add: loadWallet_seen)

lemma moves_wallet_do:
  assumes "\<And>c c'. op c = Inr c' \<Longrightarrow> w_UserID c' = w_UserID c \<and> f c' = f c + a"
  shows "moves (wallet_do u op) a"
proof (rule movesI)
  fix w x w'
  assume "wallet_do u op w = (Inr x, w')" "cache_ok w"
  from wallet_do_seen [OF this, of f] assms show "cache_ok w' \<and> holdings f w' = holdings f w + a"
    by fastforce
qed

lemma moves_wallet_ops:
  "moves (wallet_do u (SettleBuyLimitFill p q)) (gain p q)" "moves (wallet_do u (SettleBuyMarketFill p q)) (gain p q)"
  "moves (wallet_do u (SettleSellFill p q)) (- gain p q)"
  "moves (wallet_do u (ReleaseBRLReservation b)) 0" "moves (wallet_do u (ReleaseVibraniumReservation b)) 0"
  by (rule moves_wallet_do; simp add: buy_limit_law buy_market_law sell_law release_brl_law release_vib_law wallet_ops_owner)+

lemma moves_for_each: "(\<And>x. moves (h x) 0) \<Longrightarrow> moves (for_each h xs) 0"
  by (induction xs) (simp_all add: moves_simple moves_bind0)

lemma moves_improvement: "moves (release_improvement ord tr) 0"
  unfolding release_improvement_def Let_def by (intro moves_branch moves_wallet_ops moves_simple)

lemma moves_pay:
  "moves (if b then wallet_do u (SettleBuyMarketFill p q) else bind_ok (wallet_do u (SettleBuyLimitFill p q)) (\<lambda>_. release_improvement ord tr))
     (gain p q)"
  using moves_bind [OF moves_wallet_ops(1), of "\<lambda>_. release_improvement ord tr" 0 u p q] moves_improvement
  by (simp add: moves_wallet_ops)

lemma moves_settle: "moves (settle_trade menv ord tr) 0"
proof -
  let ?p = "mt_PriceCents tr" and ?q = "mt_Quantity tr"
  have booked: "moves (bind_ok (new_uuid (me_env menv)) (\<lambda>i. bind_ok (now (me_env menv)) (\<lambda>t.
       (case New_Trade i (mt_BuyOrderID tr) (mt_SellOrderID tr) (mt_BuyerUserID tr) (mt_SellerUserID tr) ?p ?q t of
          Inl e \<Rightarrow> return_err (TradeErr e) | Inr trd \<Rightarrow> TradeRepo_Insert (me_env menv) trd)))) 0"
    by (intro moves_bind0 moves_branch moves_simple moves_repo)
  have cancels: "moves m 0" if "moves m (gain ?p ?q + (- gain ?p ?q + 0))" for m :: "(MWorld, unit) action"
    using that by simp
  show ?thesis
    unfolding settle_trade_def
    by (rule moves_bind0 [OF moves_loadWallet], rule moves_bind0 [OF moves_loadWallet], rule cancels,
        rule moves_bind [OF moves_pay], rule moves_bind [OF moves_wallet_ops(3)], rule booked)
qed

lemma moves_entry: "moves (applyEntry menv ev) 0"
  unfolding applyEntry_def applyNewOrder_def applyCancel_def available_funds_def release_remainder_def release_cancelled_def
  by (intro moves_branch moves_bind0 moves_simple moves_repo moves_loadWallet moves_for_each moves_settle moves_wallet_ops)

lemma moves_messages: "moves (for_each (apply_message menv) msgs) 0"
  unfolding apply_message_def by (intro moves_for_each moves_branch moves_bind0 moves_simple moves_repo moves_entry)

lemma batch_conserves:
  assumes "batch_body menv msgs w = (Inr x, w')" "distinct (map w_UserID (db_wallets (w_db w)))"
  shows "sum_list (map f (db_wallets (w_db w'))) = sum_list (map f (db_wallets (w_db w)))"
proof -
  from assms(1) obtain w1 where 1: "for_each (apply_message menv) msgs (w\<lparr>mw_cache := []\<rparr>) = (Inr (), w1)"
    and 2: "for_each (WalletRepo_Update (me_env menv)) (mw_cache w1) w1 = (Inr (), w')"
    by (auto simp: batch_body_def bind_ok_Inr flush_wallets_def)
  have "cache_ok (w\<lparr>mw_cache := []\<rparr>)" using assms(2) by (simp add: cache_ok_def)
  moreover have "holdings f (w\<lparr>mw_cache := []\<rparr>) = sum_list (map f (db_wallets (w_db w)))"
    by (simp add: holdings_def seen_def find_row_def)
  ultimately have "cache_ok w1" "holdings f w1 = sum_list (map f (db_wallets (w_db w)))"
    using moves_messages [of menv msgs] 1 unfolding moves_def by auto
  then show ?thesis
    using flush_rows [OF 2] by (simp add: cache_ok_def holdings_def comp_def)
qed

lemma applyBatch_conserves:
  assumes "applyBatch menv msgs w = (r, w')" "distinct (map w_UserID (db_wallets (w_db w)))"
  shows "sum_list (map f (db_wallets (w_db w'))) = sum_list (map f (db_wallets (w_db w)))"
proof (cases r)
  case (Inl e)
  with in_tx_error [of "me_env menv" "batch_body menv msgs" w e w'] assms(1)
  consider "same_tables (w_db w) (w_db w')" | y w1 where "batch_body menv msgs (tick w) = (Inr (Commits y), w1)" "w' = tick w1"
    unfolding applyBatch_def by blast
  then show ?thesis
  proof cases
    case 1
    then have "db_wallets (w_db w') = db_wallets (w_db w)"
      unfolding same_tables_def by (metis (no_types, lifting) DB.select_convs(2) DB.surjective DB.update_convs(7))
    then show ?thesis by simp
  next
    case 2
    then show ?thesis using batch_conserves [OF 2(1)] assms(2) by simp
  qed
next
  case (Inr y)
  with in_tx_ok [of "me_env menv" "batch_body menv msgs" w y w'] assms(1)
  consider w1 where "batch_body menv msgs (tick w) = (Inr (Commits y), w1)" "w' = tick w1"
    | w1 where "batch_body menv msgs (tick w) = (Inr (Leaves y), w1)" "w' = rolled_back (w_db w) w1"
    unfolding applyBatch_def by blast
  then show ?thesis
  proof cases
    case 1
    then show ?thesis using batch_conserves [OF 1(1)] assms(2) by simp
  qed simp
qed

end

section \<open>Money and Vibranium as ledgers\<close>

text \<open>Machine arithmetic is arithmetic of 64-bit words, so the sums are taken there.\<close>

lemma word_of_wrap64: "(word_of_int (wrap64 x) :: 64 word) = word_of_int x"
  by (simp add: wrap64_is_word_arith)

lemma word_i64 [simp]:
  "(word_of_int (i64_add a b) :: 64 word) = word_of_int a + word_of_int b"
  "(word_of_int (i64_sub a b) :: 64 word) = word_of_int a - word_of_int b"
  "(word_of_int (i64_mul a b) :: 64 word) = word_of_int a * word_of_int b"
  by (simp_all add: i64_add_def i64_sub_def i64_mul_def word_of_wrap64)

definition brl_word :: "Wallet \<Rightarrow> 64 word" where
  "brl_word w = word_of_int (brl w)"

definition vib_word :: "Wallet \<Rightarrow> 64 word" where
  "vib_word w = word_of_int (vib w)"

interpretation money: ledger brl_word "\<lambda>p q. - (word_of_int p * word_of_int q)"
  by unfold_locales (auto simp: wallet_defs brl_word_def brl_def Let_def split: if_splits)

interpretation vibranium: ledger vib_word "\<lambda>p q. word_of_int q"
  by unfold_locales (auto simp: wallet_defs vib_word_def vib_def Let_def split: if_splits)

lemma word_sum:
  "sum_list (map brl_word rows) = word_of_int (sum_list (map brl rows))"
  "sum_list (map vib_word rows) = word_of_int (sum_list (map vib rows))"
  by (induction rows) (simp_all add: brl_word_def vib_word_def)

section \<open>The schema's invariant\<close>

lemma safe_matcher [safe_intros]:
  "schema_safe (wallet_do u op)" "schema_safe (run_match menv ord funds)" "schema_safe (book_cancel i)"
  by (auto simp: schema_safe_def keeps_schema_def seq_grows_def wallet_do_def run_match_def book_cancel_def
      split: option.split sum.split prod.split)

lemma safe_for_each [safe_intros]: "(\<And>x. schema_safe (h x)) \<Longrightarrow> schema_safe (for_each h xs)"
  by (induction xs) (auto intro: safe_intros)

lemma safe_loadWallet [safe_intros]: "schema_safe (loadWallet menv u)"
proof -
  have "schema_safe (bind_ok (WalletRepo_GetForUpdate (me_env menv) u) (\<lambda>wal w'. (Inr wal, w'\<lparr>mw_cache := mw_cache w' @ [wal]\<rparr>)))"
    by (intro safe_intros) (simp add: schema_safe_def keeps_schema_def seq_grows_def)
  then show ?thesis by (auto simp: schema_safe_def keeps_schema_def seq_grows_def loadWallet_def split: option.split)
qed

lemma safe_entry [safe_intros]: "schema_safe (applyEntry menv ev)"
proof -
  have "schema_safe (applyNewOrder menv ev)" "schema_safe (applyCancel menv ev)"
    unfolding applyNewOrder_def applyCancel_def available_funds_def settle_trade_def release_improvement_def
      release_remainder_def release_cancelled_def Let_def by (intro safe_intros)+
  then show ?thesis unfolding applyEntry_def by (auto intro: safe_intros split: EventType.split)
qed

lemma safe_batch [safe_intros]: "schema_safe (batch_body menv msgs)"
proof -
  have "schema_safe (flush_wallets menv)"
    using safe_for_each [of "WalletRepo_Update (me_env menv)", OF safe_repo(3)]
    unfolding schema_safe_def keeps_schema_def seq_grows_def flush_wallets_def by blast
  then have "schema_safe (bind_ok (for_each (apply_message menv) msgs) (\<lambda>_. bind_ok (flush_wallets menv) (\<lambda>_. return_ok (Commits ()))))"
    unfolding apply_message_def by (intro safe_intros)
  then show ?thesis
    unfolding schema_safe_def keeps_schema_def seq_grows_def batch_body_def by (metis (no_types, lifting) MWorld.ext_inject MWorld.surjective MWorld.update_convs(2) World.select_convs(1))
qed

lemma safe_applyBatch: "schema_safe (applyBatch menv msgs)"
  unfolding applyBatch_def by (intro safe_intros)

section \<open>Recovery\<close>

lemma rest_all_load: "rest_all os b = book.load (filter (\<lambda>x. o_Type x = TypeLimit) os) b"
  by (induction os arbitrary: b) (auto split: sum.split)

text \<open>The rows the recovery query selects, as orders, oldest first, for a scan that meets the rows as \<open>rows\<close>.\<close>

definition open_orders :: "orderRow list \<Rightarrow> Order list" where
  "open_orders rows = map toOrder (sort_key or_CreatedAt (filter (\<lambda>r. or_Status r \<in> set [''OPEN'', ''PARTIALLY_FILLED'']) rows))"

definition limit_only :: "Order list \<Rightarrow> Order list" where
  "limit_only os = filter (\<lambda>x. o_Type x = TypeLimit) os"

lemma open_orders_ids:
  assumes "distinct (map or_ID rows)" "mset rows' = mset rows"
  shows "distinct (map o_ID (limit_only (open_orders rows')))"
    and "set (open_orders rows') = set (open_orders rows)"
proof -
  define sel where "sel = filter (\<lambda>r. or_Status r \<in> set [''OPEN'', ''PARTIALLY_FILLED'']) rows'"
  have "distinct (map or_ID rows')"
    using assms mset_eq_imp_distinct_iff [of "map or_ID rows'" "map or_ID rows"] by simp
  then have "distinct (map or_ID sel)" unfolding sel_def by (rule distinct_map_filter)
  then have "distinct (map or_ID (sort_key or_CreatedAt sel))"
    using mset_eq_imp_distinct_iff [of "map or_ID (sort_key or_CreatedAt sel)" "map or_ID sel"] by simp
  moreover have "map o_ID (open_orders rows') = map or_ID (sort_key or_CreatedAt sel)"
    by (simp add: open_orders_def sel_def toOrder_def comp_def)
  ultimately have "distinct (map o_ID (open_orders rows'))" by simp
  then show "distinct (map o_ID (limit_only (open_orders rows')))" by (simp add: limit_only_def distinct_map_filter)
  show "set (open_orders rows') = set (open_orders rows)"
    using mset_eq_setD [OF assms(2)] by (simp add: open_orders_def)
qed

section \<open>Properties\<close>

definition wallet_total :: "(Wallet \<Rightarrow> int) \<Rightarrow> DB \<Rightarrow> int" where
  "wallet_total f d = sum_list (map f (db_wallets d))"

lemma word_eq_mod: "(word_of_int a :: 64 word) = word_of_int b \<Longrightarrow> a mod 2 ^ 64 = b mod 2 ^ 64"
  by (simp add: word_of_int_eq_iff take_bit_eq_mod)

text \<open>
  C8: a batch conserves money and Vibranium. Whatever events it holds, whatever the book contains, whichever
  faults occur and whether it succeeds or fails, the sum over all wallets of the BRL cents (free and
  reserved) and of the Vibranium is the same before and after, as a 64-bit quantity; the constraints of the
  schema, non-negative buckets among them, still hold.
\<close>

theorem applyBatch_conserves_holdings:
  assumes "applyBatch menv msgs w = (r, w')" "db_ok (w_db w)"
  shows "wallet_total brl (w_db w') mod 2 ^ 64 = wallet_total brl (w_db w) mod 2 ^ 64 \<and>
    wallet_total vib (w_db w') mod 2 ^ 64 = wallet_total vib (w_db w) mod 2 ^ 64 \<and> db_ok (w_db w')"
proof -
  have d: "distinct (map w_UserID (db_wallets (w_db w)))" using assms(2) by (simp add: db_ok_def)
  have "db_ok (w_db w')"
    using safe_applyBatch [of menv msgs] assms unfolding schema_safe_def keeps_schema_def by (metis snd_conv)
  moreover have "(word_of_int (wallet_total brl (w_db w')) :: 64 word) = word_of_int (wallet_total brl (w_db w))"
    using money.applyBatch_conserves [OF assms(1) d] by (simp add: word_sum wallet_total_def)
  moreover have "(word_of_int (wallet_total vib (w_db w')) :: 64 word) = word_of_int (wallet_total vib (w_db w))"
    using vibranium.applyBatch_conserves [OF assms(1) d] by (simp add: word_sum wallet_total_def)
  ultimately show ?thesis using word_eq_mod by blast
qed

text \<open>User 1 bids 600 for 10 units (order 1, resting), user 2 sells 5 units for at least 600 (order 2).\<close>

definition bid_order :: Order where
  "bid_order = toOrder (hd (db_orders drained_db))"

definition trading_db :: DB where
  "trading_db = drained_db\<lparr>db_orders := [row_of_order bid_order,
     row_of_order (bid_order\<lparr>o_ID := 2, o_UserID := 2, o_Side := SideSell, o_Quantity := 5\<rparr>)], db_processed := [''1-0'']\<rparr>"

definition trading_env :: MEnv where
  "trading_env = matcher_env\<lparr>me_env := quiet_env\<lparr>e_unmarshal := (\<lambda>_. Some (pending_event\<lparr>ev_OrderID := 2, ev_UserID := 2,
       ev_PriceCents := Some 600\<rparr>))\<rparr>\<rparr>"

definition trading_world :: MWorld where
  "trading_world = matcher_world\<lparr>w_db := trading_db, mw_book := projr (AddResting bid_order NewBook)\<rparr>"

lemma trading_db_ok: "db_ok (w_db trading_world)"
  by (simp add: trading_world_def trading_db_def drained_db_def bid_order_def db_ok_def wallet_checks_def order_row_ok_def
      status_enum_def row_of_order_def toOrder_def Side_of_string_def Type_of_string_def Status_of_string_def)

theorem applyBatch_conserves_holdings_witness:
  "\<exists>w'. applyBatch trading_env [market_message] trading_world = (Inr (), w') \<and> length (db_trades (w_db w')) = 1 \<and>
     wallet_total brl (w_db w') mod 2 ^ 64 = 10000 \<and> wallet_total vib (w_db w') mod 2 ^ 64 = 10"
proof -
  let ?r = "applyBatch trading_env [market_message] trading_world"
  have r: "fst ?r = Inr ()" "length (db_trades (w_db (snd ?r))) = 1" by code_simp+
  have t: "wallet_total brl (w_db trading_world) = 10000" "wallet_total vib (w_db trading_world) = 10" by code_simp+
  have eq: "?r = (Inr (), snd ?r)" using r(1) by (metis prod.collapse)
  from applyBatch_conserves_holdings [OF eq trading_db_ok] r t eq show ?thesis by (intro exI [of _ "snd ?r"]) simp
qed

text \<open>
  C30: recovery rebuilds the book the database describes. When the query works, and the open LIMIT rows carry a
  positive price and a consistent fill state, \<open>RecoverBook\<close> neither fails nor panics: the new book satisfies its
  representation invariant, holds exactly the open LIMIT orders, and ranks them by price and, at one price,
  in the order of the query, oldest \<open>created_at\<close> first; MARKET orders are left out and the tables untouched.
\<close>

theorem RecoverBook_rebuilds:
  assumes "e_fault env (w_step w) = Works" "db_ok (w_db w)"
    and scan: "mset (e_scan env (w_step w) (db_orders (w_db w))) = mset (db_orders (w_db w))"
    and rows: "\<forall>x\<in>set (limit_only (open_orders (db_orders (w_db w)))). resting_ok x"
  shows "\<exists>b w'. RecoverBook env w = (Inr b, w') \<and> w_db w' = w_db w \<and> book_ok b \<and>
    resting_ids b = o_ID ` set (limit_only (open_orders (db_orders (w_db w)))) \<and>
    (\<forall>s\<in>sides. priority b s =
       fold insert_priority (filter (\<lambda>x. o_Side x = s) (limit_only (open_orders (e_scan env (w_step w) (db_orders (w_db w)))))) [])"
proof -
  let ?scan = "e_scan env (w_step w) (db_orders (w_db w))"
  have d: "distinct (map or_ID (db_orders (w_db w)))" using assms(2) by (simp add: db_ok_def)
  note ids = open_orders_ids [OF d scan]
  have set_eq: "set (limit_only (open_orders ?scan)) = set (limit_only (open_orders (db_orders (w_db w))))"
    using ids(2) by (simp add: limit_only_def)
  have new: "book_ok NewBook" "resting_ids NewBook = {}" "\<And>s. s \<in> sides \<Longrightarrow> priority NewBook s = []" using book.new_law by auto
  obtain b where b: "book.load (limit_only (open_orders ?scan)) NewBook = Inr b" "book_ok b"
      "resting_ids b = resting_ids NewBook \<union> o_ID ` set (limit_only (open_orders ?scan))"
      "\<forall>s\<in>sides. priority b s = fold insert_priority (filter (\<lambda>x. o_Side x = s) (limit_only (open_orders ?scan))) (priority NewBook s)"
    using book.load_ok [OF new(1), of "limit_only (open_orders ?scan)"] rows set_eq ids(1) new(2) by auto
  have "RecoverBook env w = (Inr b, tick w)"
    using assms(1) b(1)
    by (simp add: RecoverBook_def bind_ok_def OrderRepo_ListOpenForRecovery_def statement_def rest_all_load return_ok_def
        limit_only_def open_orders_def)
  then show ?thesis using b(2-4) new set_eq by simp
qed

theorem RecoverBook_rebuilds_witness:
  "\<exists>b w'. RecoverBook quiet_env market_world = (Inr b, w') \<and> book_ok b \<and> resting_ids b = {1, 2}"
proof -
  have db: "db_ok (w_db market_world)"
    by (simp add: market_world_def drained_db_def db_ok_def wallet_checks_def order_row_ok_def status_enum_def row_of_order_def)
  have ids: "map o_ID (limit_only (open_orders (db_orders (w_db market_world)))) = [1, 2]" by code_simp
  then have set_ids: "o_ID ` set (limit_only (open_orders (db_orders (w_db market_world)))) = {1, 2}" by (metis list.set(1,2) set_map)
  have ok: "\<forall>x\<in>set (limit_only (open_orders (db_orders (w_db market_world)))). resting_ok x"
    by (simp add: market_world_def drained_db_def open_orders_def limit_only_def row_of_order_def toOrder_def Side_of_string_def
        Type_of_string_def Status_of_string_def resting_ok_def order_ok_def IsDone_def MaxInt64_def)
  show ?thesis
    using RecoverBook_rebuilds [of quiet_env market_world, OF _ db _ ok] set_ids by (auto simp: quiet_env_def)
qed

end
