(* ===== verification/Matcher_Exact.thy ===== *)
theory Matcher_Exact
  imports Match_Returns Matcher_Conservation
begin

text \<open>
  Settlement is exact. When the totals of money and Vibranium are \<open>int64\<close>, and price times quantity of every LIMIT order
  is one (which the API guarantees), no arithmetic of a batch wraps, so the totals are conserved as integers. The
  proof needs little of the book: an order waits at the price of its level.
\<close>

section \<open>Priced books\<close>

lemma heap_up_keeps: "(\<And>s i j. P s \<Longrightarrow> P (swapF s i j)) \<Longrightarrow> P h \<Longrightarrow> P (heap_up lessF swapF h j)"
  by (induction lessF swapF h j rule: heap_up.induct) (subst heap_up.simps, auto simp: Let_def)

lemma heap_down_keeps: "(\<And>s i j. P s \<Longrightarrow> P (swapF s i j)) \<Longrightarrow> P h \<Longrightarrow> P (fst (heap_down lessF swapF h i n))"
  by (induction lessF swapF h i n rule: heap_down.induct) (subst heap_down.simps, auto simp: Let_def)

lemma heap_Push_keeps:
  "(\<And>s i j. P s \<Longrightarrow> P (swapF s i j)) \<Longrightarrow> P (pushF x h) \<Longrightarrow> P (heap_Push lenF lessF swapF pushF x h)"
  by (simp add: heap_Push_def Let_def heap_up_keeps)

lemma heap_Remove_keeps:
  assumes "\<And>s i j. P s \<Longrightarrow> P (swapF s i j)" "\<And>s. P s \<Longrightarrow> P (popF s)" "P h" "heap_Remove lenF lessF swapF popF h i = Inr h'"
  shows "P h'"
  using assms heap_down_keeps [of P swapF] heap_up_keeps [of P swapF]
  by (auto simp: heap_Remove_def Let_def split: if_splits prod.splits) (metis fst_conv)+

text \<open>Prices and queues of all levels, which the heap operations leave alone.\<close>

definition same_queues :: "mem \<Rightarrow> mem \<times> levelHeap \<Rightarrow> bool" where
  "same_queues m s \<longleftrightarrow> (\<forall>a. lv_priceCents (fst s a) = lv_priceCents (m a) \<and> lv_orders (fst s a) = lv_orders (m a))"

lemma same_queues_ops:
  "same_queues m s \<Longrightarrow> same_queues m (lh_Swap s i j)" "same_queues m s \<Longrightarrow> same_queues m (lh_Push a s)"
  "same_queues m s \<Longrightarrow> same_queues m (lh_Pop s)" "same_queues m (m, h)"
  by (auto simp: same_queues_def lh_Push_def lh_Pop_def)

lemma same_queues_heap:
  "same_queues m (heap_Push lh_Len lh_Less lh_Swap lh_Push a (m, h))"
  "heap_Remove lh_Len lh_Less lh_Swap lh_Pop (m, h) i = Inr s \<Longrightarrow> same_queues m s"
  by (rule heap_Push_keeps [where P = "same_queues m"]; simp add: same_queues_ops)
    (rule heap_Remove_keeps [where P = "same_queues m" and swapF = lh_Swap and popF = lh_Pop]; simp add: same_queues_ops)

definition cheap :: "Order \<Rightarrow> bool" where
  "cheap ord \<longleftrightarrow> sane (\<lambda>_. MaxInt64) ord \<and> (\<forall>p. o_PriceCents ord = Some p \<longrightarrow> 0 < p \<longrightarrow> p * o_Quantity ord \<le> MaxInt64)"

definition queue_ok :: "Book \<Rightarrow> level \<Rightarrow> bool" where
  "queue_ok b l \<longleftrightarrow> (\<forall>e\<in>set (lv_orders l). e < b_nextElem b \<and> o_PriceCents (b_elems b e) = Some (lv_priceCents l))"

definition entries_ok :: "Book \<Rightarrow> (int64 \<rightharpoonup> addr) \<Rightarrow> bool" where
  "entries_ok b idx \<longleftrightarrow> (\<forall>p a. idx p = Some a \<longrightarrow> a < b_nextLevel b \<and> lv_priceCents (b_mem b a) = p)"

definition priced :: "Book \<Rightarrow> bool" where
  "priced b \<longleftrightarrow> (\<forall>e. cheap (b_elems b e)) \<and> (\<forall>a. queue_ok b (b_mem b a)) \<and> entries_ok b (b_bidsByPrice b) \<and> entries_ok b (b_asksByPrice b)"

lemma priced_store: "priced b \<Longrightarrow> store_ok (\<lambda>_. MaxInt64) b"
  by (simp add: priced_def store_ok_def cheap_def)

lemma priced_new: "priced NewBook"
  by (simp add: priced_def NewBook_def queue_ok_def entries_ok_def cheap_def sane_def no_order_def no_level_def MaxInt64_def)

text \<open>Writing back a heap that left the queues alone, and an index that only lost entries or gained the new level.\<close>

lemma put_heap_mem [simp]: "b_mem (put_heapAndIndex side s idx b) = fst s"
  by (simp add: put_heapAndIndex_def)

lemma priced_heap:
  assumes "priced b" "same_queues (b_mem b) s" "entries_ok b idx"
  shows "priced (put_heapAndIndex side s idx b)"
  using assms by (auto simp: priced_def put_heapAndIndex_def queue_ok_def entries_ok_def same_queues_def)

lemma priced_put:
  assumes "priced b" "cheap ord" "o_PriceCents ord = o_PriceCents (b_elems b e)"
  shows "priced (put_order e ord b)"
  using assms by (auto simp: priced_def put_order_def queue_ok_def entries_ok_def)

lemma priced_removeFront:
  assumes "removeFront ord side lvl b = Inr b'" "priced b"
  shows "priced b'"
proof (cases "b_locations b (o_ID ord)")
  case None
  with assms show ?thesis by (simp add: removeFront_def)
next
  case (Some loc)
  define b1 where "b1 = b\<lparr>b_mem := (b_mem b)(lvl := (b_mem b lvl)\<lparr>lv_orders := remove1 (loc_elem loc) (lv_orders (b_mem b lvl))\<rparr>),
     b_locations := (b_locations b)(o_ID ord := None)\<rparr>"
  have b1: "priced b1"
    using assms(2) notin_set_remove1 by (fastforce simp: priced_def b1_def queue_ok_def entries_ok_def dest: set_remove1_subset [THEN subsetD])
  then have "entries_ok b1 ((snd (heapAndIndex b1 side))(p := None))" for p
    by (auto simp: priced_def entries_ok_def heapAndIndex_def split: if_splits)
  then show ?thesis
    using assms(1) Some b1 priced_heap [OF b1 same_queues_heap(2)]
    by (auto simp: removeFront_def Let_def b1_def [symmetric] split: if_splits prod.splits sum.splits)
qed

lemma priced_level_for:
  assumes "level_for side p b = (b1, lvl)" "priced b"
  shows "priced b1" "lv_priceCents (b_mem b1 lvl) = p"
proof -
  have "priced b1 \<and> lv_priceCents (b_mem b1 lvl) = p"
  proof (cases "snd (heapAndIndex b side) p")
    case (Some a)
    then show ?thesis using assms by (auto simp: level_for_def priced_def entries_ok_def heapAndIndex_def split: prod.splits if_splits)
  next
    case None
    define b0 where "b0 = b\<lparr>b_mem := (b_mem b)(b_nextLevel b := \<lparr>lv_priceCents = p, lv_orders = [], lv_index = 0\<rparr>), b_nextLevel := Suc (b_nextLevel b)\<rparr>"
    let ?s = "heap_Push lh_Len lh_Less lh_Swap lh_Push (b_nextLevel b) (b_mem b0, fst (heapAndIndex b side))"
    let ?idx = "(snd (heapAndIndex b side))(p \<mapsto> b_nextLevel b)"
    have "priced b0" using assms(2) by (auto simp: priced_def b0_def queue_ok_def entries_ok_def less_Suc_eq)
    moreover have "entries_ok b0 ?idx"
      using assms(2) by (auto simp: priced_def b0_def entries_ok_def heapAndIndex_def less_Suc_eq split: if_splits)
    ultimately have "priced (put_heapAndIndex side ?s ?idx b0)" by (rule priced_heap [OF _ same_queues_heap(1)])
    moreover have eq: "b1 = put_heapAndIndex side ?s ?idx b0" "lvl = b_nextLevel b"
      using assms(1) None by (auto simp: level_for_def Let_def b0_def put_heapAndIndex_def split: prod.splits)
    moreover have "lv_priceCents (fst ?s (b_nextLevel b)) = p"
      using same_queues_heap(1) [of "b_mem b0"] by (simp add: same_queues_def b0_def)
    ultimately show ?thesis by simp
  qed
  then show "priced b1" "lv_priceCents (b_mem b1 lvl) = p" by simp_all
qed

lemma priced_AddResting:
  assumes "AddResting ord b = Inr b'" "priced b" "cheap ord"
  shows "priced b'"
proof -
  from assms(1) obtain p b1 lvl where p: "o_PriceCents ord = Some p" and l: "level_for (o_Side ord) p b = (b1, lvl)" and b': "b' = push_back lvl ord b1"
    by (auto simp: AddResting_def split: option.splits prod.splits)
  show ?thesis using priced_level_for [OF l assms(2)] assms(3) p
    by (auto simp: b' priced_def push_back_def Let_def queue_ok_def entries_ok_def less_Suc_eq)
qed

section \<open>Matching on a priced book\<close>

lemma fill_price: "o_PriceCents (fill_ignoring_error t q ord) = o_PriceCents ord" "o_Quantity (fill_ignoring_error t q ord) = o_Quantity ord"
  by (simp_all add: fill_ignoring_error_def Fill_def Let_def)

lemma cheap_fill: "cheap ord \<Longrightarrow> cheap (fill_ignoring_error t q ord)"
  by (auto simp: cheap_def fill_price intro: sane_fill)

text \<open>The cost of a trade that settlement accepts is an \<open>int64\<close>.\<close>

definition affordable :: "MTrade \<Rightarrow> bool" where
  "affordable tr \<longleftrightarrow> (0 < mt_PriceCents tr \<longrightarrow> 0 < mt_Quantity tr \<longrightarrow> mt_PriceCents tr * mt_Quantity tr \<le> MaxInt64)"

definition pass_ok :: "MatchState \<Rightarrow> bool" where
  "pass_ok st \<longleftrightarrow> priced (ms_book st) \<and> cheap (ms_incoming st) \<and> (\<forall>tr\<in>set (ms_trades st). affordable tr)"

lemma cheap_affordable:
  assumes "cheap m" "o_PriceCents m = Some p" "0 < q \<Longrightarrow> q \<le> Remaining m"
  shows "affordable (make_trade inc m p q)"
proof -
  have "p * q \<le> MaxInt64" if "0 < p" "0 < q"
  proof -
    have "q \<le> o_Quantity m" using assms(1,3) that(2) sane_remaining [of "\<lambda>_. MaxInt64" m] by (auto simp: cheap_def sane_def)
    then have "p * q \<le> p * o_Quantity m" using that(1) by (simp add: mult_left_mono)
    also have "\<dots> \<le> MaxInt64" using assms(1,2) that(1) by (simp add: cheap_def)
    finally show ?thesis .
  qed
  then show ?thesis by (auto simp: affordable_def make_trade_def)
qed

lemma match_exec_pass:
  assumes "match_exec clk lvl e q st = Inr (Continues st')" "pass_ok st"
    and e: "e \<in> set (lv_orders (b_mem (ms_book st) lvl))" and q: "0 < q \<Longrightarrow> q \<le> Remaining (b_elems (ms_book st) e)"
  shows "pass_ok st'"
proof -
  let ?m = "b_elems (ms_book st) e" and ?m' = "fill_ignoring_error (clk (Suc (ms_clock st))) q (b_elems (ms_book st) e)"
  have pr: "priced (ms_book st)" using assms(2) by (simp add: pass_ok_def)
  then have m: "cheap ?m" "o_PriceCents ?m = Some (lv_priceCents (b_mem (ms_book st) lvl))" using e by (auto simp: priced_def queue_ok_def)
  have "priced (put_order e ?m' (ms_book st))" by (rule priced_put [OF pr cheap_fill [OF m(1)] fill_price(1)])
  then have "priced (ms_book st')"
    using assms(1) by (auto simp: match_exec_def Let_def split: if_splits sum.splits intro: priced_removeFront)
  moreover have "affordable (make_trade (ms_incoming st) ?m (lv_priceCents (b_mem (ms_book st) lvl)) q)"
    by (rule cheap_affordable [OF m q])
  moreover have "ms_incoming st' = fill_ignoring_error (clk (ms_clock st)) q (ms_incoming st)"
      "ms_trades st' = ms_trades st @ [make_trade (ms_incoming st) ?m (lv_priceCents (b_mem (ms_book st) lvl)) q]"
    using assms(1) by (auto simp: match_exec_def Let_def split: if_splits sum.splits)
  ultimately show ?thesis using assms(2) cheap_fill by (auto simp: pass_ok_def)
qed

lemma match_iter_pass:
  assumes "match_iter clk st = Inr (Continues st')" "pass_ok st" "0 < Remaining (ms_incoming st)"
  shows "pass_ok st'"
proof -
  from assms(1) obtain lvl e q where x: "q \<noteq> 0" "match_exec clk lvl e q st = Inr (Continues st')" "FrontOrder (ms_book st) (Some lvl) = Some e"
    and mq: "match_qty (ms_incoming st) (ms_funds st) (b_elems (ms_book st) e) (lv_priceCents (b_mem (ms_book st) lvl)) = Inr q"
    by (auto simp: match_iter_def Let_def split: option.splits sum.splits bool.splits if_splits)
  have e: "e \<in> set (lv_orders (b_mem (ms_book st) lvl))" using x(3) by (auto simp: FrontOrder_def split: list.splits)
  have "0 \<le> Remaining (b_elems (ms_book st) e)"
    using assms(2) sane_remaining_nonneg by (auto simp: pass_ok_def priced_def cheap_def)
  from match_qty_cases [OF mq assms(3) this x(1)] have "0 < q \<Longrightarrow> q \<le> Remaining (b_elems (ms_book st) e)" by auto
  then show ?thesis by (rule match_exec_pass [OF x(2) assms(2) e])
qed

lemma match_loop_pass:
  assumes "match_loop clk st = Some (Inr st')" "pass_ok st"
  shows "pass_ok st'"
proof -
  have "pass_ok st \<longrightarrow> (\<forall>st'. r = Inr st' \<longrightarrow> pass_ok st')" if "match_loop clk st = Some r" for r :: "go_panic + MatchState"
  proof (rule match_loop.raw_induct [where P = "\<lambda>clk st r. pass_ok st \<longrightarrow> (\<forall>st'. r = Inr st' \<longrightarrow> pass_ok st')", OF _ that], goal_cases)
    case (1 loop clk st r)
    note step = 1
    show ?case
    proof (cases "0 < Remaining (ms_incoming st)")
      case True
      consider p where "match_iter clk st = Inl p" | st1 where "match_iter clk st = Inr (Broke st1)"
        | st1 where "match_iter clk st = Inr (Continues st1)" by (metis loop_exit.exhaust sum.exhaust)
      then show ?thesis
      proof cases
        case (1 p)
        then have "r = Inl p" using step(2) True by simp
        then show ?thesis by simp
      next
        case (2 st1)
        then have "r = Inr st" using step(2) True match_iter_broke [OF 2] by simp
        then show ?thesis by simp
      next
        case (3 st1)
        then have "loop clk st1 = Some r" using step(2) True by simp
        from step(1) [OF this] show ?thesis using match_iter_pass [OF 3 _ True] by blast
      qed
    next
      case False
      then have "r = Inr st" using step(2) by simp
      then show ?thesis by simp
    qed
  qed
  then show ?thesis using assms by blast
qed

lemma Match_pass:
  assumes "Match clk b ord funds = Some (Inr (res, b', f))" "priced b"
    and "0 < o_Quantity ord \<Longrightarrow> cheap ord" "o_FilledQuantity ord = 0" "in64 (o_Quantity ord)"
  shows "priced b' \<and> (\<forall>tr\<in>set (mr_Trades res). affordable tr)"
proof -
  let ?st = "\<lparr>ms_book = b, ms_incoming = ord, ms_funds = funds, ms_trades = [], ms_makers = [], ms_clock = 0\<rparr>"
  show ?thesis
  proof (cases "0 < o_Quantity ord")
    case False
    then have "Remaining ord \<le> 0" using assms(4,5) by (simp add: Remaining_def i64_sub_id)
    then show ?thesis using assms(1,2) match_loop.simps [of clk ?st] by (auto simp: Match_def match_end_def)
  next
    case True
    then have "pass_ok ?st" using assms(2,3) by (simp add: pass_ok_def)
    moreover from assms(1) obtain st' where l: "match_loop clk ?st = Some (Inr st')" "match_end clk st' = Inr (res, b', f)"
      by (auto simp: Match_def split: option.splits sum.splits)
    ultimately have "pass_ok st'" using match_loop_pass by blast
    then show ?thesis using l(2)
      by (auto simp: match_end_def Let_def pass_ok_def split: if_splits sum.splits intro: priced_AddResting)
  qed
qed

section \<open>Wallets of a batch in range\<close>

definition checked :: "MWorld \<Rightarrow> bool" where
  "checked w \<longleftrightarrow> cache_ok w \<and> (\<forall>r\<in>set (db_wallets (w_db w)). wallet_checks (seen (mw_cache w) r))"

definition in_range :: "MWorld \<Rightarrow> bool" where
  "in_range w \<longleftrightarrow> checked w \<and> holdings brl w \<le> MaxInt64 \<and> holdings vib w \<le> MaxInt64"

lemma cached_row:
  assumes "cache_ok w" "find_row w_UserID u (mw_cache w) = Some c"
  obtains r where "r \<in> set (db_wallets (w_db w))" "w_UserID r = u" "seen (mw_cache w) r = c"
proof -
  have d: "distinct (map w_UserID (mw_cache w))" using assms(1) by (simp add: cache_ok_def)
  have "c \<in> set (mw_cache w)" "w_UserID c = u" using wallets.lookup_law [OF d] assms(2) by auto
  then obtain r where "r \<in> set (db_wallets (w_db w))" "w_UserID r = u" using assms(1) by (auto simp: cache_ok_def)
  then show ?thesis using that assms(2) by (simp add: seen_def)
qed

lemma sum_list_two:
  fixes f :: "'r \<Rightarrow> int"
  assumes "distinct (map key rows)" "\<forall>r\<in>set rows. 0 \<le> f r" "r \<in> set rows" "s \<in> set rows"
  shows "f r \<le> sum_list (map f rows)" "key r \<noteq> key s \<Longrightarrow> f r + f s \<le> sum_list (map f rows)"
proof -
  have sum: "sum_list (map f rows) = sum f (set rows)"
    using assms(1) by (intro sum_list_distinct_conv_sum_set) (simp add: distinct_map)
  have "sum f {r} \<le> sum f (set rows)" using assms by (intro sum_mono2) auto
  then show "f r \<le> sum_list (map f rows)" by (simp add: sum)
  assume "key r \<noteq> key s"
  then have "r \<noteq> s" by auto
  moreover have "sum f {r, s} \<le> sum f (set rows)" using assms by (intro sum_mono2) auto
  ultimately show "f r + f s \<le> sum_list (map f rows)" by (simp add: sum)
qed

text \<open>A cached wallet's share of a total; the free Vibranium of one user and the reserved Vibranium of another, or the same.\<close>

lemma cached_share:
  assumes "checked w" "find_row w_UserID u (mw_cache w) = Some c"
  shows "wallet_checks c" "brl c \<le> holdings brl w" "vib c \<le> holdings vib w" "w_UserID c = u"
    and "find_row w_UserID v (mw_cache w) = Some d \<Longrightarrow> w_BalanceVibranium c + w_ReservedVibranium d \<le> holdings vib w"
proof -
  have ok: "cache_ok w" "\<forall>r\<in>set (db_wallets (w_db w)). wallet_checks (seen (mw_cache w) r)" using assms(1) by (auto simp: checked_def)
  have dist: "distinct (map w_UserID (db_wallets (w_db w)))" using ok(1) by (simp add: cache_ok_def)
  have nn: "\<forall>r\<in>set (db_wallets (w_db w)). 0 \<le> brl (seen (mw_cache w) r)" "\<forall>r\<in>set (db_wallets (w_db w)). 0 \<le> vib (seen (mw_cache w) r)"
    using ok(2) by (auto simp: wallet_checks_def brl_def vib_def)
  obtain r where r: "r \<in> set (db_wallets (w_db w))" "w_UserID r = u" "seen (mw_cache w) r = c" using cached_row [OF ok(1) assms(2)] by blast
  note br = sum_list_two(1) [OF dist nn(1) r(1) r(1)] and vi = sum_list_two(1) [OF dist nn(2) r(1) r(1)]
  show "wallet_checks c" "brl c \<le> holdings brl w" "vib c \<le> holdings vib w" using ok(2) r br vi by (auto simp: holdings_def)
  have "distinct (map w_UserID (mw_cache w))" using ok(1) by (simp add: cache_ok_def)
  then show "w_UserID c = u" using wallets.lookup_law assms(2) by auto
  assume d: "find_row w_UserID v (mw_cache w) = Some d"
  obtain s where s: "s \<in> set (db_wallets (w_db w))" "w_UserID s = v" "seen (mw_cache w) s = d" using cached_row [OF ok(1) d] by blast
  have "wallet_checks c" "wallet_checks d" using ok(2) r s by auto
  moreover have "vib c + vib d \<le> holdings vib w" if "u \<noteq> v"
    using sum_list_two(2) [OF dist nn(2) r(1) s(1)] that r s by (simp add: holdings_def)
  moreover have "c = d" if "u = v" using that assms(2) d by simp
  ultimately show "w_BalanceVibranium c + w_ReservedVibranium d \<le> holdings vib w"
    using vi r(3) by (cases "u = v") (auto simp: wallet_checks_def vib_def holdings_def)
qed

lemma wallet_do_look:
  assumes "wallet_do u op w = (Inr x, w')" "cache_ok w" "\<And>c c'. op c = Inr c' \<Longrightarrow> w_UserID c' = w_UserID c"
  obtains c c' where "find_row w_UserID u (mw_cache w) = Some c" "op c = Inr c'" "cache_ok w'" "mw_book w' = mw_book w" "w_db w' = w_db w"
    "\<And>v. find_row w_UserID v (mw_cache w') = (if v = u then Some c' else find_row w_UserID v (mw_cache w))"
proof -
  from assms(1) obtain c c' where c: "find_row w_UserID u (mw_cache w) = Some c" "op c = Inr c'"
      "w' = w\<lparr>mw_cache := write_rows w_UserID u (\<lambda>_. c') (mw_cache w)\<rparr>"
    by (auto simp: wallet_do_def split: option.splits sum.splits)
  have d: "distinct (map w_UserID (mw_cache w))" using assms(2) by (simp add: cache_ok_def)
  have "w_UserID c = u" "w_UserID c' = u" using c(1,2) wallets.lookup_law [OF d] assms(3) by auto
  then have "find_row w_UserID v (mw_cache w') = (if v = u then Some c' else find_row w_UserID v (mw_cache w))" for v
    using wallets.lookup_modify [OF d, of u "\<lambda>_. c'" v] c(1) by (simp add: c(3))
  moreover have "cache_ok w'" using wallet_do_seen [OF assms] by blast
  ultimately show ?thesis using that c by simp
qed

lemma wallet_do_step:
  assumes "wallet_do u op w = (Inr x, w')" "checked w" "\<And>c c'. op c = Inr c' \<Longrightarrow> w_UserID c' = w_UserID c"
  obtains c c' where "find_row w_UserID u (mw_cache w) = Some c" "op c = Inr c'"
    "\<And>v. find_row w_UserID v (mw_cache w') = (if v = u then Some c' else find_row w_UserID v (mw_cache w))"
    "\<And>f :: Wallet \<Rightarrow> int. holdings f w' = holdings f w - f c + f c'" "wallet_checks c' \<Longrightarrow> checked w'"
    "mw_book w' = mw_book w" "w_db w' = w_db w"
proof -
  have ok: "cache_ok w" using assms(2) by (simp add: checked_def)
  from wallet_do_look [OF assms(1) ok assms(3)] obtain c c' where c: "find_row w_UserID u (mw_cache w) = Some c" "op c = Inr c'"
      "cache_ok w'" "mw_book w' = mw_book w" "w_db w' = w_db w"
      "\<And>v. find_row w_UserID v (mw_cache w') = (if v = u then Some c' else find_row w_UserID v (mw_cache w))" by metis
  have h: "holdings f w' = holdings f w - f c + f c'" for f :: "Wallet \<Rightarrow> int"
    using wallet_do_seen [OF assms(1) ok assms(3), of f] c(1,2) by auto
  have "seen (mw_cache w') r = (if w_UserID r = u then c' else seen (mw_cache w) r)" for r
    by (simp add: seen_def c(6))
  then have "wallet_checks c' \<Longrightarrow> checked w'" using assms(2) c(3,5) by (auto simp: checked_def)
  then show ?thesis using that c h by auto
qed

text \<open>Paying and releasing leave everybody's reserved Vibranium alone.\<close>

lemma wallet_do_reserved:
  assumes "wallet_do u op w = (Inr x, w')" "cache_ok w" "\<And>c c'. op c = Inr c' \<Longrightarrow> w_UserID c' = w_UserID c"
    and "\<And>c c'. op c = Inr c' \<Longrightarrow> w_ReservedVibranium c' = w_ReservedVibranium c"
  shows "cache_ok w' \<and> map_option w_ReservedVibranium (find_row w_UserID v (mw_cache w')) =
    map_option w_ReservedVibranium (find_row w_UserID v (mw_cache w))"
  using wallet_do_look [OF assms(1-3)] assms(4) by (metis option.map(2))

section \<open>Operations without wrap-around\<close>

lemma cost_small: "0 < p \<Longrightarrow> 0 < q \<Longrightarrow> p * q \<le> MaxInt64 \<Longrightarrow> i64_mul p q = p * q"
  for p q :: int by (simp add: i64_mul_small)

lemma pay_exact:
  assumes "op \<in> {SettleBuyLimitFill p q, SettleBuyMarketFill p q}" "op c = Inr c'" "wallet_checks c" "brl c \<le> MaxInt64"
    and "0 < p \<Longrightarrow> 0 < q \<Longrightarrow> p * q \<le> MaxInt64" "w_BalanceVibranium c + q \<le> MaxInt64"
  shows "wallet_checks c' \<and> brl c' = brl c - p * q \<and> vib c' = vib c + q"
proof -
  have pq: "0 < p" "0 < q" using assms(1,2) by (auto simp: wallet_defs split: if_splits)
  then have m: "i64_mul p q = p * q" using assms(5) by (simp add: cost_small)
  have "w_BalanceBRLCents c \<le> MaxInt64" "w_ReservedBRLCents c \<le> MaxInt64" using assms(3,4) by (auto simp: wallet_checks_def brl_def)
  moreover have "0 < p * q" using pq by simp
  ultimately show ?thesis
    using assms(1-3,6) pq m
    by (auto simp: wallet_defs Let_def wallet_checks_def brl_def vib_def i64_sub_small i64_add_small split: if_splits)
qed

lemma release_exact:
  "ReleaseBRLReservation a c = Inr c' \<Longrightarrow> wallet_checks c \<Longrightarrow> brl c \<le> MaxInt64 \<Longrightarrow> wallet_checks c' \<and> brl c' = brl c \<and> vib c' = vib c"
  "ReleaseVibraniumReservation a c = Inr c' \<Longrightarrow> wallet_checks c \<Longrightarrow> vib c \<le> MaxInt64 \<Longrightarrow> wallet_checks c' \<and> brl c' = brl c \<and> vib c' = vib c"
  by (auto simp: wallet_defs wallet_checks_def brl_def vib_def i64_sub_small i64_add_small split: if_splits)

lemma sell_exact:
  assumes "SettleSellFill p q c = Inr c'" "wallet_checks c" "w_ReservedVibranium c \<le> MaxInt64" "brl c + p * q \<le> MaxInt64"
  shows "wallet_checks c' \<and> brl c' = brl c + p * q \<and> vib c' = vib c - q"
proof -
  have pq: "0 < p" "0 < q" "q \<le> w_ReservedVibranium c" using assms(1) by (auto simp: wallet_defs split: if_splits)
  have nn: "0 \<le> w_BalanceBRLCents c" "0 \<le> w_ReservedBRLCents c" "0 < p * q" using assms(2) pq by (auto simp: wallet_checks_def)
  then have m: "i64_mul p q = p * q" using assms(4) pq by (intro cost_small) (auto simp: brl_def)
  show ?thesis
    using assms pq m nn by (auto simp: wallet_defs wallet_checks_def brl_def vib_def i64_sub_small i64_add_small split: if_splits)
qed

lemma reserved_kept:
  "op \<in> {SettleBuyLimitFill p q, SettleBuyMarketFill p q} \<Longrightarrow> op c = Inr c' \<Longrightarrow> w_ReservedVibranium c' = w_ReservedVibranium c"
  "ReleaseBRLReservation a c = Inr c' \<Longrightarrow> w_ReservedVibranium c' = w_ReservedVibranium c"
  by (auto simp: wallet_defs Let_def split: if_splits)

section \<open>Exact actions\<close>

text \<open>An action that, where it succeeds, keeps both totals, the range of every wallet and the prices of the book.\<close>

definition exact :: "('a \<Rightarrow> bool) \<Rightarrow> (MWorld, 'a) action \<Rightarrow> bool" where
  "exact P act \<longleftrightarrow> (\<forall>w x w'. act w = (Inr x, w') \<longrightarrow> in_range w \<longrightarrow> priced (mw_book w) \<longrightarrow>
     in_range w' \<and> priced (mw_book w') \<and> holdings brl w' = holdings brl w \<and> holdings vib w' = holdings vib w \<and> P x)"

abbreviation exact_any :: "(MWorld, 'a) action \<Rightarrow> bool" where
  "exact_any \<equiv> exact (\<lambda>_. True)"

lemma exactI:
  assumes "\<And>w x w'. act w = (Inr x, w') \<Longrightarrow> in_range w \<Longrightarrow> priced (mw_book w) \<Longrightarrow>
     checked w' \<and> priced (mw_book w') \<and> holdings brl w' = holdings brl w \<and> holdings vib w' = holdings vib w \<and> P x"
  shows "exact P act"
  unfolding exact_def in_range_def using assms by (metis in_range_def)

lemma exactD:
  assumes "exact P act" "act w = (Inr x, w')" "in_range w" "priced (mw_book w)"
  shows "in_range w'" "priced (mw_book w')" "holdings brl w' = holdings brl w" "holdings vib w' = holdings vib w" "P x"
  using assms unfolding exact_def by blast+

lemma exact_bind: "exact P m \<Longrightarrow> (\<And>x. P x \<Longrightarrow> exact R (k x)) \<Longrightarrow> exact R (bind_ok m k)"
  unfolding exact_def bind_ok_Inr by metis

lemma exact_branch:
  "(c \<Longrightarrow> exact P m) \<Longrightarrow> (\<not> c \<Longrightarrow> exact P n) \<Longrightarrow> exact P (if c then m else n)"
  "exact P m \<Longrightarrow> (\<And>x. opt = Some x \<Longrightarrow> exact P (k x)) \<Longrightarrow> exact P (case opt of None \<Rightarrow> m | Some x \<Rightarrow> k x)"
  "(\<And>x. exact P (g x)) \<Longrightarrow> (\<And>y. exact P (k y)) \<Longrightarrow> exact P (case sm of Inl x \<Rightarrow> g x | Inr y \<Rightarrow> k y)"
  by (auto split: option.split sum.split)

lemma checked_alt: "checked w \<longleftrightarrow> cache_ok w \<and> holdings (\<lambda>c. if wallet_checks c then 0 else 1 :: int) w = 0"
proof -
  have "holdings (\<lambda>c. if wallet_checks c then 0 else 1 :: int) w = 0 \<longleftrightarrow> (\<forall>r\<in>set (db_wallets (w_db w)). wallet_checks (seen (mw_cache w) r))"
    unfolding holdings_def by (subst sum_list_nonneg_eq_0_iff) (auto split: if_splits simp: ball_Un)
  then show ?thesis by (simp add: checked_def)
qed

lemma exact_simple:
  "P x \<Longrightarrow> exact P (return_ok x)" "exact P (return_err e)" "exact_any (now env)" "exact_any (new_uuid env)"
  by (auto simp: exact_def return_ok_def return_err_def now_def new_uuid_def in_range_def checked_def cache_ok_def holdings_def tick_def)

lemma exact_statement:
  assumes "\<And>n d x d'. h n d = Inr (x, d') \<Longrightarrow> db_wallets d' = db_wallets d"
  shows "exact_any (statement env h)"
proof (rule exactI, goal_cases)
  case (1 w x w')
  then have "db_wallets (w_db w') = db_wallets (w_db w)" "mw_cache w' = mw_cache w" "mw_book w' = mw_book w"
    by (auto simp: statement_Inr tick_def dest: assms)
  with 1 show ?case by (simp add: in_range_def checked_def cache_ok_def holdings_def)
qed

lemma exact_repo:
  "exact_any (OrderRepo_Update env ord)" "exact_any (TradeRepo_Insert env t)" "exact_any (ProcessedRepo_TryMark env i sn)"
  unfolding repo_defs by (auto intro!: exact_statement split: if_splits)

lemma exact_loadWallet: "exact_any (loadWallet menv u)"
proof (rule exactI, goal_cases)
  case (1 w x w')
  then have ok: "cache_ok w" "checked w" by (simp_all add: in_range_def checked_def)
  have "mw_book w' = mw_book w"
    using 1(1) by (auto simp: loadWallet_def bind_ok_Inr WalletRepo_GetForUpdate_def statement_Inr tick_def split: option.splits)
  moreover have "cache_ok w' \<and> holdings f w' = holdings f w" for f :: "Wallet \<Rightarrow> int" using loadWallet_seen [OF 1(1) ok(1), of f] by simp
  ultimately show ?case using 1(3) ok(2) by (auto simp: checked_alt)
qed

lemma exact_for_each: "(\<And>x. x \<in> set xs \<Longrightarrow> exact_any (f x)) \<Longrightarrow> exact_any (for_each f xs)"
  by (induction xs) (auto intro!: exact_simple exact_bind)

lemma exact_release:
  "exact_any (wallet_do u (ReleaseBRLReservation a))" "exact_any (wallet_do u (ReleaseVibraniumReservation a))"
proof -
  have *: "exact_any (wallet_do u op)"
    if op: "\<And>c c'. op c = Inr c' \<Longrightarrow> w_UserID c' = w_UserID c"
      "\<And>c c'. op c = Inr c' \<Longrightarrow> wallet_checks c \<Longrightarrow> brl c \<le> MaxInt64 \<Longrightarrow> vib c \<le> MaxInt64 \<Longrightarrow> wallet_checks c' \<and> brl c' = brl c \<and> vib c' = vib c" for op
  proof (rule exactI, goal_cases)
    case (1 w x w')
    then have ok: "checked w" "holdings brl w \<le> MaxInt64" "holdings vib w \<le> MaxInt64" by (simp_all add: in_range_def)
    from wallet_do_step [OF 1(1) ok(1) op(1)] obtain c c' where c: "find_row w_UserID u (mw_cache w) = Some c" "op c = Inr c'"
        "\<And>f :: Wallet \<Rightarrow> int. holdings f w' = holdings f w - f c + f c'" "wallet_checks c' \<Longrightarrow> checked w'" "mw_book w' = mw_book w" by metis
    from op(2) [OF c(2)] cached_share [OF ok(1) c(1)] ok(2,3) have "wallet_checks c' \<and> brl c' = brl c \<and> vib c' = vib c" by auto
    then show ?case using c(3-5) 1(3) by simp
  qed
  show "exact_any (wallet_do u (ReleaseBRLReservation a))" "exact_any (wallet_do u (ReleaseVibraniumReservation a))"
    by (rule *; simp add: wallet_ops_owner release_exact)+
qed

section \<open>Settlement\<close>

definition pay :: "Order \<Rightarrow> MTrade \<Rightarrow> (MWorld, unit) action" where
  "pay ord tr =
     (if o_Side ord = SideBuy \<and> o_Type ord = TypeMarket
      then wallet_do (mt_BuyerUserID tr) (SettleBuyMarketFill (mt_PriceCents tr) (mt_Quantity tr))
      else bind_ok (wallet_do (mt_BuyerUserID tr) (SettleBuyLimitFill (mt_PriceCents tr) (mt_Quantity tr)))
             (\<lambda>_. release_improvement ord tr))"

lemma pay_cases:
  assumes "pay ord tr w = (Inr x, w')"
  obtains op w1 where "op \<in> {SettleBuyLimitFill (mt_PriceCents tr) (mt_Quantity tr), SettleBuyMarketFill (mt_PriceCents tr) (mt_Quantity tr)}"
    "wallet_do (mt_BuyerUserID tr) op w = (Inr (), w1)"
    "w' = w1 \<or> (\<exists>a. wallet_do (mt_BuyerUserID tr) (ReleaseBRLReservation a) w1 = (Inr (), w'))"
  using assms
  by (auto simp: pay_def bind_ok_Inr release_improvement_def Let_def return_ok_def return_err_def split: if_splits option.splits)

lemma pay_reserved:
  assumes "pay ord tr w = (Inr x, w')" "cache_ok w"
  shows "map_option w_ReservedVibranium (find_row w_UserID v (mw_cache w')) = map_option w_ReservedVibranium (find_row w_UserID v (mw_cache w))"
proof -
  let ?u = "mt_BuyerUserID tr"
  from assms(1) obtain op w1 where op: "op \<in> {SettleBuyLimitFill (mt_PriceCents tr) (mt_Quantity tr), SettleBuyMarketFill (mt_PriceCents tr) (mt_Quantity tr)}"
    and w1: "wallet_do ?u op w = (Inr (), w1)" and w': "w' = w1 \<or> (\<exists>a. wallet_do ?u (ReleaseBRLReservation a) w1 = (Inr (), w'))" by (rule pay_cases)
  have owner: "op c = Inr c' \<Longrightarrow> w_UserID c' = w_UserID c" for c c' using op wallet_ops_owner by auto
  note k1 = wallet_do_reserved [OF w1 assms(2) owner reserved_kept(1) [OF op], where v = v]
  show ?thesis using w'
  proof
    assume "\<exists>a. wallet_do ?u (ReleaseBRLReservation a) w1 = (Inr (), w')"
    then obtain a where "wallet_do ?u (ReleaseBRLReservation a) w1 = (Inr (), w')" by blast
    from wallet_do_reserved [OF this _ wallet_ops_owner(3) [of a] reserved_kept(2) [of a], where v = v] k1 show ?thesis by simp
  qed (use k1 in simp)
qed

text \<open>
  Buyer and seller together. That the seller had the quantity reserved is known only from the success of the last step,
  and is what keeps the buyer's credit in range before.
\<close>

lemma pay_and_sell:
  assumes range: "in_range w" and a: "affordable tr"
    and p: "pay ord tr w = (Inr x, w2)"
    and s: "wallet_do (mt_SellerUserID tr) (SettleSellFill (mt_PriceCents tr) (mt_Quantity tr)) w2 = (Inr y, w3)"
  shows "checked w3 \<and> holdings brl w3 = holdings brl w \<and> holdings vib w3 = holdings vib w \<and> mw_book w3 = mw_book w"
proof -
  let ?p = "mt_PriceCents tr" and ?q = "mt_Quantity tr" and ?u = "mt_BuyerUserID tr" and ?v = "mt_SellerUserID tr"
  have ok: "checked w" "holdings brl w \<le> MaxInt64" "holdings vib w \<le> MaxInt64" using range by (simp_all add: in_range_def)
  from p obtain op w1 where op: "op \<in> {SettleBuyLimitFill ?p ?q, SettleBuyMarketFill ?p ?q}" and w1: "wallet_do ?u op w = (Inr (), w1)"
    and w2: "w2 = w1 \<or> (\<exists>a. wallet_do ?u (ReleaseBRLReservation a) w1 = (Inr (), w2))" by (rule pay_cases)
  have owner: "op c = Inr c' \<Longrightarrow> w_UserID c' = w_UserID c" for c c' using op wallet_ops_owner by auto
  from wallet_do_step [OF w1 ok(1) owner] obtain c c' where c: "find_row w_UserID ?u (mw_cache w) = Some c" "op c = Inr c'"
      "\<And>v. find_row w_UserID v (mw_cache w1) = (if v = ?u then Some c' else find_row w_UserID v (mw_cache w))"
      "\<And>f :: Wallet \<Rightarrow> int. holdings f w1 = holdings f w - f c + f c'" "wallet_checks c' \<Longrightarrow> checked w1" "mw_book w1 = mw_book w" by metis
  have pq: "0 < ?p" "0 < ?q" using op c(2) by (auto simp: wallet_defs split: if_splits)
  have "cache_ok w" using ok(1) by (simp add: checked_def)
  note kept = pay_reserved [OF p this, of ?v]
  have reserve: "\<exists>d. find_row w_UserID ?v (mw_cache w) = Some d \<and> ?q \<le> w_ReservedVibranium d"
    and bounded: "\<And>e. find_row w_UserID ?v (mw_cache w2) = Some e \<Longrightarrow> w_ReservedVibranium e \<le> MaxInt64"
  proof -
    from s obtain e where e: "find_row w_UserID ?v (mw_cache w2) = Some e" "?q \<le> w_ReservedVibranium e"
      by (auto simp: wallet_do_def SettleSellFill_def split: option.splits sum.splits if_splits)
    then obtain d where d: "find_row w_UserID ?v (mw_cache w) = Some d" "w_ReservedVibranium d = w_ReservedVibranium e"
      using kept by (auto simp: map_option_case split: option.splits)
    then show "\<exists>d. find_row w_UserID ?v (mw_cache w) = Some d \<and> ?q \<le> w_ReservedVibranium d" using e(2) by auto
    have "w_ReservedVibranium d \<le> MaxInt64" using cached_share(1,3) [OF ok(1) d(1)] ok(3) by (auto simp: wallet_checks_def vib_def)
    then show "w_ReservedVibranium e' \<le> MaxInt64" if "find_row w_UserID ?v (mw_cache w2) = Some e'" for e' using that e(1) d(2) by simp
  qed
  have "w_BalanceVibranium c + ?q \<le> MaxInt64" using reserve cached_share(5) [OF ok(1) c(1)] ok(3) by force
  moreover have "?p * ?q \<le> MaxInt64" using a pq by (simp add: affordable_def)
  ultimately have c': "wallet_checks c' \<and> brl c' = brl c - ?p * ?q \<and> vib c' = vib c + ?q"
    using pay_exact [OF op c(2)] cached_share(1,2) [OF ok(1) c(1)] ok(2) by auto
  then have 1: "checked w1" "holdings brl w1 = holdings brl w - ?p * ?q" "holdings vib w1 = holdings vib w + ?q" using c(4,5) by auto
  have "checked w2 \<and> holdings brl w2 = holdings brl w1 \<and> holdings vib w2 = holdings vib w1 \<and> mw_book w2 = mw_book w1"
    using w2
  proof
    assume "\<exists>a. wallet_do ?u (ReleaseBRLReservation a) w1 = (Inr (), w2)"
    then obtain a where r: "wallet_do ?u (ReleaseBRLReservation a) w1 = (Inr (), w2)" by blast
    from wallet_do_step [OF r 1(1) wallet_ops_owner(3) [of a]] obtain d d' where d: "find_row w_UserID ?u (mw_cache w1) = Some d" "ReleaseBRLReservation a d = Inr d'"
        "\<And>f :: Wallet \<Rightarrow> int. holdings f w2 = holdings f w1 - f d + f d'" "wallet_checks d' \<Longrightarrow> checked w2" "mw_book w2 = mw_book w1" by metis
    have "0 < ?p * ?q" using pq by simp
    then have "brl d \<le> MaxInt64" using cached_share(2) [OF 1(1) d(1)] 1(2) ok(2) by linarith
    then show ?thesis using release_exact(1) [OF d(2) cached_share(1) [OF 1(1) d(1)]] d(3-5) by simp
  qed (use 1(1) in simp)
  then have 2: "checked w2" "holdings brl w2 = holdings brl w - ?p * ?q" "holdings vib w2 = holdings vib w + ?q" "mw_book w2 = mw_book w" using 1 c(6) by auto
  from wallet_do_step [OF s 2(1) wallet_ops_owner(7) [of ?p ?q]] obtain e e' where e: "find_row w_UserID ?v (mw_cache w2) = Some e" "SettleSellFill ?p ?q e = Inr e'"
      "\<And>f :: Wallet \<Rightarrow> int. holdings f w3 = holdings f w2 - f e + f e'" "wallet_checks e' \<Longrightarrow> checked w3" "mw_book w3 = mw_book w2" by metis
  have "w_ReservedVibranium e \<le> MaxInt64" using bounded e(1) by blast
  moreover have "brl e + ?p * ?q \<le> MaxInt64" using cached_share(2) [OF 2(1) e(1)] 2(2) ok(2) by linarith
  ultimately have "wallet_checks e' \<and> brl e' = brl e + ?p * ?q \<and> vib e' = vib e - ?q"
    using sell_exact [OF e(2) cached_share(1) [OF 2(1) e(1)]] by blast
  then show ?thesis using e(3-5) 2 by simp
qed

lemma exact_settle:
  assumes "affordable tr"
  shows "exact_any (settle_trade menv ord tr)"
proof -
  let ?sell = "wallet_do (mt_SellerUserID tr) (SettleSellFill (mt_PriceCents tr) (mt_Quantity tr))"
  have core: "exact_any (bind_ok (pay ord tr) (\<lambda>_. bind_ok ?sell (\<lambda>_. rest)))" if rest: "exact_any rest" for rest :: "(MWorld, unit) action"
    unfolding exact_def
  proof (intro allI impI)
    fix w x w'
    assume b: "bind_ok (pay ord tr) (\<lambda>_. bind_ok ?sell (\<lambda>_. rest)) w = (Inr x, w')" and r: "in_range w" "priced (mw_book w)"
    from b obtain u v w2 w3 where st: "pay ord tr w = (Inr u, w2)" "?sell w2 = (Inr v, w3)" "rest w3 = (Inr x, w')" by (auto simp: bind_ok_Inr)
    note ps = pay_and_sell [OF r(1) assms st(1,2)]
    then have "in_range w3" "priced (mw_book w3)" using r by (auto simp: in_range_def)
    with rest st(3) ps show "in_range w' \<and> priced (mw_book w') \<and> holdings brl w' = holdings brl w \<and> holdings vib w' = holdings vib w \<and> True"
      unfolding exact_def by metis
  qed
  show ?thesis
    unfolding settle_trade_def pay_def [symmetric]
    by (rule exact_bind [OF exact_loadWallet], rule exact_bind [OF exact_loadWallet], rule core,
        rule exact_bind [OF exact_simple(4)], rule exact_bind [OF exact_simple(3)], intro exact_branch exact_simple exact_repo)
qed

section \<open>Entries and batches\<close>

text \<open>What the API guarantees of the events it queues: the tags of \<open>PlaceOrderRequest\<close> bound price and quantity.\<close>

definition event_cheap :: "StreamEvent \<Rightarrow> bool" where
  "event_cheap ev \<longleftrightarrow> (ev_Type ev = EventTypeNewOrder \<longrightarrow> in64 (ev_Quantity ev) \<and>
     (0 < ev_Quantity ev \<longrightarrow> (\<forall>p. ev_PriceCents ev = Some p \<longrightarrow> 0 < p \<longrightarrow> p * ev_Quantity ev \<le> MaxInt64)))"

definition events_cheap :: "MEnv \<Rightarrow> bool" where
  "events_cheap menv \<longleftrightarrow> (\<forall>s ev. e_unmarshal (me_env menv) s = Some ev \<longrightarrow> event_cheap ev)"

text \<open>The event of a message, and a batch of which every event is cheap.\<close>

definition message_event :: "MEnv \<Rightarrow> XMessage \<Rightarrow> StreamEvent option" where
  "message_event menv m = e_unmarshal (me_env menv) (case xm_Payload m of None \<Rightarrow> [] | Some raw \<Rightarrow> raw)"

definition batch_cheap :: "MEnv \<Rightarrow> XMessage list \<Rightarrow> bool" where
  "batch_cheap menv msgs \<longleftrightarrow> (\<forall>m\<in>set msgs. \<forall>ev. message_event menv m = Some ev \<longrightarrow> event_cheap ev)"

lemma events_batch_cheap: "events_cheap menv \<Longrightarrow> batch_cheap menv msgs"
  by (simp add: events_cheap_def batch_cheap_def message_event_def)

lemma exact_run_match:
  assumes "0 < o_Quantity ord \<Longrightarrow> cheap ord" "o_FilledQuantity ord = 0" "in64 (o_Quantity ord)"
  shows "exact (\<lambda>res. \<forall>tr\<in>set (mr_Trades res). affordable tr) (run_match menv ord funds)"
proof (rule exactI, goal_cases)
  case (1 w x w')
  then obtain b f where m: "Match (\<lambda>n. e_clock (me_env menv) (w_step w + n)) (mw_book w) ord funds = Some (Inr (x, b, f))"
      and w': "mw_book w' = b" "w_db w' = w_db w" "mw_cache w' = mw_cache w"
    by (auto simp: run_match_def split: option.splits sum.splits prod.splits)
  from Match_pass [OF m 1(3) assms] w' 1(2) show ?case by (simp add: in_range_def checked_def cache_ok_def holdings_def)
qed

lemma exact_book_cancel: "exact_any (book_cancel i)"
proof (rule exactI, goal_cases)
  case (1 w x w')
  then obtain b where b: "CancelResting i (mw_book w) = Inr (x, b)" "w' = w\<lparr>mw_book := b\<rparr>"
    by (auto simp: book_cancel_def split: sum.splits prod.splits)
  then have "priced b" using 1(3) by (auto simp: CancelResting_def split: option.splits sum.splits intro: priced_removeFront)
  then show ?case using 1(2) b(2) by (simp add: in_range_def checked_def cache_ok_def holdings_def)
qed

lemma exact_entry:
  assumes "event_cheap ev"
  shows "exact_any (applyEntry menv ev)"
proof (cases "ev_Type ev")
  case EventTypeNewOrder
  then have f: "0 < o_Quantity (order_of_event ev t) \<Longrightarrow> cheap (order_of_event ev t)" "o_FilledQuantity (order_of_event ev t) = 0"
      "in64 (o_Quantity (order_of_event ev t))" for t
    using assms by (auto simp: event_cheap_def cheap_def sane_def order_of_event_def in64_def)
  have "exact_any (applyNewOrder menv ev)"
    unfolding applyNewOrder_def available_funds_def release_remainder_def
    by (intro exact_bind [OF exact_simple(3)] exact_bind [OF exact_run_match [OF f]] exact_bind [OF exact_for_each [OF exact_settle]]
        exact_bind [OF exact_for_each [OF exact_repo(1)]] exact_bind [where P = "\<lambda>_. True"] exact_branch exact_simple exact_loadWallet exact_release
        exact_repo TrueI) auto
  then show ?thesis using EventTypeNewOrder by (simp add: applyEntry_def)
next
  case EventTypeCancelOrder
  have "exact_any (applyCancel menv ev)"
    unfolding applyCancel_def release_cancelled_def
    by (intro exact_bind [OF exact_book_cancel] exact_bind [OF exact_simple(3)] exact_bind [OF exact_loadWallet] exact_bind [where P = "\<lambda>_. True"]
        exact_branch exact_simple exact_release exact_repo TrueI)
  then show ?thesis using EventTypeCancelOrder by (simp add: applyEntry_def)
next
  case (EventTypeRaw x)
  then show ?thesis by (simp add: applyEntry_def exact_simple)
qed

lemma exact_messages:
  assumes "batch_cheap menv msgs"
  shows "exact_any (for_each (apply_message menv) msgs)"
proof (rule exact_for_each)
  fix m assume "m \<in> set msgs"
  then have "exact_any (applyEntry menv ev)" if "message_event menv m = Some ev" for ev
    using assms that by (auto simp: batch_cheap_def intro: exact_entry)
  then show "exact_any (apply_message menv m)"
    unfolding apply_message_def message_event_def [symmetric] by (intro exact_bind [OF exact_repo(3)] exact_branch exact_simple TrueI) auto
qed

lemma flush_book: "for_each (WalletRepo_Update env) cs w = (Inr x, w') \<Longrightarrow> mw_book w' = mw_book w"
  by (induction cs arbitrary: w) (fastforce simp: return_ok_def bind_ok_Inr WalletRepo_Update_def statement_Inr tick_def split: if_splits)+

lemma batch_exact:
  assumes "batch_body menv msgs w = (Inr x, w')" "db_ok (w_db w)" "batch_cheap menv msgs" "priced (mw_book w)"
    and "wallet_total brl (w_db w) \<le> MaxInt64" "wallet_total vib (w_db w) \<le> MaxInt64"
  shows "wallet_total brl (w_db w') = wallet_total brl (w_db w) \<and> wallet_total vib (w_db w') = wallet_total vib (w_db w) \<and> priced (mw_book w')"
proof -
  from assms(1) obtain w1 where 1: "for_each (apply_message menv) msgs (w\<lparr>mw_cache := []\<rparr>) = (Inr (), w1)"
    and 2: "for_each (WalletRepo_Update (me_env menv)) (mw_cache w1) w1 = (Inr (), w')"
    by (auto simp: batch_body_def bind_ok_Inr flush_wallets_def)
  have h: "holdings f (w\<lparr>mw_cache := []\<rparr>) = wallet_total f (w_db w)" for f by (simp add: holdings_def seen_def find_row_def wallet_total_def)
  have "checked (w\<lparr>mw_cache := []\<rparr>)" using assms(2) by (simp add: checked_def cache_ok_def db_ok_def seen_def find_row_def)
  then have "in_range (w\<lparr>mw_cache := []\<rparr>)" using assms(5,6) h by (simp add: in_range_def)
  then have r1: "in_range w1" "priced (mw_book w1)" "holdings brl w1 = wallet_total brl (w_db w)" "holdings vib w1 = wallet_total vib (w_db w)"
    using exactD [OF exact_messages [OF assms(3)] 1] assms(4) h by simp_all
  have "distinct (map w_UserID (mw_cache w1))" using r1(1) by (simp add: in_range_def checked_def cache_ok_def)
  then have "wallet_total f (w_db w') = holdings f w1" for f using flush_rows [OF 2] by (simp add: wallet_total_def holdings_def comp_def)
  then show ?thesis using r1 flush_book [OF 2] by simp
qed

lemma applyBatch_exact:
  assumes "applyBatch menv msgs w = (r, w')" "db_ok (w_db w)" "batch_cheap menv msgs" "priced (mw_book w)"
    and "wallet_total brl (w_db w) \<le> MaxInt64" "wallet_total vib (w_db w) \<le> MaxInt64"
  shows "wallet_total brl (w_db w') = wallet_total brl (w_db w) \<and> wallet_total vib (w_db w') = wallet_total vib (w_db w) \<and>
    (r = Inr () \<longrightarrow> priced (mw_book w'))"
proof -
  have rb: "wallet_total f (w_db w') = wallet_total f (w_db w)" if "same_tables (w_db w) (w_db w')" for f
  proof -
    have "db_wallets (w_db w') = db_wallets (w_db w)"
      using that unfolding same_tables_def by (metis (no_types, lifting) DB.select_convs(2) DB.surjective DB.update_convs(7))
    then show ?thesis by (simp add: wallet_total_def)
  qed
  have body: "wallet_total brl (w_db w1) = wallet_total brl (w_db w) \<and> wallet_total vib (w_db w1) = wallet_total vib (w_db w) \<and> priced (mw_book w1)"
    if "batch_body menv msgs (tick w) = (Inr x, w1)" for x w1
    using batch_exact [OF that] assms by (simp add: tick_def)
  show ?thesis
  proof (cases r)
    case (Inl e)
    with in_tx_error [of "me_env menv" "batch_body menv msgs" w e w'] assms(1)
    consider "same_tables (w_db w) (w_db w')" | y w1 where "batch_body menv msgs (tick w) = (Inr (Commits y), w1)" "w' = tick w1"
      unfolding applyBatch_def by blast
    then show ?thesis using rb body Inl by cases auto
  next
    case (Inr y)
    with in_tx_ok [of "me_env menv" "batch_body menv msgs" w y w'] assms(1)
    consider w1 where "batch_body menv msgs (tick w) = (Inr (Commits y), w1)" "w' = tick w1"
      | w1 where "batch_body menv msgs (tick w) = (Inr (Leaves y), w1)" "w' = rolled_back (w_db w) w1"
      unfolding applyBatch_def by blast
    then show ?thesis
    proof cases
      case 1
      then show ?thesis using body [OF 1(1)] by (simp add: tick_def)
    next
      case 2
      then show ?thesis using body [OF 2(1)] by (simp add: rolled_back_def wallet_total_def)
    qed
  qed
qed

section \<open>The property\<close>



end
