(* ===== verification/Book_Sides.thy ===== *)
theory Book_Sides
  imports Matcher_Exact
begin

text \<open>
  The two sides of the book stay apart: BUY orders wait on the levels of the bids, all others on those of the asks.
  Nothing else is asked of the book, so this holds on books that diverged from the tables as well.
\<close>

section \<open>The levels of a heap\<close>

text \<open>The routines swap within the bounds only, so a set of levels stays one.\<close>

lemma heap_up_within:
  "(\<And>s i j. P s \<Longrightarrow> i < N \<Longrightarrow> j < N \<Longrightarrow> P (swapF s i j)) \<Longrightarrow> P h \<Longrightarrow> j < N \<Longrightarrow> P (heap_up lessF swapF h j)"
  by (induction lessF swapF h j rule: heap_up.induct) (subst heap_up.simps, auto simp: Let_def)

lemma heap_down_within:
  "(\<And>s i j. P s \<Longrightarrow> i < N \<Longrightarrow> j < N \<Longrightarrow> P (swapF s i j)) \<Longrightarrow> P h \<Longrightarrow> i < N \<Longrightarrow> n \<le> N \<Longrightarrow> P (fst (heap_down lessF swapF h i n))"
  by (induction lessF swapF h i n rule: heap_down.induct) (subst heap_down.simps, auto simp: Let_def)

definition levels_within :: "nat \<Rightarrow> addr set \<Rightarrow> mem \<times> levelHeap \<Rightarrow> bool" where
  "levels_within n L s \<longleftrightarrow> length (lh_levels (snd s)) = n \<and> set (lh_levels (snd s)) \<subseteq> L"

lemma levels_within_swap: "levels_within n L s \<Longrightarrow> i < n \<Longrightarrow> j < n \<Longrightarrow> levels_within n L (lh_Swap s i j)"
  unfolding levels_within_def lh_Swap_def Let_def
  by (auto dest!: set_update_subset_insert [THEN subsetD])

lemma push_levels: "set (lh_levels (snd (heap_Push lh_Len lh_Less lh_Swap lh_Push a (m, h)))) \<subseteq> insert a (set (lh_levels h))"
proof -
  let ?n = "Suc (length (lh_levels h))" and ?L = "insert a (set (lh_levels h))"
  have "levels_within ?n ?L (lh_Push a (m, h))" by (auto simp: levels_within_def lh_Push_def)
  from heap_up_within [where N = ?n and P = "levels_within ?n ?L" and swapF = lh_Swap and lessF = lh_Less, OF levels_within_swap this]
  have "levels_within ?n ?L (heap_up lh_Less lh_Swap (lh_Push a (m, h)) (length (lh_levels h)))" by simp
  then show ?thesis by (simp add: heap_Push_def levels_within_def lh_Len_def lh_Push_def)
qed

lemma remove_levels:
  assumes "heap_Remove lh_Len lh_Less lh_Swap lh_Pop (m, h) i = Inr s"
  shows "set (lh_levels (snd s)) \<subseteq> set (lh_levels h)"
proof -
  let ?N = "length (lh_levels h)" and ?L = "set (lh_levels h)"
  let ?P = "levels_within ?N ?L"
  note swap = levels_within_swap [where n = ?N and L = ?L]
  have pop: "?P t \<Longrightarrow> set (lh_levels (snd (lh_Pop t))) \<subseteq> ?L" for t
    by (auto simp: levels_within_def lh_Pop_def dest: in_set_butlastD)
  have i: "i < ?N" using assms by (auto simp: heap_Remove_def lh_Len_def split: if_splits)
  have start: "?P (m, h)" by (simp add: levels_within_def)
  show ?thesis
  proof (cases "i = ?N - 1")
    case True
    then show ?thesis using assms i pop [OF start] by (auto simp: heap_Remove_def lh_Len_def)
  next
    case False
    obtain h' k where d: "heap_down lh_Less lh_Swap (lh_Swap (m, h) i (?N - 1)) i (?N - 1) = (h', k)" by fastforce
    have "?P (lh_Swap (m, h) i (?N - 1))" using swap [OF start i] i by simp
    from heap_down_within [where P = ?P and N = ?N and n = "?N - 1" and lessF = lh_Less and swapF = lh_Swap, OF swap this i] have h': "?P h'" using d by simp
    have "?P (heap_up lh_Less lh_Swap h' i)" by (rule heap_up_within [where N = ?N and P = ?P, OF swap h' i])
    moreover have "s = lh_Pop (if k > i then h' else heap_up lh_Less lh_Swap h' i)"
      using assms i False d by (simp add: heap_Remove_def lh_Len_def)
    ultimately show ?thesis using h' pop by (cases "k > i") simp_all
  qed
qed

section \<open>The sides\<close>

definition side_levels :: "Book \<Rightarrow> Side \<Rightarrow> addr set" where
  "side_levels b side = set (lh_levels (fst (heapAndIndex b side))) \<union> ran (snd (heapAndIndex b side))"

definition sided :: "Book \<Rightarrow> bool" where
  "sided b \<longleftrightarrow> side_levels b SideBuy \<inter> side_levels b SideSell = {} \<and>
     (\<forall>a\<in>side_levels b SideBuy. a < b_nextLevel b \<and> (\<forall>e\<in>set (lv_orders (b_mem b a)). o_Side (b_elems b e) = SideBuy)) \<and>
     (\<forall>a\<in>side_levels b SideSell. a < b_nextLevel b \<and> (\<forall>e\<in>set (lv_orders (b_mem b a)). o_Side (b_elems b e) \<noteq> SideBuy))"

lemma sided_new: "sided NewBook"
  by (simp add: sided_def side_levels_def heapAndIndex_def NewBook_def)

lemma sided_put: "sided b \<Longrightarrow> o_Side ord = o_Side (b_elems b e) \<Longrightarrow> sided (put_order e ord b)"
  by (simp add: sided_def side_levels_def heapAndIndex_def put_order_def)

text \<open>Levels and queues may shrink.\<close>

lemma sided_shrink:
  assumes "sided b" "side_levels b' SideBuy \<subseteq> side_levels b SideBuy" "side_levels b' SideSell \<subseteq> side_levels b SideSell"
    and "\<forall>a. set (lv_orders (b_mem b' a)) \<subseteq> set (lv_orders (b_mem b a))" "b_elems b' = b_elems b" "b_nextLevel b \<le> b_nextLevel b'"
  shows "sided b'"
proof -
  have "side_levels b' SideBuy \<inter> side_levels b' SideSell = {}" using assms(1-3) unfolding sided_def by blast
  moreover have "a < b_nextLevel b' \<and> (\<forall>e\<in>set (lv_orders (b_mem b' a)). o_Side (b_elems b' e) = SideBuy)" if "a \<in> side_levels b' SideBuy" for a
    using assms(1,2,4-6) that unfolding sided_def by (metis order_less_le_trans subsetD)
  moreover have "a < b_nextLevel b' \<and> (\<forall>e\<in>set (lv_orders (b_mem b' a)). o_Side (b_elems b' e) \<noteq> SideBuy)" if "a \<in> side_levels b' SideSell" for a
    using assms(1,3-6) that unfolding sided_def by (metis order_less_le_trans subsetD)
  ultimately show ?thesis by (simp add: sided_def)
qed

lemma levels_put:
  "side_levels (put_heapAndIndex side s idx b) side' =
     (if (side = SideBuy) = (side' = SideBuy) then set (lh_levels (snd s)) \<union> ran idx else side_levels b side')"
  by (simp add: side_levels_def heapAndIndex_def put_heapAndIndex_def)

lemma sided_removeFront:
  assumes "removeFront ord side lvl b = Inr b'" "sided b"
  shows "sided b'"
proof (cases "b_locations b (o_ID ord)")
  case None
  with assms show ?thesis by (simp add: removeFront_def)
next
  case (Some loc)
  define b1 where "b1 = b\<lparr>b_mem := (b_mem b)(lvl := (b_mem b lvl)\<lparr>lv_orders := remove1 (loc_elem loc) (lv_orders (b_mem b lvl))\<rparr>),
     b_locations := (b_locations b)(o_ID ord := None)\<rparr>"
  have "side_levels b1 s = side_levels b s" for s by (simp add: side_levels_def heapAndIndex_def b1_def)
  then have b1: "sided b1" by (intro sided_shrink [OF assms(2)]) (auto simp: b1_def dest: set_remove1_subset [THEN subsetD])
  have "removeFront ord side lvl b = (if lv_orders (b_mem b1 lvl) = [] then
      (case heap_Remove lh_Len lh_Less lh_Swap lh_Pop (b_mem b1, fst (heapAndIndex b1 side)) (lv_index (b_mem b1 lvl)) of
         Inl p \<Rightarrow> Inl p
       | Inr mh \<Rightarrow> Inr (put_heapAndIndex side mh ((snd (heapAndIndex b1 side))(lv_priceCents (b_mem b1 lvl) := None)) b1))
    else Inr b1)"
    unfolding removeFront_def Some option.case Let_def b1_def [symmetric] case_prod_unfold by (rule refl)
  then consider "b' = b1" | mh p where "heap_Remove lh_Len lh_Less lh_Swap lh_Pop (b_mem b1, fst (heapAndIndex b1 side)) (lv_index (b_mem b1 lvl)) = Inr mh"
      "b' = put_heapAndIndex side mh ((snd (heapAndIndex b1 side))(p := None)) b1"
    using assms(1) by (simp split: if_splits sum.splits)
  then show ?thesis
  proof cases
    case (2 mh p)
    have l: "set (lh_levels (snd mh)) \<union> ran ((snd (heapAndIndex b1 side))(p := None)) \<subseteq> side_levels b1 side"
      using remove_levels [OF 2(1)] by (auto simp: side_levels_def ran_def)
    have same: "side_levels b1 s = side_levels b1 side" if "(side = SideBuy) = (s = SideBuy)" for s
      using that by (simp add: side_levels_def heapAndIndex_def)
    have q: "lv_orders (fst mh a) = lv_orders (b_mem b1 a)" for a
      using same_queues_heap(2) [OF 2(1)] by (simp add: same_queues_def)
    have "side_levels b' s \<subseteq> side_levels b1 s" for s
      using l same [of s] by (auto simp: 2(2) levels_put)
    moreover have "\<forall>a. set (lv_orders (b_mem b' a)) \<subseteq> set (lv_orders (b_mem b1 a))" "b_elems b' = b_elems b1" "b_nextLevel b1 \<le> b_nextLevel b'"
      by (simp_all add: 2(2) put_heapAndIndex_def q)
    ultimately show ?thesis using sided_shrink [OF b1] by blast
  qed (simp add: b1)
qed

text \<open>A resting order goes to the back of a level of its own side, found or new.\<close>

lemma sided_push_back:
  assumes "sided b" "priced b" "lvl \<in> side_levels b (o_Side ord)"
  shows "sided (push_back lvl ord b)"
proof -
  have e: "e \<noteq> b_nextElem b" if "e \<in> set (lv_orders (b_mem b a))" for a e using assms(2) that by (auto simp: priced_def queue_ok_def)
  have l: "side_levels (push_back lvl ord b) s = side_levels b s" for s by (simp add: side_levels_def heapAndIndex_def push_back_def Let_def)
  have s: "lvl \<in> side_levels b SideBuy \<longleftrightarrow> o_Side ord = SideBuy" "lvl \<in> side_levels b SideSell \<longleftrightarrow> o_Side ord \<noteq> SideBuy"
    using assms(1,3) by (auto simp: sided_def side_levels_def heapAndIndex_def split: if_splits)
  show ?thesis using assms(1) s e unfolding sided_def l by (auto simp: push_back_def Let_def)
qed

lemma sided_AddResting:
  assumes "AddResting ord b = Inr b'" "sided b" "priced b" "cheap ord"
  shows "sided b'"
proof -
  from assms(1) obtain p b1 lvl where l: "level_for (o_Side ord) p b = (b1, lvl)" and b': "b' = push_back lvl ord b1"
    by (auto simp: AddResting_def split: option.splits prod.splits)
  let ?h = "fst (heapAndIndex b (o_Side ord))" and ?idx = "snd (heapAndIndex b (o_Side ord))"
  have "sided b1 \<and> lvl \<in> side_levels b1 (o_Side ord)"
  proof (cases "?idx p")
    case (Some a)
    then have "b1 = b" "lvl = a" using l by (auto simp: level_for_def split: prod.splits)
    then show ?thesis using Some assms(2) by (auto simp: side_levels_def ran_def)
  next
    case None
    define b0 where "b0 = b\<lparr>b_mem := (b_mem b)(b_nextLevel b := \<lparr>lv_priceCents = p, lv_orders = [], lv_index = 0\<rparr>), b_nextLevel := Suc (b_nextLevel b)\<rparr>"
    let ?s = "heap_Push lh_Len lh_Less lh_Swap lh_Push (b_nextLevel b) (b_mem b0, ?h)"
    have eq: "b1 = put_heapAndIndex (o_Side ord) ?s (?idx(p \<mapsto> b_nextLevel b)) b0" "lvl = b_nextLevel b"
      using l None by (auto simp: level_for_def Let_def b0_def put_heapAndIndex_def split: prod.splits)
    have b0: "side_levels b0 s = side_levels b s" for s by (simp add: side_levels_def heapAndIndex_def b0_def)
    have own: "side_levels b1 s \<subseteq> insert (b_nextLevel b) (side_levels b s)" if "(o_Side ord = SideBuy) = (s = SideBuy)" for s
    proof -
      have "side_levels b s = set (lh_levels ?h) \<union> ran ?idx" using that by (simp add: side_levels_def heapAndIndex_def)
      moreover have "ran (?idx(p \<mapsto> b_nextLevel b)) \<subseteq> insert (b_nextLevel b) (ran ?idx)" by (auto simp: ran_def)
      ultimately show ?thesis using push_levels [of "b_nextLevel b" "b_mem b0" ?h] that by (auto simp: eq(1) levels_put)
    qed
    have other: "side_levels b1 s = side_levels b s" if "(o_Side ord = SideBuy) \<noteq> (s = SideBuy)" for s
      using that by (simp add: eq(1) levels_put b0)
    have mem: "lv_orders (b_mem b1 a) = (if a = b_nextLevel b then [] else lv_orders (b_mem b a))" for a
      using same_queues_heap(1) [of "b_mem b0" "b_nextLevel b" ?h] by (simp add: eq(1) same_queues_def b0_def)
    have el: "b_elems b1 = b_elems b" "b_nextLevel b1 = Suc (b_nextLevel b)" by (simp_all add: eq(1) b0_def put_heapAndIndex_def)
    have fresh: "b_nextLevel b \<notin> side_levels b SideBuy" "b_nextLevel b \<notin> side_levels b SideSell" using assms(2) unfolding sided_def by blast+
    have "lvl \<in> side_levels b1 (o_Side ord)" by (auto simp: eq levels_put ran_def)
    moreover have "sided b1"
    proof (cases "o_Side ord = SideBuy")
      case True
      then have "side_levels b1 SideBuy \<subseteq> insert (b_nextLevel b) (side_levels b SideBuy)" "side_levels b1 SideSell = side_levels b SideSell"
        using own [of SideBuy] other [of SideSell] by simp_all
      then show ?thesis using assms(2) fresh unfolding sided_def by (auto simp: mem el less_Suc_eq)
    next
      case False
      then have "side_levels b1 SideSell \<subseteq> insert (b_nextLevel b) (side_levels b SideSell)" "side_levels b1 SideBuy = side_levels b SideBuy"
        using own [of SideSell] other [of SideBuy] by simp_all
      then show ?thesis using assms(2) fresh unfolding sided_def by (auto simp: mem el less_Suc_eq)
    qed
    ultimately show ?thesis by simp
  qed
  moreover have "priced b1" using priced_level_for(1) [OF l assms(3)] .
  ultimately show ?thesis unfolding b' using sided_push_back by blast
qed

text \<open>The best opposite level is one of the other side.\<close>

lemma best_side:
  assumes "sided b" "BestOpposite b side = Some a" "e \<in> set (lv_orders (b_mem b a))"
  shows "(side = SideBuy) \<noteq> (o_Side (b_elems b e) = SideBuy)"
proof -
  have "a \<in> side_levels b (if side = SideBuy then SideSell else SideBuy)"
    using assms(2) by (auto simp: BestOpposite_def lh_peek_def side_levels_def heapAndIndex_def split: list.splits if_splits)
  then show ?thesis using assms(1,3) by (auto simp: sided_def split: if_splits)
qed

end
