(* ===== verification/Matcher_Provenance.thy ===== *)
theory Matcher_Provenance
  imports Book_Sides
begin

text \<open>
  Where the matcher's writes come from. An order on the book was put there by an event or read from an order row, and
  matching changes only how far it is filled. So every order the matcher writes back, and both sides of every
  trade it records, are orders of the \<open>orders\<close> table, whatever the batch, the faults and the state of the book.
\<close>

section \<open>What holds of every order on the book\<close>

text \<open>A LIMIT order's promise: no trade at a worse price.\<close>

definition accepts :: "Order \<Rightarrow> int64 \<Rightarrow> bool" where
  "accepts ord p \<longleftrightarrow> (\<forall>l. o_Type ord = TypeLimit \<longrightarrow> o_PriceCents ord = Some l \<longrightarrow>
     (o_Side ord = SideBuy \<longrightarrow> p \<le> l) \<and> (o_Side ord = SideSell \<longrightarrow> l \<le> p))"

text \<open>A property of orders that filling and cancelling keep.\<close>

locale order_law =
  fixes G :: "Order \<Rightarrow> bool"
  assumes fill_law: "G ord \<Longrightarrow> G (fill_ignoring_error t q ord)"
    and cancel_law: "G ord \<Longrightarrow> G (CancelOrder t ord)"
    and cheap_law: "G ord \<Longrightarrow> cheap ord"
begin

definition stored :: "Book \<Rightarrow> bool" where
  "stored b \<longleftrightarrow> priced b \<and> sided b \<and> (\<forall>e<b_nextElem b. G (b_elems b e)) \<and>
     (\<forall>i loc. b_locations b i = Some loc \<longrightarrow> loc_elem loc < b_nextElem b)"

text \<open>A trade between two such orders, a BUY order and another, at a price one of them named and both accept.\<close>

definition between :: "MTrade \<Rightarrow> bool" where
  "between tr \<longleftrightarrow> (\<exists>x y. G x \<and> G y \<and> o_Side x = SideBuy \<and> o_Side y \<noteq> SideBuy \<and>
     accepts x (mt_PriceCents tr) \<and> accepts y (mt_PriceCents tr) \<and> mt_BuyOrderID tr = o_ID x \<and> mt_BuyerUserID tr = o_UserID x \<and>
     mt_SellOrderID tr = o_ID y \<and> mt_SellerUserID tr = o_UserID y \<and>
     (0 < mt_Quantity tr \<longrightarrow> mt_Quantity tr \<le> o_Quantity x \<and> mt_Quantity tr \<le> o_Quantity y) \<and>
     (o_PriceCents x = Some (mt_PriceCents tr) \<or> o_PriceCents y = Some (mt_PriceCents tr)))"

lemma stored_new: "stored NewBook"
  by (simp add: stored_def priced_new sided_new) (simp add: NewBook_def)

lemma stored_priced: "stored b \<Longrightarrow> priced b"
  by (simp add: stored_def)

lemma stored_put:
  assumes "stored b" "e < b_nextElem b" "G ord" "o_PriceCents ord = o_PriceCents (b_elems b e)" "o_Side ord = o_Side (b_elems b e)"
  shows "stored (put_order e ord b)"
  using assms priced_put [of b ord e] sided_put [of b ord e] cheap_law by (auto simp: stored_def put_order_def)

lemma removeFront_store:
  assumes "removeFront ord side lvl b = Inr b'"
  shows "b_elems b' = b_elems b \<and> b_nextElem b' = b_nextElem b \<and> (\<forall>i loc. b_locations b' i = Some loc \<longrightarrow> b_locations b i = Some loc)"
  using assms
  by (auto simp: removeFront_def Let_def put_heapAndIndex_def split: option.splits if_splits prod.splits sum.splits)

lemma stored_removeFront: "removeFront ord side lvl b = Inr b' \<Longrightarrow> stored b \<Longrightarrow> stored b'"
  using removeFront_store [of ord side lvl b b'] priced_removeFront [of ord side lvl b b']
    sided_removeFront [of ord side lvl b b'] unfolding stored_def by metis

lemma stored_AddResting:
  assumes "AddResting ord b = Inr b'" "stored b" "G ord"
  shows "stored b'"
proof -
  from assms(1) obtain p b1 lvl where l: "level_for (o_Side ord) p b = (b1, lvl)" and b': "b' = push_back lvl ord b1"
    by (auto simp: AddResting_def split: option.splits prod.splits)
  have "b_elems b1 = b_elems b" "b_nextElem b1 = b_nextElem b" "b_locations b1 = b_locations b"
    using l by (auto simp: level_for_def Let_def put_heapAndIndex_def split: prod.splits option.splits)
  moreover have "priced b'" using priced_AddResting [OF assms(1) stored_priced [OF assms(2)] cheap_law [OF assms(3)]] .
  moreover have "sided b'" using sided_AddResting [OF assms(1) _ stored_priced [OF assms(2)] cheap_law [OF assms(3)]] assms(2) by (simp add: stored_def)
  ultimately show ?thesis
    using assms(2,3) unfolding stored_def b' push_back_def Let_def by (auto simp: less_Suc_eq)
qed

lemma stored_Cancel:
  assumes "CancelResting i b = Inr (r, b')" "stored b"
  shows "stored b' \<and> (\<forall>ord. r = Some ord \<longrightarrow> G ord)"
  using assms by (auto simp: CancelResting_def split: option.splits sum.splits dest: stored_removeFront) (simp add: stored_def)

lemma stored_rest_all: "rest_all os b = Inr b' \<Longrightarrow> stored b \<Longrightarrow> \<forall>ord\<in>set os. G ord \<Longrightarrow> stored b'"
  by (induction os arbitrary: b) (auto split: if_splits sum.splits dest: stored_AddResting)

section \<open>Matching\<close>

lemma fill_side: "o_Side (fill_ignoring_error t q ord) = o_Side ord"
  by (simp add: fill_ignoring_error_def Fill_def Let_def)

definition walked :: "MatchState \<Rightarrow> bool" where
  "walked st \<longleftrightarrow> stored (ms_book st) \<and> G (ms_incoming st) \<and> (\<forall>e\<in>set (ms_makers st). e < b_nextElem (ms_book st)) \<and>
     (\<forall>tr\<in>set (ms_trades st). between tr)"

lemma between_make:
  assumes "G inc" "G m" "o_PriceCents m = Some p" "0 < q \<Longrightarrow> q \<le> Remaining inc \<and> q \<le> Remaining m"
    and "(o_Side inc = SideBuy) \<noteq> (o_Side m = SideBuy)" "accepts inc p"
  shows "between (make_trade inc m p q)"
proof -
  have r: "Remaining x \<le> o_Quantity x" if "G x" for x
    using sane_remaining [of "\<lambda>_. MaxInt64" x] cheap_law [OF that] by (simp add: cheap_def sane_def)
  have q: "q \<le> o_Quantity inc \<and> q \<le> o_Quantity m" if "0 < q"
    using assms(4) [OF that] r [OF assms(1)] r [OF assms(2)] by linarith
  have "accepts m p" using assms(3) by (simp add: accepts_def)
  show ?thesis
  proof (cases "o_Side inc = SideBuy")
    case True
    then show ?thesis unfolding between_def using assms(1-3,5,6) \<open>accepts m p\<close> q by (intro exI [of _ inc] exI [of _ m]) (simp add: make_trade_def)
  next
    case False
    then show ?thesis unfolding between_def using assms(1-3,5,6) \<open>accepts m p\<close> q by (intro exI [of _ m] exI [of _ inc]) (simp add: make_trade_def)
  qed
qed

lemma match_exec_walked:
  assumes "match_exec clk lvl e q st = Inr (Continues st')" "walked st"
    and e: "e \<in> set (lv_orders (b_mem (ms_book st) lvl))"
    and q: "0 < q \<Longrightarrow> q \<le> Remaining (ms_incoming st) \<and> q \<le> Remaining (b_elems (ms_book st) e)"
    and opp: "(o_Side (ms_incoming st) = SideBuy) \<noteq> (o_Side (b_elems (ms_book st) e) = SideBuy)"
    and acc: "accepts (ms_incoming st) (lv_priceCents (b_mem (ms_book st) lvl))"
  shows "walked st'"
proof -
  let ?b = "ms_book st" and ?m' = "fill_ignoring_error (clk (Suc (ms_clock st))) q (b_elems (ms_book st) e)"
  have b: "stored ?b" "priced ?b" using assms(2) by (auto simp: walked_def stored_def)
  then have lt: "e < b_nextElem ?b" and p: "o_PriceCents (b_elems ?b e) = Some (lv_priceCents (b_mem ?b lvl))"
    using e by (auto simp: priced_def queue_ok_def)
  then have g: "G (b_elems ?b e)" using b(1) by (simp add: stored_def)
  have put: "stored (put_order e ?m' ?b)" using stored_put [OF b(1) lt fill_law [OF g]] by (simp add: fill_price fill_side)
  have n: "b_nextElem (put_order e ?m' ?b) = b_nextElem ?b" by (simp add: put_order_def)
  from assms(1) have "ms_book st' = put_order e ?m' ?b \<or>
      (\<exists>side. removeFront ?m' side lvl (put_order e ?m' ?b) = Inr (ms_book st'))"
    by (auto simp: match_exec_def Let_def split: if_splits sum.splits)
  then have "stored (ms_book st')" "b_nextElem (ms_book st') = b_nextElem ?b"
    using put n stored_removeFront [OF _ put] removeFront_store by metis+
  moreover have "ms_incoming st' = fill_ignoring_error (clk (ms_clock st)) q (ms_incoming st)" "ms_makers st' = ms_makers st @ [e]"
      "ms_trades st' = ms_trades st @ [make_trade (ms_incoming st) (b_elems ?b e) (lv_priceCents (b_mem ?b lvl)) q]"
    using assms(1) by (auto simp: match_exec_def Let_def split: if_splits sum.splits)
  moreover have "between (make_trade (ms_incoming st) (b_elems ?b e) (lv_priceCents (b_mem ?b lvl)) q)"
    using between_make [OF _ g p q opp acc] assms(2) by (simp add: walked_def)
  ultimately show ?thesis using assms(2) lt fill_law by (auto simp: walked_def)
qed

lemma match_iter_walked:
  assumes "match_iter clk st = Inr (Continues st')" "walked st" "0 < Remaining (ms_incoming st)"
  shows "walked st'"
proof -
  from assms(1) obtain lvl e q where x: "q \<noteq> 0" "match_exec clk lvl e q st = Inr (Continues st')" "FrontOrder (ms_book st) (Some lvl) = Some e"
    and best: "BestOpposite (ms_book st) (o_Side (ms_incoming st)) = Some lvl"
    and lim: "beyond_limit (ms_incoming st) (lv_priceCents (b_mem (ms_book st) lvl)) = Inr False"
    and mq: "match_qty (ms_incoming st) (ms_funds st) (b_elems (ms_book st) e) (lv_priceCents (b_mem (ms_book st) lvl)) = Inr q"
    by (auto simp: match_iter_def Let_def split: option.splits sum.splits bool.splits if_splits)
  have e: "e \<in> set (lv_orders (b_mem (ms_book st) lvl))" using x(3) by (auto simp: FrontOrder_def split: list.splits)
  have "0 \<le> Remaining (b_elems (ms_book st) e)"
    using assms(2) sane_remaining_nonneg by (auto simp: walked_def stored_def priced_def cheap_def)
  from match_qty_cases [OF mq assms(3) this x(1)]
  have "0 < q \<Longrightarrow> q \<le> Remaining (ms_incoming st) \<and> q \<le> Remaining (b_elems (ms_book st) e)" by auto
  moreover have "(o_Side (ms_incoming st) = SideBuy) \<noteq> (o_Side (b_elems (ms_book st) e) = SideBuy)"
    using best_side [OF _ best e] assms(2) by (simp add: walked_def stored_def)
  moreover have "accepts (ms_incoming st) (lv_priceCents (b_mem (ms_book st) lvl))"
    using lim by (auto simp: accepts_def beyond_limit_def split: if_splits option.splits)
  ultimately show ?thesis by (rule match_exec_walked [OF x(2) assms(2) e])
qed

lemma match_loop_walked:
  assumes "match_loop clk st = Some (Inr st')" "walked st"
  shows "walked st'"
proof -
  have "walked st \<longrightarrow> (\<forall>st'. r = Inr st' \<longrightarrow> walked st')" if "match_loop clk st = Some r" for r :: "go_panic + MatchState"
  proof (rule match_loop.raw_induct [where P = "\<lambda>clk st r. walked st \<longrightarrow> (\<forall>st'. r = Inr st' \<longrightarrow> walked st')", OF _ that], goal_cases)
    case (1 loop clk st r)
    note step = 1
    show ?case
    proof (cases "0 < Remaining (ms_incoming st)")
      case True
      consider p where "match_iter clk st = Inl p" | st1 where "match_iter clk st = Inr (Broke st1)"
        | st1 where "match_iter clk st = Inr (Continues st1)" by (metis loop_exit.exhaust sum.exhaust)
      then show ?thesis
      proof cases
        case (1 p)
        then show ?thesis using step(2) True by auto
      next
        case (2 st1)
        then have "r = Inr st" using step(2) True match_iter_broke [OF 2] by simp
        then show ?thesis by simp
      next
        case (3 st1)
        then have "loop clk st1 = Some r" using step(2) True by simp
        from step(1) [OF this] show ?thesis using match_iter_walked [OF 3 _ True] by blast
      qed
    qed (use step(2) in auto)
  qed
  then show ?thesis using assms by blast
qed

lemma Match_stored:
  assumes "Match clk b ord funds = Some (Inr (res, b', f))" "stored b" "G ord"
  shows "stored b'" "\<forall>tr\<in>set (mr_Trades res). between tr" "G (mr_Incoming res)" "\<forall>m\<in>set (mr_TouchedMakers res). G m"
proof -
  let ?st = "\<lparr>ms_book = b, ms_incoming = ord, ms_funds = funds, ms_trades = [], ms_makers = [], ms_clock = 0\<rparr>"
  have "walked ?st" using assms(2,3) by (simp add: walked_def)
  moreover from assms(1) obtain st' where l: "match_loop clk ?st = Some (Inr st')" "match_end clk st' = Inr (res, b', f)"
    by (auto simp: Match_def split: option.splits sum.splits)
  ultimately have w: "walked st'" using match_loop_walked by blast
  then have m: "\<forall>m\<in>set (map (b_elems (ms_book st')) (ms_makers st')). G m" by (auto simp: walked_def stored_def)
  show "stored b'" "\<forall>tr\<in>set (mr_Trades res). between tr" "G (mr_Incoming res)" "\<forall>m\<in>set (mr_TouchedMakers res). G m"
    using l(2) w m cancel_law by (auto simp: match_end_def Let_def walked_def split: if_splits sum.splits dest: stored_AddResting)
qed

end


section \<open>Orders of the table\<close>

text \<open>What never changes of an order.\<close>

definition static :: "Order \<Rightarrow> uuid \<times> uuid \<times> Side \<times> OrderType \<times> int64 option \<times> int64" where
  "static ord = (o_ID ord, o_UserID ord, o_Side ord, o_Type ord, o_PriceCents ord, o_Quantity ord)"

definition placed_orders :: "DB \<Rightarrow> (uuid \<times> uuid \<times> Side \<times> OrderType \<times> int64 option \<times> int64) set" where
  "placed_orders d = (\<lambda>r. static (toOrder r)) ` set (db_orders d)"

definition known_order :: "(uuid \<times> uuid \<times> Side \<times> OrderType \<times> int64 option \<times> int64) set \<Rightarrow> Order \<Rightarrow> bool" where
  "known_order K ord \<longleftrightarrow> static ord \<in> K \<and> cheap ord"

lemma static_kept: "static (fill_ignoring_error t q ord) = static ord" "static (CancelOrder t ord) = static ord"
  by (simp_all add: static_def fill_ignoring_error_def Fill_def CancelOrder_def Let_def)

lemma cheap_cancel: "cheap ord \<Longrightarrow> cheap (CancelOrder t ord)"
  by (simp add: cheap_def sane_def CancelOrder_def)

interpretation known: order_law "known_order K" for K
  by unfold_locales (simp_all add: known_order_def static_kept cheap_fill cheap_cancel)

lemma stored_mono:
  assumes "K \<subseteq> K'" "known.stored K b"
  shows "known.stored K' b"
  using assms by (auto simp: known.stored_def known_order_def)

definition trade_known :: "(uuid \<times> uuid \<times> Side \<times> OrderType \<times> int64 option \<times> int64) set \<Rightarrow> Trade \<Rightarrow> bool" where
  "trade_known K t \<longleftrightarrow> 0 < t_PriceCents t \<and> 0 < t_Quantity t \<and> (\<exists>x y. static x \<in> K \<and> static y \<in> K \<and>
     o_Side x = SideBuy \<and> o_Side y \<noteq> SideBuy \<and> accepts x (t_PriceCents t) \<and> accepts y (t_PriceCents t) \<and>
     t_BuyOrderID t = o_ID x \<and> t_BuyerUserID t = o_UserID x \<and> t_SellOrderID t = o_ID y \<and> t_SellerUserID t = o_UserID y \<and>
     t_Quantity t \<le> o_Quantity x \<and> t_Quantity t \<le> o_Quantity y \<and>
     (o_PriceCents x = Some (t_PriceCents t) \<or> o_PriceCents y = Some (t_PriceCents t)))"

lemma trade_known_mono: "K \<subseteq> K' \<Longrightarrow> trade_known K t \<Longrightarrow> trade_known K' t"
  unfolding trade_known_def by blast

lemma New_Trade_known:
  assumes "known.between K tr"
    and "New_Trade i (mt_BuyOrderID tr) (mt_SellOrderID tr) (mt_BuyerUserID tr) (mt_SellerUserID tr) (mt_PriceCents tr) (mt_Quantity tr) tm = Inr t"
  shows "trade_known K t"
proof -
  from assms(1) obtain x y where xy: "known_order K x" "known_order K y" "o_Side x = SideBuy" "o_Side y \<noteq> SideBuy"
      "accepts x (mt_PriceCents tr)" "accepts y (mt_PriceCents tr)" "mt_BuyOrderID tr = o_ID x" "mt_BuyerUserID tr = o_UserID x"
      "mt_SellOrderID tr = o_ID y" "mt_SellerUserID tr = o_UserID y"
      "0 < mt_Quantity tr \<longrightarrow> mt_Quantity tr \<le> o_Quantity x \<and> mt_Quantity tr \<le> o_Quantity y"
      "o_PriceCents x = Some (mt_PriceCents tr) \<or> o_PriceCents y = Some (mt_PriceCents tr)"
    unfolding known.between_def by blast
  have st: "static x \<in> K" "static y \<in> K" using xy(1,2) by (simp_all add: known_order_def)
  have t: "0 < mt_PriceCents tr" "0 < mt_Quantity tr" "t_PriceCents t = mt_PriceCents tr" "t_Quantity t = mt_Quantity tr"
      "t_BuyOrderID t = mt_BuyOrderID tr" "t_SellOrderID t = mt_SellOrderID tr" "t_BuyerUserID t = mt_BuyerUserID tr" "t_SellerUserID t = mt_SellerUserID tr"
    using assms(2) by (auto simp: New_Trade_def split: if_splits)
  show ?thesis unfolding trade_known_def using xy(3-) st t by (intro conjI exI [of _ x] exI [of _ y]) simp_all
qed

text \<open>The rows stay within their quantities, the trades are between orders of the table.\<close>

definition rows_known :: "(uuid \<times> uuid \<times> Side \<times> OrderType \<times> int64 option \<times> int64) set \<Rightarrow> DB \<Rightarrow> bool" where
  "rows_known K d \<longleftrightarrow> distinct (map or_ID (db_orders d)) \<and> placed_orders d = K \<and> (\<forall>r\<in>set (db_orders d). cheap (toOrder r)) \<and>
     (\<forall>t\<in>set (db_trades d). trade_known K t)"

section \<open>Actions of the matcher\<close>

definition traced :: "(uuid \<times> uuid \<times> Side \<times> OrderType \<times> int64 option \<times> int64) set \<Rightarrow> ('a \<Rightarrow> bool) \<Rightarrow> (MWorld, 'a) action \<Rightarrow> bool" where
  "traced K P act \<longleftrightarrow> (\<forall>w r w'. act w = (r, w') \<longrightarrow> rows_known K (w_db w) \<longrightarrow> known.stored K (mw_book w) \<longrightarrow>
     rows_known K (w_db w') \<and> known.stored K (mw_book w') \<and> (\<forall>x. r = Inr x \<longrightarrow> P x))"

abbreviation traced_any :: "(uuid \<times> uuid \<times> Side \<times> OrderType \<times> int64 option \<times> int64) set \<Rightarrow> (MWorld, 'a) action \<Rightarrow> bool" where
  "traced_any K \<equiv> traced K (\<lambda>_. True)"

lemma tracedD:
  assumes "traced K P act" "act w = (r, w')" "rows_known K (w_db w)" "known.stored K (mw_book w)"
  shows "rows_known K (w_db w')" "known.stored K (mw_book w')" "r = Inr x \<Longrightarrow> P x"
  using assms unfolding traced_def by blast+

lemma traced_weaken: "traced K P act \<Longrightarrow> (\<And>x. P x \<Longrightarrow> Q x) \<Longrightarrow> traced K Q act"
  unfolding traced_def by blast

lemma traced_bind:
  assumes "traced K P m" "\<And>x. P x \<Longrightarrow> traced K R (k x)"
  shows "traced K R (bind_ok m k)"
  unfolding traced_def
proof (intro allI impI)
  fix w r w' assume b: "bind_ok m k w = (r, w')" and ok: "rows_known K (w_db w)" "known.stored K (mw_book w)"
  obtain r1 w1 where m: "m w = (r1, w1)" by fastforce
  note 1 = tracedD [OF assms(1) m ok]
  show "rows_known K (w_db w') \<and> known.stored K (mw_book w') \<and> (\<forall>x. r = Inr x \<longrightarrow> R x)"
  proof (cases r1)
    case (Inl e)
    then show ?thesis using b m 1 by (auto simp: bind_ok_def)
  next
    case (Inr x)
    then have k: "k x w1 = (r, w')" using b m by (simp add: bind_ok_def)
    from tracedD [OF assms(2) [OF 1(3) [OF Inr]] k 1(1,2)] show ?thesis by blast
  qed
qed

lemma traced_branch:
  "(c \<Longrightarrow> traced K P m) \<Longrightarrow> (\<not> c \<Longrightarrow> traced K P n) \<Longrightarrow> traced K P (if c then m else n)"
  "traced K P m \<Longrightarrow> (\<And>x. opt = Some x \<Longrightarrow> traced K P (k x)) \<Longrightarrow> traced K P (case opt of None \<Rightarrow> m | Some x \<Rightarrow> k x)"
  "(\<And>x. traced K P (g x)) \<Longrightarrow> (\<And>y. sm = Inr y \<Longrightarrow> traced K P (k y)) \<Longrightarrow> traced K P (case sm of Inl x \<Rightarrow> g x | Inr y \<Rightarrow> k y)"
  by (auto split: option.split sum.split)

lemma traced_simple:
  "P x \<Longrightarrow> traced K P (return_ok x)" "traced K P (return_err e)" "traced_any K (now env)" "traced_any K (new_uuid env)"
  "traced_any K (wallet_do u op)"
  by (auto simp: traced_def return_ok_def return_err_def now_def new_uuid_def wallet_do_def tick_def split: option.splits sum.splits)

lemma traced_statement:
  assumes "\<And>n d x d'. h n d = Inr (x, d') \<Longrightarrow> rows_known K d \<Longrightarrow> rows_known K d'"
  shows "traced_any K (statement env h)"
  unfolding traced_def by (auto simp: statement_def tick_def split: if_splits sum.splits dest: assms)

lemma traced_for_each: "(\<And>x. x \<in> set xs \<Longrightarrow> traced_any K (f x)) \<Longrightarrow> traced_any K (for_each f xs)"
  by (induction xs) (auto intro!: traced_simple traced_bind)

lemma traced_repo:
  "traced_any K (WalletRepo_Update env wal)" "traced_any K (ProcessedRepo_TryMark env i sn)" "traced_any K (WalletRepo_GetForUpdate env u)"
  unfolding repo_defs
  by (rule traced_statement; auto simp: rows_known_def placed_orders_def split: if_splits option.splits)+

lemma traced_loadWallet: "traced_any K (loadWallet menv u)"
proof -
  have "traced_any K (bind_ok (WalletRepo_GetForUpdate (me_env menv) u) (\<lambda>wal w'. (Inr wal, w'\<lparr>mw_cache := mw_cache w' @ [wal]\<rparr>)))"
    by (rule traced_bind [OF traced_repo(3)]) (auto simp: traced_def)
  then show ?thesis by (auto simp: traced_def loadWallet_def split: option.splits)
qed

lemma traced_order_update:
  assumes "known_order K ord"
  shows "traced_any K (OrderRepo_Update env ord)"
  unfolding OrderRepo_Update_def
proof (rule traced_statement, goal_cases)
  case (1 n d x d')
  let ?f = "\<lambda>r. r\<lparr>or_FilledQuantity := o_FilledQuantity ord, or_Status := string_of_Status (o_Status ord), or_UpdatedAt := e_clock env n\<rparr>"
  have d': "d' = d\<lparr>db_orders := write_rows or_ID (o_ID ord) ?f (db_orders d)\<rparr>" using 1(1) by (auto split: if_splits)
  have st: "static (toOrder (?f r)) = static (toOrder r)" for r by (simp add: static_def toOrder_def)
  have dist: "distinct (map or_ID (db_orders d))" using 1(2) by (simp add: rows_known_def)
  have "cheap (toOrder (?f r))" if r: "r \<in> set (db_orders d)" "or_ID r = o_ID ord" for r
  proof -
    obtain r0 where r0: "r0 \<in> set (db_orders d)" "static (toOrder r0) = static ord"
      using assms 1(2) by (auto simp: rows_known_def placed_orders_def known_order_def)
    then have "or_ID r0 = or_ID r" using r(2) by (simp add: static_def toOrder_def)
    then have "r0 = r" using dist r(1) r0(1) by (meson distinct_map inj_onD)
    then have "or_Quantity r = o_Quantity ord" "or_PriceCents r = o_PriceCents ord" using r0(2) by (auto simp: static_def toOrder_def)
    then show ?thesis using assms by (simp add: known_order_def cheap_def sane_def toOrder_def)
  qed
  then have "\<forall>r\<in>set (db_orders d'). cheap (toOrder r)" using 1(2) by (auto simp: d' write_rows_def rows_known_def)
  moreover have "map or_ID (db_orders d') = map or_ID (db_orders d)" unfolding d' by (simp add: orders.modify_keys)
  moreover have "map (\<lambda>r. static (toOrder r)) (db_orders d') = map (\<lambda>r. static (toOrder r)) (db_orders d)"
    by (simp add: d' write_rows_def st)
  then have "placed_orders d' = placed_orders d" unfolding placed_orders_def by (metis set_map)
  ultimately show ?case using 1(2) by (simp add: rows_known_def d')
qed


lemma traced_trade_insert:
  assumes "trade_known K t"
  shows "traced_any K (TradeRepo_Insert env t)"
  unfolding TradeRepo_Insert_def
  by (rule traced_statement) (use assms in \<open>auto simp: rows_known_def placed_orders_def split: if_splits\<close>)

lemma traced_run_match:
  assumes "known_order K ord"
  shows "traced K (\<lambda>res. (\<forall>tr\<in>set (mr_Trades res). known.between K tr) \<and> known_order K (mr_Incoming res) \<and>
    (\<forall>m\<in>set (mr_TouchedMakers res). known_order K m)) (run_match menv ord funds)"
  unfolding traced_def
proof (intro allI impI)
  fix w r w' assume m: "run_match menv ord funds w = (r, w')" and ok: "rows_known K (w_db w)" "known.stored K (mw_book w)"
  show "rows_known K (w_db w') \<and> known.stored K (mw_book w') \<and> (\<forall>x. r = Inr x \<longrightarrow> (\<forall>tr\<in>set (mr_Trades x). known.between K tr) \<and>
    known_order K (mr_Incoming x) \<and> (\<forall>m\<in>set (mr_TouchedMakers x). known_order K m))"
  proof (cases r)
    case (Inl e)
    then show ?thesis using m ok by (auto simp: run_match_def split: option.splits sum.splits prod.splits)
  next
    case (Inr x)
    then obtain b f where M: "Match (\<lambda>n. e_clock (me_env menv) (w_step w + n)) (mw_book w) ord funds = Some (Inr (x, b, f))"
        and w': "mw_book w' = b" "w_db w' = w_db w"
      using m by (auto simp: run_match_def split: option.splits sum.splits prod.splits)
    from known.Match_stored [OF M ok(2) assms] show ?thesis using ok(1) w' Inr by simp
  qed
qed

lemma traced_book_cancel: "traced K (\<lambda>r. \<forall>ord. r = Some ord \<longrightarrow> known_order K ord) (book_cancel i)"
  unfolding traced_def
proof (intro allI impI)
  fix w r w' assume c: "book_cancel i w = (r, w')" and ok: "rows_known K (w_db w)" "known.stored K (mw_book w)"
  show "rows_known K (w_db w') \<and> known.stored K (mw_book w') \<and> (\<forall>x. r = Inr x \<longrightarrow> (\<forall>ord. x = Some ord \<longrightarrow> known_order K ord))"
  proof (cases r)
    case (Inl e)
    then show ?thesis using c ok by (auto simp: book_cancel_def split: sum.splits prod.splits)
  next
    case (Inr x)
    then obtain b where b: "CancelResting i (mw_book w) = Inr (x, b)" "w' = w\<lparr>mw_book := b\<rparr>"
      using c by (auto simp: book_cancel_def split: sum.splits prod.splits)
    from known.stored_Cancel [OF b(1) ok(2)] show ?thesis using ok(1) b(2) Inr by simp
  qed
qed

lemma traced_settle:
  assumes "known.between K tr"
  shows "traced_any K (settle_trade menv ord tr)"
  unfolding settle_trade_def release_improvement_def Let_def
  by (intro traced_bind [OF traced_loadWallet] traced_bind [where P = "\<lambda>_. True"] traced_branch traced_simple traced_loadWallet
      traced_trade_insert New_Trade_known [OF assms] TrueI)

section \<open>Events and batches\<close>

definition event_known :: "(uuid \<times> uuid \<times> Side \<times> OrderType \<times> int64 option \<times> int64) set \<Rightarrow> StreamEvent \<Rightarrow> bool" where
  "event_known K ev \<longleftrightarrow> (ev_Type ev = EventTypeNewOrder \<longrightarrow> known_order K (order_of_event ev 0))"

definition batch_known :: "(uuid \<times> uuid \<times> Side \<times> OrderType \<times> int64 option \<times> int64) set \<Rightarrow> MEnv \<Rightarrow> XMessage list \<Rightarrow> bool" where
  "batch_known K menv msgs \<longleftrightarrow> (\<forall>m\<in>set msgs. \<forall>ev. message_event menv m = Some ev \<longrightarrow> event_known K ev)"

lemma known_event_order: "event_known K ev \<Longrightarrow> ev_Type ev = EventTypeNewOrder \<Longrightarrow> known_order K (order_of_event ev t)"
  by (simp add: event_known_def known_order_def static_def cheap_def sane_def order_of_event_def)

lemma event_known_cheap: "event_known K ev \<Longrightarrow> event_cheap ev"
  by (auto simp: event_known_def event_cheap_def known_order_def cheap_def sane_def order_of_event_def in64_def MinInt64_def)

lemma batch_known_cheap: "batch_known K menv msgs \<Longrightarrow> batch_cheap menv msgs"
  using event_known_cheap by (auto simp: batch_known_def batch_cheap_def)

lemma traced_entry:
  assumes "event_known K ev"
  shows "traced_any K (applyEntry menv ev)"
proof (cases "ev_Type ev")
  case EventTypeNewOrder
  note o = known_event_order [OF assms EventTypeNewOrder]
  have "traced_any K (applyNewOrder menv ev)"
    unfolding applyNewOrder_def available_funds_def release_remainder_def
    by (intro traced_bind [OF traced_simple(3)] traced_bind [OF traced_run_match [OF o]] traced_bind [where P = "\<lambda>_. True"]
        traced_for_each traced_settle traced_order_update traced_branch traced_simple traced_loadWallet TrueI) auto
  then show ?thesis using EventTypeNewOrder by (simp add: applyEntry_def)
next
  case EventTypeCancelOrder
  have "traced_any K (applyCancel menv ev)"
    unfolding applyCancel_def release_cancelled_def
    by (intro traced_bind [OF traced_book_cancel] traced_bind [OF traced_simple(3)] traced_bind [where P = "\<lambda>_. True"]
        traced_branch traced_simple traced_loadWallet traced_order_update known.cancel_law TrueI) auto
  then show ?thesis using EventTypeCancelOrder by (simp add: applyEntry_def)
next
  case (EventTypeRaw x)
  then show ?thesis by (simp add: applyEntry_def traced_simple)
qed

lemma traced_batch:
  assumes "batch_known K menv msgs"
  shows "traced_any K (batch_body menv msgs)"
proof -
  have m: "traced_any K (apply_message menv m)" if "m \<in> set msgs" for m
  proof -
    have "traced_any K (applyEntry menv ev)" if "message_event menv m = Some ev" for ev
      using assms that \<open>m \<in> set msgs\<close> by (auto simp: batch_known_def intro: traced_entry)
    then show ?thesis
      unfolding apply_message_def message_event_def [symmetric] by (intro traced_bind [OF traced_repo(2)] traced_branch traced_simple TrueI) auto
  qed
  have "traced_any K (for_each (WalletRepo_Update (me_env menv)) cs)" for cs by (rule traced_for_each [OF traced_repo(1)])
  then have f: "traced_any K (flush_wallets menv)" by (simp add: traced_def flush_wallets_def)
  have "traced_any K (bind_ok (for_each (apply_message menv) msgs) (\<lambda>_. bind_ok (flush_wallets menv) (\<lambda>_. return_ok (Commits ()))))"
    by (intro traced_bind [OF traced_for_each [OF m]] traced_bind [OF f] traced_simple TrueI)
  then show ?thesis by (simp add: traced_def batch_body_def)
qed


lemma rows_known_seq [simp]: "rows_known K (d\<lparr>db_outboxSeq := n\<rparr>) = rows_known K d"
  by (simp add: rows_known_def placed_orders_def)

lemma traced_in_tx:
  assumes "traced K P body"
  shows "traced_any K (in_tx env body)"
  unfolding traced_def
proof (intro allI impI)
  fix w r w' assume t: "in_tx env body w = (r, w')" and ok: "rows_known K (w_db w)" "known.stored K (mw_book w)"
  obtain r1 w1 where b: "body (tick w) = (r1, w1)" by fastforce
  have ok': "rows_known K (w_db (tick w))" "known.stored K (mw_book (tick w))" using ok by (simp_all add: tick_def)
  note 1 = tracedD(1,2) [OF assms b ok']
  have "mw_book w' = mw_book w \<or> mw_book w' = mw_book w1" "w_db w' = w_db w \<or> w_db w' = w_db w1 \<or> (\<exists>n. w_db w' = (w_db w)\<lparr>db_outboxSeq := n\<rparr>)"
    using t b by (auto simp: in_tx_def commit_def tick_def rolled_back_def split: if_splits sum.splits tx_exit.splits fault.splits)
  then show "rows_known K (w_db w') \<and> known.stored K (mw_book w') \<and> (\<forall>x. r = Inr x \<longrightarrow> True)" using 1 ok by auto
qed

lemma traced_applyBatch: "batch_known K menv msgs \<Longrightarrow> traced_any K (applyBatch menv msgs)"
  unfolding applyBatch_def by (rule traced_in_tx [OF traced_batch])

lemma traced_processMessages:
  assumes "batch_known K menv msgs"
  shows "traced_any K (processMessages menv msgs)"
  unfolding traced_def
proof (intro allI impI)
  fix w r w' assume t: "processMessages menv msgs w = (r, w')" and ok: "rows_known K (w_db w)" "known.stored K (mw_book w)"
  obtain r1 w1 where b: "applyBatch menv msgs w = (r1, w1)" by fastforce
  have "w_db w' = w_db w \<and> mw_book w' = mw_book w \<or> w_db w' = w_db w1 \<and> mw_book w' = mw_book w1"
    using t b by (auto simp: processMessages_def bind_ok_def Ack_def return_ok_def tick_def split: if_splits sum.splits)
  then show "rows_known K (w_db w') \<and> known.stored K (mw_book w') \<and> (\<forall>x. r = Inr x \<longrightarrow> True)"
    using tracedD(1,2) [OF traced_applyBatch [OF assms] b ok] ok by auto
qed

text \<open>Recovery reads the rows, in whatever order the scan meets them.\<close>

definition scans_rows :: "Env \<Rightarrow> bool" where
  "scans_rows env \<longleftrightarrow> (\<forall>n rs. mset (e_scan env n rs) = mset rs)"

lemma RecoverBook_stored:
  assumes "RecoverBook env w = (Inr b, w')" "scans_rows env" "rows_known K (w_db w)"
  shows "known.stored K b" "w_db w' = w_db w"
proof -
  from assms(1) obtain os w1 where "OrderRepo_ListOpenForRecovery env w = (Inr os, w1)"
      "(case rest_all os NewBook of Inl p \<Rightarrow> return_err (Panics p) | Inr b \<Rightarrow> return_ok b) w1 = (Inr b, w')"
    unfolding RecoverBook_def bind_ok_Inr by blast
  then have os: "OrderRepo_ListOpenForRecovery env w = (Inr os, w')" "rest_all os NewBook = Inr b"
    by (cases "rest_all os NewBook"; simp)+
  have "set (e_scan env n rs) = set rs" for n rs using assms(2) unfolding scans_rows_def by (metis set_mset_mset)
  then have "\<forall>ord\<in>set os. known_order K ord"
    using os(1) assms(3) by (auto simp: OrderRepo_ListOpenForRecovery_def statement_Inr rows_known_def placed_orders_def known_order_def)
  then show "known.stored K b" using known.stored_rest_all [OF os(2) known.stored_new] by blast
  show "w_db w' = w_db w" using os(1) by (auto simp: OrderRepo_ListOpenForRecovery_def statement_Inr tick_def)
qed

lemma traced_resyncBook:
  assumes "scans_rows (me_env menv)"
  shows "traced_any K (resyncBook menv)"
  unfolding traced_def
proof (intro allI impI)
  fix w r w' assume t: "resyncBook menv w = (r, w')" and ok: "rows_known K (w_db w)" "known.stored K (mw_book w)"
  obtain r1 w1 where b: "RecoverBook (me_env menv) w = (r1, w1)" by fastforce
  then have w1: "w_db w1 = w_db w" "mw_book w1 = mw_book w"
    by (auto simp: RecoverBook_def bind_ok_def OrderRepo_ListOpenForRecovery_def statement_def tick_def return_ok_def return_err_def
        split: if_splits sum.splits)
  show "rows_known K (w_db w') \<and> known.stored K (mw_book w') \<and> (\<forall>x. r = Inr x \<longrightarrow> True)"
  proof (cases r1)
    case (Inl e)
    then show ?thesis using t b w1 ok by (auto simp: resyncBook_def bind_ok_def)
  next
    case (Inr bk)
    then have "w' = w1\<lparr>mw_book := bk\<rparr>" using t b by (auto simp: resyncBook_def bind_ok_def)
    then show ?thesis using RecoverBook_stored [OF b [unfolded Inr] assms ok(1)] ok(1) by simp
  qed
qed

end
