(* ===== verification/Outbox_Publisher.thy ===== *)
theory Outbox_Publisher
  imports Order_Services "HOL-Library.Sublist"
begin

text \<open>
  Package \<open>internal/application/outboxapp\<close> and the Redis producer it publishes through. The publisher's
  world extends the database with the entries that reached Redis; \<open>XADD\<close> is a parameter, which may
  succeed, fail, or fail after the entry was added. The trace context read from the payload only names
  spans; it is modelled beside the events in \<open>Event_Json\<close>.
\<close>

section \<open>World and parameters\<close>

record StreamEntry =
  se_ID :: string
  se_Stream :: string
  se_Payload :: string

record PEnv =
  pe_env :: Env
  pe_xadd :: "nat \<Rightarrow> fault \<times> string"
  pe_ctxDone :: "nat \<Rightarrow> bool"
  pe_batchSize :: int

record PWorld = World +
  pw_stream :: "StreamEntry list"

section \<open>Operations\<close>

definition add_entry :: "string \<Rightarrow> string \<Rightarrow> string \<Rightarrow> PWorld \<Rightarrow> PWorld" where
  "add_entry i stream payload w = w\<lparr>pw_stream := pw_stream w @ [\<lparr>se_ID = i, se_Stream = stream, se_Payload = payload\<rparr>]\<rparr>"

definition Publish :: "PEnv \<Rightarrow> string \<Rightarrow> string \<Rightarrow> (PWorld, string) action" where
  "Publish penv stream payload w =
     (case pe_xadd penv (w_step w) of
        (Works, i) \<Rightarrow> (Inr i, tick (add_entry i stream payload w))
      | (Fails, _) \<Rightarrow> (Inl RedisFault, tick w)
      | (FailsAfterEffect, i) \<Rightarrow> (Inl RedisFault, tick (add_entry i stream payload w)))"

definition fetchBatch :: "PEnv \<Rightarrow> (PWorld, OutboxEvent list) action" where
  "fetchBatch penv =
     in_tx (pe_env penv)
       (bind_ok (OutboxRepo_FetchUnpublishedBatch (pe_env penv) (pe_batchSize penv)) (\<lambda>events. return_ok (Commits events)))"

definition publish_tx :: "PEnv \<Rightarrow> OutboxEvent \<Rightarrow> (PWorld, bool tx_exit) action" where
  "publish_tx penv e =
     bind_ok (OutboxRepo_LockIfUnpublished (pe_env penv) (oe_ID e)) (\<lambda>locked.
       if \<not> locked then return_ok (Leaves False)
       else bind_ok (Publish penv (oe_StreamName e) (oe_Payload e)) (\<lambda>_.
            bind_ok (OutboxRepo_MarkPublished (pe_env penv) [oe_ID e]) (\<lambda>_.
              return_ok (Commits True))))"

definition publishAndMarkOne :: "PEnv \<Rightarrow> OutboxEvent \<Rightarrow> (PWorld, bool) action" where
  "publishAndMarkOne penv e = in_tx (pe_env penv) (publish_tx penv e)"

text \<open>The loop of \<open>PublishOnce\<close>, which returns the count and the error both.\<close>

fun publish_all :: "PEnv \<Rightarrow> OutboxEvent list \<Rightarrow> nat \<Rightarrow> PWorld \<Rightarrow> (nat \<times> app_error option) \<times> PWorld" where
  "publish_all penv [] published w = ((published, None), w)"
| "publish_all penv (e # es) published w =
     (case publishAndMarkOne penv e w of
        (Inl err, w') \<Rightarrow> ((published, Some err), w')
      | (Inr ok, w') \<Rightarrow> publish_all penv es (if ok then Suc published else published) w')"

definition PublishOnce :: "PEnv \<Rightarrow> PWorld \<Rightarrow> (nat \<times> app_error option) \<times> PWorld" where
  "PublishOnce penv w =
     (case fetchBatch penv w of
        (Inl err, w') \<Rightarrow> ((0, Some err), w')
      | (Inr events, w') \<Rightarrow> if events = [] then ((0, None), w') else publish_all penv events 0 w')"

text \<open>The polling loop; which branch of the \<open>select\<close> is taken is the environment's choice.\<close>

partial_function (option) PublisherRun :: "PEnv \<Rightarrow> PWorld \<Rightarrow> (app_error \<times> PWorld) option" where
  "PublisherRun penv w =
     (if pe_ctxDone penv (w_step w) then Some (CtxCancelled, w)
      else PublisherRun penv (snd (PublishOnce penv w)))"

declare PublisherRun.simps [code]

section \<open>One event\<close>

definition entry_of :: "OutboxEvent \<Rightarrow> string \<times> string" where
  "entry_of e = (oe_StreamName e, oe_Payload e)"

definition entries :: "PWorld \<Rightarrow> (string \<times> string) list" where
  "entries w = map (\<lambda>se. (se_Stream se, se_Payload se)) (pw_stream w)"

definition mark_db :: "int64 list \<Rightarrow> DB \<Rightarrow> DB" where
  "mark_db ids d = d\<lparr>db_outbox := mark_rows ids (db_outbox d)\<rparr>"

lemma mark_db_Nil [simp]: "mark_db [] d = d"
  by (simp add: mark_db_def mark_rows_def)

lemma mark_db_append: "mark_db js (mark_db is d) = mark_db (is @ js) d"
  by (auto simp: mark_db_def mark_rows_def)

lemma entries_tick [simp]: "entries (tick w) = entries w" "entries (w\<lparr>w_db := d\<rparr>) = entries w" "entries (rolled_back d w) = entries w"
  by (simp_all add: entries_def tick_def rolled_back_def)

lemma entries_add [simp]: "entries (add_entry i s p w) = entries w @ [(s, p)]" "w_db (add_entry i s p w) = w_db w"
    "w_step (add_entry i s p w) = w_step w"
  by (simp_all add: entries_def add_entry_def)

text \<open>Whether the event reached the stream, and whether its row was marked.\<close>

definition one_step :: "OutboxEvent \<Rightarrow> PWorld \<Rightarrow> PWorld \<Rightarrow> bool \<Rightarrow> bool \<Rightarrow> bool" where
  "one_step e w w' sent marked \<longleftrightarrow> (marked \<longrightarrow> sent) \<and>
     entries w' = entries w @ (if sent then [entry_of e] else []) \<and>
     w_db w' = (if marked then mark_db [oe_ID e] (w_db w) else w_db w)"

lemma Publish_cases:
  assumes "Publish penv s p w = (r, w')"
  obtains i where "r = Inr i" "entries w' = entries w @ [(s, p)]" "w_db w' = w_db w"
  | err sent where "r = Inl err" "entries w' = entries w @ (if sent then [(s, p)] else [])" "w_db w' = w_db w"
proof -
  obtain f i where x: "pe_xadd penv (w_step w) = (f, i)" by fastforce
  show thesis
    using assms x that(1) [of i] that(2) [of RedisFault "f = FailsAfterEffect"]
    by (cases f) (auto simp: Publish_def)
qed

lemma publish_tx_step:
  assumes "publish_tx penv e w = (r, w')"
  obtains "r = Inr (Commits True)" "one_step e w w' True True"
  | "r = Inr (Leaves False)" "one_step e w w' False False"
  | err sent where "r = Inl err" "entries w' = entries w @ (if sent then [entry_of e] else [])" "w_db w' = w_db w"
proof -
  obtain l w1 where l: "OutboxRepo_LockIfUnpublished (pe_env penv) (oe_ID e) w = (l, w1)" by fastforce
  then have w1: "entries w1 = entries w" "w_db w1 = w_db w"
    by (auto simp: OutboxRepo_LockIfUnpublished_def statement_def split: if_splits)
  show thesis
  proof (cases "l = Inr True")
    case False
    then show ?thesis
      using assms l w1 that(2) that(3) [of _ False]
      by (cases l) (auto simp: publish_tx_def bind_ok_def return_ok_def one_step_def)
  next
    case True
    obtain p w2 where p: "Publish penv (oe_StreamName e) (oe_Payload e) w1 = (p, w2)" by fastforce
    then show ?thesis
    proof (cases rule: Publish_cases)
      case (1 i)
      then show ?thesis
        using assms l w1 True p that(1) that(3) [of PgFault True]
        by (auto simp: publish_tx_def bind_ok_def return_ok_def OutboxRepo_MarkPublished_def statement_def one_step_def entry_of_def
            mark_db_def split: if_splits)
    next
      case (2 err sent)
      then show ?thesis
        using assms l w1 True p that(3) [of err sent] by (auto simp: publish_tx_def bind_ok_def entry_of_def)
    qed
  qed
qed

lemma publish_one_step:
  assumes "publishAndMarkOne penv e w = (r, w')"
  shows "case r of Inr ok \<Rightarrow> one_step e w w' ok ok | Inl err \<Rightarrow> \<exists>sent marked. one_step e w w' sent marked"
proof (cases "e_fault (pe_env penv) (w_step w) = Works")
  case False
  moreover have "one_step e w (tick w) False False" by (simp add: one_step_def)
  ultimately show ?thesis using assms by (fastforce simp: publishAndMarkOne_def in_tx_def)
next
  case True
  obtain r1 w1 where b: "publish_tx penv e (tick w) = (r1, w1)" by fastforce
  from b show ?thesis
  proof (cases rule: publish_tx_step)
    case 1
    then have "one_step e w (tick w1) True True" "one_step e w (tick (rolled_back (w_db w) w1)) True False"
      by (simp_all add: one_step_def mark_db_def)
    with 1 assms b True show ?thesis
      by (fastforce simp: publishAndMarkOne_def in_tx_def commit_def split: fault.splits)
  next
    case 2
    then have "one_step e w (rolled_back (w_db w) w1) False False" by (simp add: one_step_def)
    with 2 assms b True show ?thesis by (fastforce simp: publishAndMarkOne_def in_tx_def)
  next
    case (3 err sent)
    then have "one_step e w (rolled_back (w_db w) w1) sent False" by (simp add: one_step_def)
    with 3 assms b True show ?thesis by (fastforce simp: publishAndMarkOne_def in_tx_def)
  qed
qed

section \<open>A pass over a batch\<close>

text \<open>
  What a pass did: \<open>sent\<close> are the events that reached the stream and are marked, \<open>torn\<close> is at most one
  more that reached it while its mark was rolled back.
\<close>

definition pass :: "OutboxEvent list \<Rightarrow> nat \<Rightarrow> app_error option \<Rightarrow> PWorld \<Rightarrow> PWorld \<Rightarrow> bool" where
  "pass es n err w w' \<longleftrightarrow> (\<exists>sent torn. subseq (sent @ torn) es \<and> length torn \<le> 1 \<and>
     entries w' = entries w @ map entry_of (sent @ torn) \<and> w_db w' = mark_db (map oe_ID sent) (w_db w) \<and>
     (if err = None then torn = [] \<and> n = length sent else length sent = n \<or> length sent = Suc n \<and> torn = []))"

lemma publish_all_count: "publish_all penv es (k + n) w = (\<lambda>((m, err), w'). ((k + m, err), w')) (publish_all penv es n w)"
proof (induction es arbitrary: n w)
  case (Cons e es)
  show ?case using Cons [of "Suc n"] Cons [of n] by (auto split: prod.splits sum.splits)
qed simp

lemma publish_all_pass: "publish_all penv es 0 w = ((n, err), w') \<Longrightarrow> pass es n err w w'"
proof (induction es arbitrary: w n)
  case (Cons e es)
  obtain r w1 where one: "publishAndMarkOne penv e w = (r, w1)" by fastforce
  show ?case
  proof (cases r)
    case (Inl x)
    then have e: "n = 0" "err = Some x" "w' = w1" using Cons.prems one by auto
    obtain sent marked where s: "one_step e w w1 sent marked" using publish_one_step [OF one] Inl by auto
    show ?thesis
    proof (cases marked)
      case True
      with s e show ?thesis unfolding pass_def one_step_def by (intro exI [of _ "[e]"] exI [of _ "[]"]) (auto simp: subseq_singleton_left)
    next
      case False
      with s e show ?thesis
        unfolding pass_def one_step_def by (intro exI [of _ "[]"] exI [of _ "if sent then [e] else []"]) (auto simp: subseq_singleton_left)
    qed
  next
    case (Inr ok)
    then have s: "one_step e w w1 ok ok" using publish_one_step [OF one] by simp
    obtain m where m: "publish_all penv es 0 w1 = ((m, err), w')" "n = (if ok then Suc m else m)"
      using Cons.prems one Inr publish_all_count [of penv es 1 0 w1] by (cases ok) (auto split: prod.splits)
    from Cons.IH [OF m(1)] obtain sent torn where "subseq (sent @ torn) es" "length torn \<le> 1"
        "entries w' = entries w1 @ map entry_of (sent @ torn)" "w_db w' = mark_db (map oe_ID sent) (w_db w1)"
        "if err = None then torn = [] \<and> m = length sent else length sent = m \<or> length sent = Suc m \<and> torn = []"
      unfolding pass_def by blast
    with s m(2) show ?thesis
      unfolding pass_def one_step_def
      by (intro exI [of _ "(if ok then [e] else []) @ sent"] exI [of _ torn]) (auto simp: mark_db_append split: if_splits)
  qed
qed (simp add: pass_def)

section \<open>Fetching\<close>

definition unpublished :: "DB \<Rightarrow> OutboxEvent list" where
  "unpublished d = map outbox_event (sort_key ob_ID (filter (\<lambda>r. \<not> ob_Published r) (db_outbox d)))"

lemma fetchBatch_step:
  assumes "fetchBatch penv w = (r, w')"
  shows "w_db w' = w_db w \<and> entries w' = entries w \<and> (\<forall>es. r = Inr es \<longrightarrow> subseq es (unpublished (w_db w)))"
proof -
  have take: "subseq (take k ys) ys" for k and ys :: "OutboxRow list"
    by (induction ys arbitrary: k) (auto simp: take_Cons' list_emb_Cons2)
  have sub: "subseq (map outbox_event (take k (filter P xs))) (map outbox_event xs)" for k P xs
    by (rule subseq_map) (meson take subseq_filter_left subseq_order.order_trans)
  show ?thesis
    using assms sub
    by (auto simp: fetchBatch_def in_tx_def bind_ok_def OutboxRepo_FetchUnpublishedBatch_def statement_def commit_def
        return_ok_def unpublished_def split: if_splits fault.splits)
qed

lemma pass_order: "pass es n err w w' \<Longrightarrow> subseq es fs \<Longrightarrow> pass fs n err w w'"
  unfolding pass_def by (meson subseq_order.order_trans)

lemma pass_nothing: "entries w' = entries w \<Longrightarrow> w_db w' = w_db w \<Longrightarrow> pass es 0 err w w'"
  unfolding pass_def by (intro exI [of _ "[]"]) simp

lemma pass_from: "entries w1 = entries w \<Longrightarrow> w_db w1 = w_db w \<Longrightarrow> pass es n err w1 w' \<Longrightarrow> pass es n err w w'"
  by (simp add: pass_def)

section \<open>A fault-free pass\<close>

lemma publish_one_works:
  assumes "\<And>n. e_fault (pe_env penv) n = Works" "\<And>n i. \<not> e_locked (pe_env penv) n i" "\<And>n. fst (pe_xadd penv n) = Works"
    and "\<exists>r\<in>set (db_outbox (w_db w)). ob_ID r = oe_ID e \<and> \<not> ob_Published r"
  shows "\<exists>w'. publishAndMarkOne penv e w = (Inr True, w') \<and> w_db w' = mark_db [oe_ID e] (w_db w)"
proof -
  obtain i where x: "pe_xadd penv (Suc (Suc (w_step w))) = (Works, i)" using assms(3) by (metis prod.collapse)
  show ?thesis
    using assms(4) x
    by (auto simp: publishAndMarkOne_def in_tx_def publish_tx_def bind_ok_def OutboxRepo_LockIfUnpublished_def statement_def
        assms(1,2) Publish_def OutboxRepo_MarkPublished_def return_ok_def commit_def mark_db_def)
qed

lemma mark_other:
  assumes "\<exists>r\<in>set (db_outbox d). ob_ID r = i \<and> \<not> ob_Published r" "i \<noteq> j"
  shows "\<exists>r\<in>set (db_outbox (mark_db [j] d)). ob_ID r = i \<and> \<not> ob_Published r"
  using assms by (force simp: mark_db_def mark_rows_def)

lemma publish_all_works:
  assumes "\<And>n. e_fault (pe_env penv) n = Works" "\<And>n i. \<not> e_locked (pe_env penv) n i" "\<And>n. fst (pe_xadd penv n) = Works"
  shows "\<forall>e\<in>set es. \<exists>r\<in>set (db_outbox (w_db w)). ob_ID r = oe_ID e \<and> \<not> ob_Published r \<Longrightarrow> distinct (map oe_ID es) \<Longrightarrow>
    fst (publish_all penv es n w) = (n + length es, None)"
proof (induction es arbitrary: n w)
  case (Cons e es)
  obtain w1 where w1: "publishAndMarkOne penv e w = (Inr True, w1)" "w_db w1 = mark_db [oe_ID e] (w_db w)"
    using publish_one_works [OF assms, of w e] Cons.prems(1) by auto
  have "\<forall>e'\<in>set es. \<exists>r\<in>set (db_outbox (w_db w1)). ob_ID r = oe_ID e' \<and> \<not> ob_Published r"
  proof
    fix e' assume e': "e' \<in> set es"
    then have "oe_ID e' \<noteq> oe_ID e" using Cons.prems(2) by (auto simp: image_iff)
    then show "\<exists>r\<in>set (db_outbox (w_db w1)). ob_ID r = oe_ID e' \<and> \<not> ob_Published r"
      using Cons.prems(1) e' mark_other [of "w_db w" "oe_ID e'" "oe_ID e"] by (simp add: w1(2))
  qed
  then have "fst (publish_all penv es (Suc n) w1) = (Suc n + length es, None)" using Cons.IH Cons.prems(2) by simp
  then show ?case by (simp add: w1(1))
qed simp

lemma unpublished_rows:
  assumes "db_ok d"
  shows "distinct (map oe_ID (unpublished d))"
    and "e \<in> set (unpublished d) \<Longrightarrow> \<exists>r\<in>set (db_outbox d). ob_ID r = oe_ID e \<and> \<not> ob_Published r"
proof -
  have "distinct (map ob_ID (filter P (db_outbox d)))" for P
    using assms by (simp add: db_ok_def distinct_map_filter)
  moreover have "mset (map ob_ID (sort_key ob_ID rs)) = mset (map ob_ID rs)" for rs :: "OutboxRow list" by (metis mset_map mset_sort)
  ultimately have "distinct (map ob_ID (sort_key ob_ID (filter P (db_outbox d))))" for P
    by (metis mset_eq_imp_distinct_iff)
  then show "distinct (map oe_ID (unpublished d))" by (simp add: unpublished_def outbox_event_def comp_def)
  show "e \<in> set (unpublished d) \<Longrightarrow> \<exists>r\<in>set (db_outbox d). ob_ID r = oe_ID e \<and> \<not> ob_Published r"
    by (auto simp: unpublished_def outbox_event_def)
qed

lemma fetchBatch_works:
  assumes "\<And>n. e_fault (pe_env penv) n = Works" "\<And>n i. \<not> e_locked (pe_env penv) n i" "0 \<le> pe_batchSize penv"
  shows "\<exists>w'. fetchBatch penv w = (Inr (take (nat (pe_batchSize penv)) (unpublished (w_db w))), w')"
  using assms(3)
  by (simp add: fetchBatch_def in_tx_def bind_ok_def OutboxRepo_FetchUnpublishedBatch_def statement_def commit_def assms(1,2)
      return_ok_def unpublished_def take_map)

lemma publish_cycle_complete:
  assumes "db_ok (w_db w)" "\<And>n. e_fault (pe_env penv) n = Works" "\<And>n i. \<not> e_locked (pe_env penv) n i"
    and "\<And>n. fst (pe_xadd penv n) = Works" "0 \<le> pe_batchSize penv" "PublishOnce penv w = ((n, err), w')"
  shows "let batch = take (nat (pe_batchSize penv)) (unpublished (w_db w)) in
    err = None \<and> n = length batch \<and> entries w' = entries w @ map entry_of batch \<and>
    w_db w' = mark_db (map oe_ID batch) (w_db w)"
proof -
  let ?batch = "take (nat (pe_batchSize penv)) (unpublished (w_db w))"
  obtain w1 where f: "fetchBatch penv w = (Inr ?batch, w1)" using fetchBatch_works [OF assms(2,3,5)] by blast
  note w1 = fetchBatch_step [OF f]
  have rows: "\<forall>e\<in>set ?batch. \<exists>r\<in>set (db_outbox (w_db w1)). ob_ID r = oe_ID e \<and> \<not> ob_Published r"
    using unpublished_rows(2) [OF assms(1)] w1 by (metis in_set_takeD)
  have "distinct (map oe_ID ?batch)" using unpublished_rows(1) [OF assms(1)] by (metis distinct_take take_map)
  then have "fst (publish_all penv ?batch 0 w1) = (length ?batch, None)"
    using publish_all_works [OF assms(2-4) rows, of 0] by simp
  then have p: "publish_all penv ?batch 0 w1 = ((length ?batch, None), w')" and n: "n = length ?batch" "err = None"
    using assms(6) f by (auto simp: PublishOnce_def split: if_splits)
  from publish_all_pass [OF p] obtain sent where "subseq sent ?batch" "length sent = length ?batch"
      "entries w' = entries w1 @ map entry_of sent" "w_db w' = mark_db (map oe_ID sent) (w_db w1)"
    by (auto simp: pass_def)
  moreover from this have "sent = ?batch" by (simp add: subseq_same_length)
  ultimately show ?thesis using w1 n by (simp add: Let_def)
qed

section \<open>Nothing marked without being sent\<close>

definition all_delivered :: "PWorld \<Rightarrow> bool" where
  "all_delivered w \<longleftrightarrow> (\<forall>r\<in>set (db_outbox (w_db w)). ob_Published r \<longrightarrow> (ob_StreamName r, ob_Payload r) \<in> set (entries w))"

lemma db_ok_mark: "db_ok d \<Longrightarrow> db_ok (mark_db ids d)"
  using mark_rows_ids [of ids "db_outbox d"] mark_rows_below [of "db_outbox d" "db_outboxSeq d" ids]
  by (simp add: db_ok_def mark_db_def)

lemma pass_delivers:
  assumes "pass (unpublished (w_db w)) n err w w'" "db_ok (w_db w)" "all_delivered w"
  shows "db_ok (w_db w') \<and> all_delivered w'"
proof -
  from assms(1) obtain sent torn where p: "subseq (sent @ torn) (unpublished (w_db w))"
      "entries w' = entries w @ map entry_of (sent @ torn)" "w_db w' = mark_db (map oe_ID sent) (w_db w)"
    unfolding pass_def by blast
  have sent: "set sent \<subseteq> set (unpublished (w_db w))" using p(1) by (auto elim: list_emb_set)
  have "(ob_StreamName r, ob_Payload r) \<in> set (entries w')"
    if r: "r \<in> set (db_outbox (w_db w))" and m: "ob_Published r \<or> ob_ID r \<in> set (map oe_ID sent)" for r
  proof (cases "ob_Published r")
    case False
    then obtain e where e: "e \<in> set sent" "oe_ID e = ob_ID r" using m by auto
    with sent obtain r' where "r' \<in> set (db_outbox (w_db w))" "e = outbox_event r'" by (auto simp: unpublished_def)
    moreover from this have "r' = r"
      using e(2) r assms(2) by (auto simp: db_ok_def outbox_event_def dest: inj_onD [OF distinct_map [THEN iffD1, THEN conjunct2]])
    ultimately have "entry_of e = (ob_StreamName r, ob_Payload r)" by (simp add: entry_of_def outbox_event_def)
    then show ?thesis using e(1) by (force simp: p(2))
  qed (use assms(3) r in \<open>simp add: all_delivered_def p(2)\<close>)
  then have "all_delivered w'" by (auto simp: all_delivered_def p(3) mark_db_def mark_rows_def split: if_splits)
  then show ?thesis using db_ok_mark [OF assms(2)] p(3) by simp
qed

lemma publish_cycle:
  "pass (unpublished (w_db w)) (fst (fst (PublishOnce penv w))) (snd (fst (PublishOnce penv w))) w (snd (PublishOnce penv w))"
proof -
  obtain r w1 where f: "fetchBatch penv w = (r, w1)" by fastforce
  note w1 = fetchBatch_step [OF f]
  show ?thesis
  proof (cases r)
    case (Inl err)
    with f w1 show ?thesis by (simp add: PublishOnce_def pass_nothing)
  next
    case (Inr es)
    obtain n err w2 where p: "publish_all penv es 0 w1 = ((n, err), w2)" by (metis prod.collapse)
    have "pass (unpublished (w_db w)) n err w w2"
      using pass_from [OF _ _ pass_order [OF publish_all_pass [OF p]]] w1 Inr by simp
    with p Inr f w1 show ?thesis by (auto simp: PublishOnce_def)
  qed
qed

section \<open>A publisher for the witnesses\<close>

definition publisher_env :: PEnv where
  "publisher_env = \<lparr>pe_env = quiet_env, pe_xadd = (\<lambda>n. (Works, replicate n CHR ''1'')), pe_ctxDone = (\<lambda>n. 20 < n), pe_batchSize = 10\<rparr>"

text \<open>Two queued events, the older one with the smaller id although its row comes last.\<close>

definition publisher_world :: PWorld where
  "publisher_world = \<lparr>w_db = sample_db\<lparr>db_outboxSeq := 3, db_outbox :=
       [\<lparr>ob_ID = 2, ob_StreamName = ''orders'', ob_Payload = ''cancel 7'', ob_Published = False\<rparr>,
        \<lparr>ob_ID = 1, ob_StreamName = ''orders'', ob_Payload = ''new 7'', ob_Published = False\<rparr>]\<rparr>,
     w_step = 10, pw_stream = []\<rparr>"

lemma publisher_world_ok: "db_ok (w_db publisher_world)" "all_delivered publisher_world"
  by (simp_all add: publisher_world_def all_delivered_def sample_db_def db_ok_def wallet_checks_def order_row_ok_def status_enum_def
      row_of_order_def)

section \<open>Properties\<close>

text \<open>
  C29: what one publishing cycle does, whatever fails: it sends unpublished rows to their streams in the order
  of their ids, each at most once, and marks as published only rows it sent; nothing else in the database
  changes. Without an error every sent row is marked and counted. With an error at most one row was
  sent without staying marked (it will be sent again), or one was marked without being counted.
\<close>

theorem PublishOnce_pass:
  assumes "PublishOnce penv w = ((n, err), w')"
  shows "\<exists>sent torn. subseq (sent @ torn) (unpublished (w_db w)) \<and> length torn \<le> 1 \<and>
    entries w' = entries w @ map entry_of (sent @ torn) \<and> w_db w' = mark_db (map oe_ID sent) (w_db w) \<and>
    (if err = None then torn = [] \<and> n = length sent else length sent = n \<or> length sent = Suc n \<and> torn = [])"
  using publish_cycle [of w penv] assms by (simp add: pass_def)

theorem PublishOnce_pass_witness:
  "\<exists>n err w' sent torn. PublishOnce publisher_env publisher_world = ((n, err), w') \<and>
     subseq (sent @ torn) (unpublished (w_db publisher_world)) \<and> entries w' = map entry_of (sent @ torn)"
proof -
  obtain n err w' where p: "PublishOnce publisher_env publisher_world = ((n, err), w')" by (metis prod.collapse)
  from PublishOnce_pass [OF p] p show ?thesis by (auto simp: publisher_world_def entries_def)
qed

text \<open>
  A cycle without faults and without a competing publisher makes progress: the first \<open>batchSize\<close>
  unpublished rows, in id order, are sent, marked and counted, and no others.
\<close>

theorem PublishOnce_complete:
  assumes "db_ok (w_db w)" "\<And>n. e_fault (pe_env penv) n = Works" "\<And>n i. \<not> e_locked (pe_env penv) n i"
    and "\<And>n. fst (pe_xadd penv n) = Works" "0 \<le> pe_batchSize penv" "PublishOnce penv w = ((n, err), w')"
  shows "let batch = take (nat (pe_batchSize penv)) (unpublished (w_db w)) in
    err = None \<and> n = length batch \<and> entries w' = entries w @ map entry_of batch \<and>
    w_db w' = mark_db (map oe_ID batch) (w_db w)"
  by (rule publish_cycle_complete [OF assms])

theorem PublishOnce_complete_witness:
  "\<exists>err w'. PublishOnce publisher_env publisher_world = ((2, err), w') \<and>
     entries w' = [(''orders'', ''new 7''), (''orders'', ''cancel 7'')]"
proof -
  obtain n err w' where p: "PublishOnce publisher_env publisher_world = ((n, err), w')" by (metis prod.collapse)
  have "unpublished (w_db publisher_world) = [\<lparr>oe_ID = 1, oe_StreamName = ''orders'', oe_Payload = ''new 7''\<rparr>,
      \<lparr>oe_ID = 2, oe_StreamName = ''orders'', oe_Payload = ''cancel 7''\<rparr>]" "entries publisher_world = []"
    by code_simp+
  with PublishOnce_complete [OF publisher_world_ok(1) _ _ _ _ p] p show ?thesis
    by (simp add: publisher_env_def quiet_env_def Let_def entry_of_def)
qed

text \<open>
  No published event is lost: if every row marked published has its entry in the stream when the publisher
  starts, this still holds whenever the publisher's loop ends, and it ends only by cancellation.
\<close>

theorem PublisherRun_delivers:
  assumes "PublisherRun penv w = Some (e, w')" "db_ok (w_db w)" "all_delivered w"
  shows "e = CtxCancelled \<and> db_ok (w_db w') \<and> all_delivered w'"
proof -
  have "db_ok (w_db w) \<longrightarrow> all_delivered w \<longrightarrow> fst (e, w') = CtxCancelled \<and> db_ok (w_db (snd (e, w'))) \<and> all_delivered (snd (e, w'))"
  proof (rule PublisherRun.raw_induct [OF _ assms(1), of "\<lambda>_ w z. db_ok (w_db w) \<longrightarrow> all_delivered w \<longrightarrow>
        fst z = CtxCancelled \<and> db_ok (w_db (snd z)) \<and> all_delivered (snd z)"], goal_cases)
    case (1 run penv w z)
    show ?case
    proof (cases "pe_ctxDone penv (w_step w)")
      case False
      with 1(2) have "run penv (snd (PublishOnce penv w)) = Some z" by simp
      from 1(1) [OF this] show ?thesis using pass_delivers [OF publish_cycle] by blast
    qed (use 1(2) in auto)
  qed
  with assms(2,3) show ?thesis by simp
qed

theorem PublisherRun_delivers_witness:
  "\<exists>w'. PublisherRun publisher_env publisher_world = Some (CtxCancelled, w') \<and> all_delivered w'"
proof -
  have "PublisherRun publisher_env publisher_world \<noteq> None" by code_simp
  then obtain e w' where r: "PublisherRun publisher_env publisher_world = Some (e, w')" by auto
  from PublisherRun_delivers [OF r publisher_world_ok] r show ?thesis by simp
qed

end
