(* ===== verification/System.thy ===== *)
theory System
  imports Matcher_Provenance Outbox_Publisher Http_Properties Event_Json
begin

text \<open>
  The processes together: API, outbox publisher and matcher on one database and one stream, as a step relation. A
  step is one transaction of one process with its effects outside the database (a stream entry, the book in
  memory), taken at any time, under any faults, or the loss of a process's memory. The invariants hold in every
  reachable state.
\<close>

section \<open>What a request does to the tables\<close>

definition cancel_queued :: "Env \<Rightarrow> string \<Rightarrow> DB \<Rightarrow> DB \<Rightarrow> bool" where
  "cancel_queued env sn d d' \<longleftrightarrow> (\<exists>ord u n p p'.
     e_marshal env ((cancel_event ord u)\<lparr>ev_TraceParent := fst (e_trace env n), ev_TraceState := snd (e_trace env n)\<rparr>) = Some p \<and>
     e_jsonb env p = Some p' \<and>
     d' = d\<lparr>db_outbox := db_outbox d @ [\<lparr>ob_ID = db_outboxSeq d, ob_StreamName = sn, ob_Payload = p', ob_Published = False\<rparr>],
            db_outboxSeq := db_outboxSeq d + 1\<rparr>)"

lemma Place_effect:
  assumes "Place env sn inp w = (r, w')" "db_ok (w_db w)"
  shows "same_tables (w_db w) (w_db w') \<or> validatePlaceOrderInput inp = None \<and> (\<exists>ord. placed env sn inp ord (w_db w) (w_db w'))"
proof -
  from Place_cases [OF assms(1)] consider "w_db w' = w_db w"
    | w1 where "validatePlaceOrderInput inp = None" "w_db w1 = w_db w" "in_tx env (place_tx env sn inp) w1 = (r, w')" by auto
  then show ?thesis
  proof cases
    case 2
    have ok: "db_ok (w_db (tick w1))" using assms(2) 2(2) by simp
    have eff: "\<exists>ord. placed env sn inp ord (w_db w) (w_db (tick w2))" if "place_tx env sn inp (tick w1) = (Inr (Commits x), w2)" for x w2
      using place_tx_Inr [OF that ok] 2(2) by auto
    show ?thesis
    proof (cases r)
      case (Inl e)
      from in_tx_error [OF 2(3) [unfolded Inl]] show ?thesis using eff 2(1,2) by metis
    next
      case (Inr ord)
      from in_tx_ok [OF 2(3) [unfolded Inr]] show ?thesis using eff 2(1,2) by (auto simp: rolled_back_def)
    qed
  qed simp
qed

lemma cancel_tx_Inr:
  assumes "cancel_tx env sn i u w = (Inr (Commits x), w')"
  shows "cancel_queued env sn (w_db w) (w_db w')"
proof -
  from assms obtain ord w1 where 1: "map_error (\<lambda>e. if e = PgOrderNotFound then ErrOrderNotFound else e) (OrderRepo_GetTx env i) w = (Inr ord, w1)"
    and 2: "queue_event env sn (cancel_event ord u) w1 = (Inr (), w')"
    unfolding cancel_tx_def bind_ok_Inr by (auto simp: bind_ok_Inr split: if_splits)
  have "w_db w1 = w_db w" using 1 by (auto simp: map_error_Inr OrderRepo_GetTx_def statement_Inr split: option.splits)
  with 2 show ?thesis unfolding queue_event_Inr cancel_queued_def by fastforce
qed

lemma Cancel_effect:
  assumes "CancelService env sn i u w = (r, w')"
  shows "same_tables (w_db w) (w_db w') \<or> cancel_queued env sn (w_db w) (w_db w')"
proof (cases r)
  case (Inl e)
  from in_tx_error [OF assms [unfolded Inl CancelService_def]] show ?thesis using cancel_tx_Inr [of env sn i u "tick w"] by auto
next
  case (Inr x)
  from in_tx_ok [OF assms [unfolded Inr CancelService_def]] show ?thesis
    using cancel_tx_Inr [of env sn i u "tick w"] by (auto simp: rolled_back_def)
qed

lemma error_worlds: "place_error e w = (a, w') \<Longrightarrow> w' = w" "cancel_error e w = (a, w') \<Longrightarrow> w' = w"
  using place_error_db(1) [of e w] cancel_error_db(1) [of e w] by simp_all

lemma PlaceOrderH_effect:
  assumes "PlaceOrderH henv rq w = (a, w')"
  shows "w' = w \<or> (\<exists>req r. he_validatePlace henv req = None \<and> Place (he_env henv) (he_streamName henv) (place_input henv req) w = (r, w'))"
  using assms
  by (auto simp: PlaceOrderH_def writeError_def writeJSON_def split: option.splits prod.splits sum.splits dest!: error_worlds(1))

lemma CancelOrderH_effect:
  assumes "CancelOrderH henv p rq w = (a, w')"
  shows "w' = w \<or> (\<exists>i u r. CancelService (he_env henv) (he_streamName henv) i u w = (r, w'))"
  using assms
  by (auto simp: CancelOrderH_def writeError_def writeJSON_def split: option.splits prod.splits sum.splits dest!: error_worlds(2))

lemma serve_effect:
  assumes "serve henv rq w = (rsp, w')" "db_ok (w_db w)"
  shows "same_tables (w_db w) (w_db w') \<or> cancel_queued (he_env henv) (he_streamName henv) (w_db w) (w_db w') \<or>
    (\<exists>req ord. he_validatePlace henv req = None \<and> validatePlaceOrderInput (place_input henv req) = None \<and>
       placed (he_env henv) (he_streamName henv) (place_input henv req) ord (w_db w) (w_db w'))"
proof -
  obtain rid w1 where c: "CorrelationID henv rq w = (rid, w1)" by fastforce
  then have w1: "w_db w1 = w_db w" by (rule CorrelationID_db)
  show ?thesis
  proof (cases "he_match henv (rq_method rq) (rq_path rq)")
    case None
    then show ?thesis using assms(1) c w1 by (auto simp: serve_def)
  next
    case (Some rt)
    obtain a w2 where d: "dispatch henv rt rq w1 = (a, w2)" by fastforce
    have w': "w' = w2" using assms(1) c Some d by (auto simp: serve_def split: prod.splits)
    consider "rt = PostOrders" | p where "rt = DeleteOrder p" | "rt \<noteq> PostOrders" "\<forall>p. rt \<noteq> DeleteOrder p" by blast
    then show ?thesis
    proof cases
      case 1
      then have h: "PlaceOrderH henv rq w1 = (a, w2)" using d by (simp add: dispatch_def)
      then show ?thesis using PlaceOrderH_effect [OF h] Place_effect w1 w' assms(2) by (metis same_tables_refl(1))
    next
      case (2 pp)
      then have h: "CancelOrderH henv pp rq w1 = (a, w2)" using d by (simp add: dispatch_def)
      then show ?thesis using CancelOrderH_effect [OF h] Cancel_effect w1 w' by (metis same_tables_refl(1))
    next
      case 3
      then have "w_db w2 = w_db w1" using reads_dispatch [OF 3, of henv rq w1] d by simp
      then show ?thesis using w1 w' by simp
    qed
  qed
qed


lemma serve_keeps_schema:
  assumes "serve henv rq w = (rsp, w')" "db_ok (w_db w)"
  shows "db_ok (w_db w')"
proof -
  obtain rid w1 where c: "CorrelationID henv rq w = (rid, w1)" by fastforce
  then have w1: "w_db w1 = w_db w" by (rule CorrelationID_db)
  have "db_ok (w_db (snd (dispatch henv rt rq w1)))" for rt
  proof (cases "rt = PostOrders \<or> (\<exists>p. rt = DeleteOrder p)")
    case True
    obtain a w2 where d: "dispatch henv rt rq w1 = (a, w2)" by fastforce
    have "w2 = w1 \<or> (\<exists>inp r. Place (he_env henv) (he_streamName henv) inp w1 = (r, w2)) \<or>
        (\<exists>i u r. CancelService (he_env henv) (he_streamName henv) i u w1 = (r, w2))"
    proof (cases "rt = PostOrders")
      case True
      then have "PlaceOrderH henv rq w1 = (a, w2)" using d by (simp add: dispatch_def)
      then show ?thesis using PlaceOrderH_effect by blast
    next
      case False
      then obtain p where "rt = DeleteOrder p" using True by blast
      then have "CancelOrderH henv p rq w1 = (a, w2)" using d by (simp add: dispatch_def)
      then show ?thesis using CancelOrderH_effect by blast
    qed
    then have "db_ok (w_db w2)"
      using safe_place safe_cancel assms(2) w1 unfolding schema_safe_def keeps_schema_def by (metis snd_conv)
    then show ?thesis using d by simp
  next
    case False
    then show ?thesis using reads_dispatch [of rt henv rq w1] w1 assms(2) by auto
  qed
  then show ?thesis using assms c w1 by (auto simp: serve_def split: option.splits prod.splits) (metis snd_conv)
qed

section \<open>Steps\<close>

text \<open>
  What the processes share, the publisher's batch in progress, and the matcher's memory while it runs: the book and
  the \<open>bookDirty\<close> flag (a batch empties the wallet cache, whatever it holds).
\<close>

record System =
  sy_db :: DB
  sy_stream :: "StreamEntry list"
  sy_fetched :: "OutboxEvent list"
  sy_matcher :: "(Book \<times> bool) option"

record SysConfig =
  sc_uuidText :: "uuid \<Rightarrow> string"
  sc_uuidParse :: "string \<Rightarrow> uuid option"
  sc_stream :: string

text \<open>
  What every process is run with: the JSON codec, a JSONB column, scans that return each row once, UTF-8 trace strings.
  Faults, clocks, fresh ids and locks are arbitrary, and may differ from step to step.
\<close>

definition env_ok :: "SysConfig \<Rightarrow> Env \<Rightarrow> bool" where
  "env_ok cfg env \<longleftrightarrow> e_marshal env = (\<lambda>ev. Some (MarshalEvent (sc_uuidText cfg) ev)) \<and>
     e_unmarshal env = UnmarshalEvent (sc_uuidParse cfg) \<and> jsonb_ok (e_jsonb env) \<and> scans_rows env \<and>
     (\<forall>n. valid_utf8 (fst (e_trace env n)) \<and> valid_utf8 (snd (e_trace env n)))"

definition api_ok :: "SysConfig \<Rightarrow> HEnv \<Rightarrow> bool" where
  "api_ok cfg henv \<longleftrightarrow> env_ok cfg (he_env henv) \<and> he_streamName henv = sc_stream cfg \<and>
     (\<forall>req. he_validatePlace henv req = None \<longrightarrow> place_tags henv req)"

definition matcher_ok :: "SysConfig \<Rightarrow> MEnv \<Rightarrow> bool" where
  "matcher_ok cfg menv \<longleftrightarrow> env_ok cfg (me_env menv) \<and> me_streamName menv = sc_stream cfg"

text \<open>Redis hands out entries of the stream; one that was trimmed meanwhile comes without its values.\<close>

definition delivered :: "SysConfig \<Rightarrow> System \<Rightarrow> XMessage list \<Rightarrow> bool" where
  "delivered cfg s msgs \<longleftrightarrow> list_all (\<lambda>m. list_ex (\<lambda>se. se_Stream se = sc_stream cfg \<and> se_ID se = xm_ID m \<and>
     (xm_Payload m = None \<or> xm_Payload m = Some (se_Payload se))) (sy_stream s)) msgs"

definition api_world :: "System \<Rightarrow> nat \<Rightarrow> World" where
  "api_world s n = \<lparr>w_db = sy_db s, w_step = n\<rparr>"

definition publisher_view :: "System \<Rightarrow> nat \<Rightarrow> PWorld" where
  "publisher_view s n = \<lparr>w_db = sy_db s, w_step = n, pw_stream = sy_stream s\<rparr>"

definition matcher_view :: "System \<Rightarrow> Book \<Rightarrow> bool \<Rightarrow> Wallet list \<Rightarrow> nat \<Rightarrow> MWorld" where
  "matcher_view s b dirty c n = \<lparr>w_db = sy_db s, w_step = n, mw_book = b, mw_cache = c, mw_bookDirty = dirty\<rparr>"

text \<open>The matcher after a call: dead after a panic, gone when the call never returns.\<close>

fun survives :: "app_error + 'a \<Rightarrow> bool" where
  "survives (Inl (Panics p)) = False"
| "survives (Inl NeverReturns) = False"
| "survives _ = True"

definition after_call :: "app_error + 'a \<Rightarrow> MWorld \<Rightarrow> System \<Rightarrow> System" where
  "after_call r w' s = s\<lparr>sy_db := w_db w', sy_matcher := (if survives r then Some (mw_book w', mw_bookDirty w') else None)\<rparr>"

inductive step :: "SysConfig \<Rightarrow> System \<Rightarrow> System \<Rightarrow> bool" for cfg where
  request: "api_ok cfg henv \<Longrightarrow> serve henv rq (api_world s n) = (rsp, w') \<Longrightarrow> step cfg s (s\<lparr>sy_db := w_db w'\<rparr>)"
| fetch_batch: "env_ok cfg (pe_env penv) \<Longrightarrow> sy_fetched s = [] \<Longrightarrow> fetchBatch penv (publisher_view s n) = (Inr es, w') \<Longrightarrow>
    step cfg s (s\<lparr>sy_db := w_db w', sy_fetched := es\<rparr>)"
| publish_next: "env_ok cfg (pe_env penv) \<Longrightarrow> sy_fetched s = e # es \<Longrightarrow> publishAndMarkOne penv e (publisher_view s n) = (r, w') \<Longrightarrow>
    step cfg s (s\<lparr>sy_db := w_db w', sy_stream := pw_stream w', sy_fetched := (if isl r then [] else es)\<rparr>)"
| apply_batch: "matcher_ok cfg menv \<Longrightarrow> sy_matcher s = Some (b, dirty) \<Longrightarrow> delivered cfg s msgs \<Longrightarrow>
    processMessages menv msgs (matcher_view s b dirty c n) = (r, w') \<Longrightarrow> step cfg s (after_call r w' s)"
| resync: "matcher_ok cfg menv \<Longrightarrow> sy_matcher s = Some (b, dirty) \<Longrightarrow> resyncBook menv (matcher_view s b dirty c n) = (r, w') \<Longrightarrow>
    step cfg s (after_call r (w'\<lparr>mw_bookDirty := dirty \<and> isl r\<rparr>) s)"
| start_matcher: "env_ok cfg env \<Longrightarrow> sy_matcher s = None \<Longrightarrow> RecoverBook env (api_world s n) = (Inr b, w') \<Longrightarrow>
    step cfg s (s\<lparr>sy_matcher := Some (b, False)\<rparr>)"
| publisher_stops: "step cfg s (s\<lparr>sy_fetched := []\<rparr>)"
| matcher_stops: "step cfg s (s\<lparr>sy_matcher := None\<rparr>)"

inductive_cases stepE: "step cfg s s'"

inductive runs :: "SysConfig \<Rightarrow> System \<Rightarrow> System \<Rightarrow> bool" for cfg where
  runs_refl: "runs cfg s s"
| runs_step: "runs cfg s s' \<Longrightarrow> step cfg s' s'' \<Longrightarrow> runs cfg s s''"

text \<open>The state after the migrations and the seed: users and wallets, nothing traded yet.\<close>

definition fresh_system :: "System \<Rightarrow> bool" where
  "fresh_system s \<longleftrightarrow> db_ok (sy_db s) \<and> db_orders (sy_db s) = [] \<and> db_trades (sy_db s) = [] \<and> db_processed (sy_db s) = [] \<and>
     db_outbox (sy_db s) = [] \<and> sy_stream s = [] \<and> sy_fetched s = [] \<and> sy_matcher s = None"

text \<open>One rule turns an invariant of the steps into one of the runs.\<close>

lemma runs_invariant:
  assumes "runs cfg s s'" "I s" "\<And>t t'. I t \<Longrightarrow> step cfg t t' \<Longrightarrow> I t'"
  shows "I s'"
  using assms(1,2) by (induction rule: runs.induct) (auto intro: assms(3))

end
