(* ===== verification/System_Invariant.thy ===== *)
theory System_Invariant
  imports System
begin

text \<open>
  The invariant of the whole system, kept by every step: the schema's constraints, every order accounted for by an
  event, every event about an order of the table, nothing published that was not queued and nothing marked
  published that is not in the stream, a book of known orders, and totals that never change.
\<close>

section \<open>The invariant\<close>

definition row_event :: "SysConfig \<Rightarrow> OutboxRow \<Rightarrow> StreamEvent option" where
  "row_event cfg ob = UnmarshalEvent (sc_uuidParse cfg) (ob_Payload ob)"

text \<open>An order is accounted for by a queued event that decodes to it.\<close>

definition accounted :: "SysConfig \<Rightarrow> DB \<Rightarrow> uuid \<times> uuid \<times> Side \<times> OrderType \<times> int64 option \<times> int64 \<Rightarrow> bool" where
  "accounted cfg d k \<longleftrightarrow> (\<exists>ob\<in>set (db_outbox d). ob_StreamName ob = sc_stream cfg \<and>
     (\<exists>ev. row_event cfg ob = Some ev \<and> ev_Type ev = EventTypeNewOrder \<and> static (order_of_event ev 0) = k))"

definition tables_ok :: "SysConfig \<Rightarrow> DB \<Rightarrow> bool" where
  "tables_ok cfg d \<longleftrightarrow> db_ok d \<and> rows_known (placed_orders d) d \<and>
     (\<forall>ob\<in>set (db_outbox d). \<exists>ev. row_event cfg ob = Some ev \<and> event_known (placed_orders d) ev) \<and>
     (\<forall>k\<in>placed_orders d. accounted cfg d k)"

definition stream_ok :: "System \<Rightarrow> bool" where
  "stream_ok s \<longleftrightarrow>
     (\<forall>e\<in>set (sy_fetched s). e \<in> outbox_event ` set (db_outbox (sy_db s))) \<and>
     (\<forall>se\<in>set (sy_stream s). \<exists>ob\<in>set (db_outbox (sy_db s)). ob_StreamName ob = se_Stream se \<and> ob_Payload ob = se_Payload se) \<and>
     (\<forall>ob\<in>set (db_outbox (sy_db s)). ob_Published ob \<longrightarrow> (\<exists>se\<in>set (sy_stream s). se_Stream se = ob_StreamName ob \<and> se_Payload se = ob_Payload ob)) \<and>
     set (db_processed (sy_db s)) \<subseteq> se_ID ` set (sy_stream s)"

definition memory_ok :: "System \<Rightarrow> bool" where
  "memory_ok s \<longleftrightarrow> (\<forall>b dirty. sy_matcher s = Some (b, dirty) \<longrightarrow> known.stored (placed_orders (sy_db s)) b)"

definition system_ok :: "SysConfig \<Rightarrow> int \<Rightarrow> int \<Rightarrow> System \<Rightarrow> bool" where
  "system_ok cfg B V s \<longleftrightarrow> tables_ok cfg (sy_db s) \<and> stream_ok s \<and> memory_ok s \<and>
     wallet_total brl (sy_db s) = B \<and> wallet_total vib (sy_db s) = V"

section \<open>Changes of the tables\<close>

lemma event_known_mono: "K \<subseteq> K' \<Longrightarrow> event_known K ev \<Longrightarrow> event_known K' ev"
  by (auto simp: event_known_def known_order_def)

lemma same_tablesD:
  assumes "same_tables d d'"
  shows "db_wallets d' = db_wallets d" "db_orders d' = db_orders d" "db_trades d' = db_trades d" "db_processed d' = db_processed d"
    "db_outbox d' = db_outbox d"
  using assms unfolding same_tables_def by (cases d; cases d'; simp)+

lemma same_tables_ok:
  assumes "same_tables d d'" "db_ok d'" "tables_ok cfg d"
  shows "tables_ok cfg d'"
  using assms(2,3) same_tablesD [OF assms(1)]
  by (simp add: tables_ok_def rows_known_def placed_orders_def accounted_def)

lemma plain_events:
  assumes "valid_utf8 tp" "valid_utf8 ts"
  shows "plain_event ((cancel_event ord u)\<lparr>ev_TraceParent := tp, ev_TraceState := ts\<rparr>)"
    and "plain_order ord \<Longrightarrow> in64 (o_Quantity ord) \<Longrightarrow> (\<forall>p. o_PriceCents ord = Some p \<longrightarrow> in64 p) \<Longrightarrow>
      plain_event ((new_order_event ord)\<lparr>ev_TraceParent := tp, ev_TraceState := ts\<rparr>)"
  using assms
  by (auto simp: plain_event_def cancel_event_def new_order_event_def plain_order_def EventType_of_string_def Side_of_string_def Type_of_string_def
      in64_def MinInt64_def MaxInt64_def intro!: ascii_utf8)

lemma queued_event:
  assumes "env_ok cfg env" "uuid_text_ok (sc_uuidText cfg) (sc_uuidParse cfg)" "plain_event ev" "e_marshal env ev = Some p" "e_jsonb env p = Some p'"
  shows "UnmarshalEvent (sc_uuidParse cfg) p' = Some ev"
  using stored_event(1) [OF assms(3,2)] assms(1,4,5) by (auto simp: env_ok_def)

lemma cancel_queued_ok:
  assumes "cancel_queued env sn d d'" "env_ok cfg env" "uuid_text_ok (sc_uuidText cfg) (sc_uuidParse cfg)" "db_ok d'" "tables_ok cfg d"
  shows "tables_ok cfg d'"
proof -
  from assms(1) obtain ord u n p p' where q:
      "e_marshal env ((cancel_event ord u)\<lparr>ev_TraceParent := fst (e_trace env n), ev_TraceState := snd (e_trace env n)\<rparr>) = Some p" "e_jsonb env p = Some p'"
      "d' = d\<lparr>db_outbox := db_outbox d @ [\<lparr>ob_ID = db_outboxSeq d, ob_StreamName = sn, ob_Payload = p', ob_Published = False\<rparr>],
            db_outboxSeq := db_outboxSeq d + 1\<rparr>"
    unfolding cancel_queued_def by blast
  have "valid_utf8 (fst (e_trace env n))" "valid_utf8 (snd (e_trace env n))" using assms(2) by (simp_all add: env_ok_def)
  from queued_event [OF assms(2,3) plain_events(1) [OF this] q(1,2)]
  have "\<exists>ev. UnmarshalEvent (sc_uuidParse cfg) p' = Some ev \<and> event_known K ev" for K
    by (auto simp: event_known_def cancel_event_def)
  moreover have "placed_orders d' = placed_orders d" by (simp add: q(3) placed_orders_def)
  ultimately show ?thesis
    using assms(4,5) by (auto simp: tables_ok_def rows_known_def q(3) row_event_def accounted_def)
qed


lemma placedE:
  assumes "placed env sn inp ord d d'"
  obtains i t wal wal' n p p' where "ord = new_order inp i t" "find_row w_UserID (in_UserID inp) (db_wallets d) = Some wal" "reserve_for inp wal = Inr wal'"
    "e_marshal env ((new_order_event ord)\<lparr>ev_TraceParent := fst (e_trace env n), ev_TraceState := snd (e_trace env n)\<rparr>) = Some p" "e_jsonb env p = Some p'"
    "db_orders d' = db_orders d @ [row_of_order ord]" "db_wallets d' = write_rows w_UserID (in_UserID inp) (\<lambda>_. wal') (db_wallets d)"
    "db_outbox d' = db_outbox d @ [\<lparr>ob_ID = db_outboxSeq d, ob_StreamName = sn, ob_Payload = p', ob_Published = False\<rparr>]"
    "db_trades d' = db_trades d" "db_processed d' = db_processed d"
proof -
  from assms show thesis
    unfolding placed_def by (elim exE conjE) (rule that, assumption+, simp_all)
qed

lemma placed_static:
  assumes "placed env sn inp ord d d'" "validatePlaceOrderInput inp = None"
  shows "plain_order ord" "toOrder (row_of_order ord) = ord" "placed_orders d' = insert (static ord) (placed_orders d)"
proof -
  from assms(1) obtain i t where o: "ord = new_order inp i t" and os: "db_orders d' = db_orders d @ [row_of_order ord]"
    by (rule placedE)
  have "in_Side inp = SideBuy \<or> in_Side inp = SideSell" "in_Type inp = TypeLimit \<or> in_Type inp = TypeMarket"
    using assms(2) unfolding validate_None by (auto split: OrderType.splits)
  then show "plain_order ord" by (auto simp: o plain_order_def new_order_def)
  then show r: "toOrder (row_of_order ord) = ord" by (rule toOrder_row)
  show "placed_orders d' = insert (static ord) (placed_orders d)" by (simp add: placed_orders_def os r)
qed

lemma placed_ok:
  assumes "placed env (sc_stream cfg) (place_input henv req) ord d d'" "validatePlaceOrderInput (place_input henv req) = None"
    and "place_tags henv req" "env_ok cfg env" "uuid_text_ok (sc_uuidText cfg) (sc_uuidParse cfg)" "db_ok d'" "tables_ok cfg d"
  shows "tables_ok cfg d'"
proof -
  let ?inp = "place_input henv req"
  from assms(1) obtain i t n p p' where o: "ord = new_order ?inp i t"
    and q: "e_marshal env ((new_order_event ord)\<lparr>ev_TraceParent := fst (e_trace env n), ev_TraceState := snd (e_trace env n)\<rparr>) = Some p" "e_jsonb env p = Some p'"
    and d': "db_orders d' = db_orders d @ [row_of_order ord]" "db_trades d' = db_trades d"
      "db_outbox d' = db_outbox d @ [\<lparr>ob_ID = db_outboxSeq d, ob_StreamName = sc_stream cfg, ob_Payload = p', ob_Published = False\<rparr>]"
    by (rule placedE)
  note s = placed_static [OF assms(1,2)]
  have "inc_ok ord" unfolding o using assms(2) tags_in64(1,2) [OF assms(3)] by (intro new_order_inc_ok) simp_all
  then have c: "cheap ord" and i: "in64 (o_Quantity ord)" "\<forall>p. o_PriceCents ord = Some p \<longrightarrow> in64 p"
    using tags_in64 [OF assms(3)] by (auto simp: o new_order_def inc_ok_def order_ok_def cheap_def sane_def MaxInt64_def)
  have u: "valid_utf8 (fst (e_trace env n))" "valid_utf8 (snd (e_trace env n))" using assms(4) by (simp_all add: env_ok_def)
  define ev where "ev = (new_order_event ord)\<lparr>ev_TraceParent := fst (e_trace env n), ev_TraceState := snd (e_trace env n)\<rparr>"
  have e: "UnmarshalEvent (sc_uuidParse cfg) p' = Some ev"
    using queued_event [OF assms(4,5) plain_events(2) [OF u s(1) i] q] by (simp add: ev_def)
  have so: "static (order_of_event ev t) = static ord" "cheap (order_of_event ev t)" for t
    using c by (simp_all add: ev_def new_order_event_def order_of_event_def static_def cheap_def sane_def o new_order_def)
  let ?K = "placed_orders d" and ?K' = "placed_orders d'"
  have K: "?K \<subseteq> ?K'" "static ord \<in> ?K'" using s(3) by auto
  have "rows_known ?K' d'"
    using assms(6,7) c s(2) trade_known_mono [OF K(1)] by (auto simp: tables_ok_def rows_known_def db_ok_def d')
  moreover have "\<exists>ev. row_event cfg ob = Some ev \<and> event_known ?K' ev" if "ob \<in> set (db_outbox d')" for ob
    using that assms(7) event_known_mono [OF K(1)] so K(2) e
    by (auto simp: d' tables_ok_def row_event_def event_known_def known_order_def)
  moreover have "accounted cfg d' k" if "k \<in> ?K'" for k
  proof (cases "k = static ord")
    case True
    have "ev_Type ev = EventTypeNewOrder" by (simp add: ev_def new_order_event_def)
    then show ?thesis using so(1) e by (simp add: accounted_def d' row_event_def True)
  next
    case False
    then have "accounted cfg d k" using that s(3) assms(7) by (simp add: tables_ok_def)
    then show ?thesis by (auto simp: accounted_def d')
  qed
  ultimately show ?thesis using assms(6) by (simp add: tables_ok_def)
qed

text \<open>A reservation moves money within one wallet.\<close>

lemma placed_totals:
  assumes "placed env sn inp ord d d'" "validatePlaceOrderInput inp = None" "db_ok d"
    and "wallet_total brl d \<le> MaxInt64" "wallet_total vib d \<le> MaxInt64"
  shows "wallet_total brl d' = wallet_total brl d" "wallet_total vib d' = wallet_total vib d"
proof -
  from assms(1) obtain wal wal' where w: "find_row w_UserID (in_UserID inp) (db_wallets d) = Some wal" "reserve_for inp wal = Inr wal'"
    and d': "db_wallets d' = write_rows w_UserID (in_UserID inp) (\<lambda>_. wal') (db_wallets d)"
    by (rule placedE)
  have dist: "distinct (map w_UserID (db_wallets d))" using assms(3) by (simp add: db_ok_def)
  have mem: "wal \<in> set (db_wallets d)" using find_row_law [OF dist] w(1) by blast
  have c: "\<forall>x\<in>set (db_wallets d). 0 \<le> brl x \<and> 0 \<le> vib x" using assms(3) by (auto simp: db_ok_def wallet_checks_def brl_def vib_def)
  have "f wal \<le> sum_list (map f (db_wallets d))" if "\<forall>x\<in>set (db_wallets d). 0 \<le> f x" for f :: "Wallet \<Rightarrow> int"
    using member_le_sum_list [of "f wal" "map f (db_wallets d)"] mem that by auto
  then have "brl wal \<le> MaxInt64" "vib wal \<le> MaxInt64" using assms(4,5) c by (fastforce simp: wallet_total_def)+
  then have "wallet_ok wal" using mem assms(3) by (auto simp: wallet_ok_def db_ok_def wallet_checks_def brl_def vib_def)
  then have "wal' = reserved_wallet inp wal" using reserve_for_eq [OF assms(2) _ w(2)] by blast
  then have "brl wal' = brl wal" "vib wal' = vib wal"
    by (auto simp: reserved_wallet_def brl_def vib_def split: Side.splits option.splits)
  then show "wallet_total brl d' = wallet_total brl d" "wallet_total vib d' = wallet_total vib d"
    by (simp_all add: wallet_total_def d' wallets.sum_modify [OF dist w(1)])
qed

section \<open>The requests\<close>

text \<open>What a request can add: unpublished outbox rows, and orders.\<close>

definition queues :: "DB \<Rightarrow> DB \<Rightarrow> bool" where
  "queues d d' \<longleftrightarrow> db_processed d' = db_processed d \<and> placed_orders d \<subseteq> placed_orders d' \<and>
     (\<exists>rows. db_outbox d' = db_outbox d @ rows \<and> (\<forall>ob\<in>set rows. \<not> ob_Published ob))"

lemma queues_frame:
  assumes "queues (sy_db s) d" "stream_ok s" "memory_ok s"
  shows "stream_ok (s\<lparr>sy_db := d\<rparr>)" "memory_ok (s\<lparr>sy_db := d\<rparr>)"
proof -
  from assms(1) obtain rows where d: "db_processed d = db_processed (sy_db s)" "placed_orders (sy_db s) \<subseteq> placed_orders d"
    "db_outbox d = db_outbox (sy_db s) @ rows" "\<forall>ob\<in>set rows. \<not> ob_Published ob" unfolding queues_def by blast
  show "stream_ok (s\<lparr>sy_db := d\<rparr>)" using assms(2) d(1,3,4) unfolding stream_ok_def by auto
  show "memory_ok (s\<lparr>sy_db := d\<rparr>)" using assms(3) stored_mono [OF d(2)] by (auto simp: memory_ok_def)
qed

lemma request_ok:
  assumes "serve henv rq (api_world s n) = (rsp, w')" "api_ok cfg henv" "uuid_text_ok (sc_uuidText cfg) (sc_uuidParse cfg)"
    and "system_ok cfg B V s" "B \<le> MaxInt64" "V \<le> MaxInt64"
  shows "system_ok cfg B V (s\<lparr>sy_db := w_db w'\<rparr>)"
proof -
  let ?d = "sy_db s" and ?d' = "w_db w'"
  have ok: "tables_ok cfg ?d" "db_ok ?d" and tot: "wallet_total brl ?d = B" "wallet_total vib ?d = V"
    and st: "stream_ok s" "memory_ok s"
    using assms(4) by (simp_all add: system_ok_def tables_ok_def)
  have env: "env_ok cfg (he_env henv)" "he_streamName henv = sc_stream cfg"
    and tags: "he_validatePlace henv req = None \<Longrightarrow> place_tags henv req" for req
    using assms(2) by (simp_all add: api_ok_def)
  have w: "db_ok (w_db (api_world s n))" using ok(2) by (simp add: api_world_def)
  have ok': "db_ok ?d'" by (rule serve_keeps_schema [OF assms(1) w])
  have "tables_ok cfg ?d' \<and> queues ?d ?d' \<and> wallet_total brl ?d' = B \<and> wallet_total vib ?d' = V"
  proof -
    from serve_effect [OF assms(1) w] consider "same_tables ?d ?d'"
      | "cancel_queued (he_env henv) (sc_stream cfg) ?d ?d'"
      | req ord where "he_validatePlace henv req = None" "validatePlaceOrderInput (place_input henv req) = None"
          "placed (he_env henv) (sc_stream cfg) (place_input henv req) ord ?d ?d'"
      by (auto simp: api_world_def env(2))
    then show ?thesis
    proof cases
      case 1
      have "wallet_total f ?d' = wallet_total f ?d" for f by (simp add: wallet_total_def same_tablesD [OF 1])
      moreover have "queues ?d ?d'" by (simp add: queues_def placed_orders_def same_tablesD [OF 1])
      ultimately show ?thesis using same_tables_ok [OF 1 ok' ok(1)] tot by simp
    next
      case 2
      then have "queues ?d ?d'" "wallet_total f ?d' = wallet_total f ?d" for f
        by (auto simp: cancel_queued_def queues_def wallet_total_def placed_orders_def)
      then show ?thesis using cancel_queued_ok [OF 2 env(1) assms(3) ok' ok(1)] tot by simp
    next
      case (3 req ord)
      have "queues ?d ?d'"
        using 3(3) placed_static(3) [OF 3(3,2)] by (elim placedE) (simp add: queues_def subset_insertI)
      then show ?thesis
        using placed_ok [OF 3(3,2) tags [OF 3(1)] env(1) assms(3) ok' ok(1)] placed_totals [OF 3(3,2) ok(2)] tot assms(5,6) by simp
    qed
  qed
  then show ?thesis using queues_frame [OF _ st] by (simp add: system_ok_def)
qed

section \<open>The publisher\<close>

lemma publish_appends:
  assumes "publishAndMarkOne penv e w = (r, w')"
  shows "\<exists>more. pw_stream w' = pw_stream w @ more"
proof -
  obtain r1 w1 where b: "publish_tx penv e (tick w) = (r1, w1)" by fastforce
  then have "\<exists>more. pw_stream w1 = pw_stream w @ more"
    by (auto simp: publish_tx_def bind_ok_def Publish_def add_entry_def OutboxRepo_LockIfUnpublished_def OutboxRepo_MarkPublished_def statement_def
        return_ok_def tick_def split: if_splits sum.splits prod.splits fault.splits)
  then show ?thesis
    using assms b unfolding publishAndMarkOne_def in_tx_def
    by (auto simp: commit_def rolled_back_def tick_def split: if_splits sum.splits tx_exit.splits fault.splits)
qed

lemma mark_same_orders:
  "placed_orders (mark_db ids d) = placed_orders d" "rows_known K (mark_db ids d) = rows_known K d" "wallet_total f (mark_db ids d) = wallet_total f d"
  "db_processed (mark_db ids d) = db_processed d"
  by (simp_all add: mark_db_def placed_orders_def rows_known_def wallet_total_def)

lemma mark_outbox:
  "ob \<in> set (db_outbox (mark_db ids d)) \<longleftrightarrow>
     (\<exists>ob'\<in>set (db_outbox d). ob = (if ob_ID ob' \<in> set ids then ob'\<lparr>ob_Published := True\<rparr> else ob'))"
  by (auto simp: mark_db_def mark_rows_def)

lemma mark_keeps:
  assumes "ob \<in> set (db_outbox d)"
  shows "\<exists>ob'\<in>set (db_outbox (mark_db ids d)). ob_StreamName ob' = ob_StreamName ob \<and> ob_Payload ob' = ob_Payload ob \<and> outbox_event ob' = outbox_event ob"
proof (intro bexI)
  let ?ob = "if ob_ID ob \<in> set ids then ob\<lparr>ob_Published := True\<rparr> else ob"
  show "?ob \<in> set (db_outbox (mark_db ids d))" using assms by (auto simp: mark_db_def mark_rows_def)
  show "ob_StreamName ?ob = ob_StreamName ob \<and> ob_Payload ?ob = ob_Payload ob \<and> outbox_event ?ob = outbox_event ob"
    by (simp add: outbox_event_def)
qed

lemma mark_tables_ok:
  assumes "tables_ok cfg d"
  shows "tables_ok cfg (mark_db ids d)"
proof -
  have "accounted cfg (mark_db ids d) k" if k: "accounted cfg d k" for k
  proof -
    from k obtain ob where ob: "ob \<in> set (db_outbox d)" "ob_StreamName ob = sc_stream cfg"
        "\<exists>ev. row_event cfg ob = Some ev \<and> ev_Type ev = EventTypeNewOrder \<and> static (order_of_event ev 0) = k"
      unfolding accounted_def by blast
    from mark_keeps [OF ob(1)] obtain ob' where "ob' \<in> set (db_outbox (mark_db ids d))" "ob_StreamName ob' = ob_StreamName ob" "ob_Payload ob' = ob_Payload ob"
      by blast
    then show ?thesis using ob(2,3) unfolding accounted_def row_event_def by metis
  qed
  moreover have "\<exists>ev. row_event cfg ob = Some ev \<and> event_known (placed_orders d) ev" if ob: "ob \<in> set (db_outbox (mark_db ids d))" for ob
  proof -
    from ob obtain ob' where "ob' \<in> set (db_outbox d)" "ob_Payload ob = ob_Payload ob'" unfolding mark_outbox by auto
    then show ?thesis using assms unfolding tables_ok_def row_event_def by metis
  qed
  ultimately show ?thesis using assms db_ok_mark by (simp add: tables_ok_def mark_same_orders)
qed

lemma publish_ok:
  assumes "publishAndMarkOne penv e (publisher_view s n) = (r, w')" "sy_fetched s = e # es" "system_ok cfg B V s"
  shows "system_ok cfg B V (s\<lparr>sy_db := w_db w', sy_stream := pw_stream w', sy_fetched := (if isl r then [] else es)\<rparr>)"
proof -
  let ?s' = "s\<lparr>sy_db := w_db w', sy_stream := pw_stream w', sy_fetched := (if isl r then [] else es)\<rparr>"
  have ok: "tables_ok cfg (sy_db s)" "stream_ok s" "memory_ok s" using assms(3) by (simp_all add: system_ok_def)
  obtain sent marked where "one_step e (publisher_view s n) w' sent marked"
    using publish_one_step [OF assms(1)] by (auto split: sum.splits)
  then have step: "marked \<longrightarrow> sent" "entries w' = entries (publisher_view s n) @ (if sent then [entry_of e] else [])"
      "w_db w' = mark_db (if marked then [oe_ID e] else []) (sy_db s)"
    by (auto simp: one_step_def publisher_view_def)
  obtain more where more: "pw_stream w' = sy_stream s @ more" using publish_appends [OF assms(1)] by (auto simp: publisher_view_def)
  then have ys: "map (\<lambda>se. (se_Stream se, se_Payload se)) more = (if sent then [entry_of e] else [])"
    using step(2) by (simp add: entries_def publisher_view_def)
  obtain row where row: "row \<in> set (db_outbox (sy_db s))" "e = outbox_event row" using ok(2) assms(2) by (auto simp: stream_ok_def)
  have dist: "distinct (map ob_ID (db_outbox (sy_db s)))" using ok(1) by (simp add: tables_ok_def db_ok_def)
  note keep = mark_keeps [of _ "sy_db s" "if marked then [oe_ID e] else []", folded step(3)]
  have st: "\<And>x. x \<in> set (sy_fetched s) \<Longrightarrow> x \<in> outbox_event ` set (db_outbox (sy_db s))"
      "\<And>se. se \<in> set (sy_stream s) \<Longrightarrow> \<exists>ob\<in>set (db_outbox (sy_db s)). ob_StreamName ob = se_Stream se \<and> ob_Payload ob = se_Payload se"
      "\<And>ob. ob \<in> set (db_outbox (sy_db s)) \<Longrightarrow> ob_Published ob \<Longrightarrow> \<exists>se\<in>set (sy_stream s). se_Stream se = ob_StreamName ob \<and> se_Payload se = ob_Payload ob"
    using ok(2) by (simp_all add: stream_ok_def)
  have "x \<in> outbox_event ` set (db_outbox (w_db w'))" if "x \<in> set (sy_fetched ?s')" for x
  proof -
    have "x \<in> set (sy_fetched s)" using that assms(2) by (auto split: if_splits)
    then obtain ob where "ob \<in> set (db_outbox (sy_db s))" "x = outbox_event ob" using st(1) by blast
    then show ?thesis using keep [of ob] by (metis imageI)
  qed
  moreover have "\<exists>ob\<in>set (db_outbox (w_db w')). ob_StreamName ob = se_Stream se \<and> ob_Payload ob = se_Payload se" if "se \<in> set (pw_stream w')" for se
  proof -
    have "se \<in> set (sy_stream s) \<or> (se_Stream se, se_Payload se) \<in> set (if sent then [entry_of e] else [])"
      using that more unfolding ys [symmetric] by auto
    then have "\<exists>ob\<in>set (db_outbox (sy_db s)). ob_StreamName ob = se_Stream se \<and> ob_Payload ob = se_Payload se"
      using st(2) row by (auto simp: entry_of_def outbox_event_def split: if_splits)
    then obtain ob where ob: "ob \<in> set (db_outbox (sy_db s))" "ob_StreamName ob = se_Stream se" "ob_Payload ob = se_Payload se" by blast
    then show ?thesis using keep [OF ob(1)] by (simp only: ob) blast
  qed
  moreover have "\<exists>se\<in>set (pw_stream w'). se_Stream se = ob_StreamName ob \<and> se_Payload se = ob_Payload ob"
    if ob: "ob \<in> set (db_outbox (w_db w'))" "ob_Published ob" for ob
  proof -
    obtain ob' where ob': "ob' \<in> set (db_outbox (sy_db s))"
        "ob = (if ob_ID ob' \<in> set (if marked then [oe_ID e] else []) then ob'\<lparr>ob_Published := True\<rparr> else ob')"
      using ob(1) unfolding step(3) mark_outbox by blast
    show ?thesis
    proof (cases "marked \<and> ob_ID ob' = oe_ID e")
      case True
      then have "ob' = row" using dist ob'(1) row by (auto simp: outbox_event_def distinct_map dest: inj_onD)
      moreover have "entry_of e \<in> set (map (\<lambda>se. (se_Stream se, se_Payload se)) more)" using ys True step(1) by simp
      ultimately show ?thesis using more ob'(2) row(2) by (auto simp: entry_of_def outbox_event_def)
    next
      case False
      then have "ob = ob'" using ob'(2) by (auto split: if_splits)
      then obtain se where "se \<in> set (sy_stream s)" "se_Stream se = ob_StreamName ob" "se_Payload se = ob_Payload ob"
        using st(3) [OF ob'(1)] ob(2) by blast
      then show ?thesis using more by auto
    qed
  qed
  moreover have "set (db_processed (w_db w')) \<subseteq> se_ID ` set (pw_stream w')"
    using ok(2) more by (auto simp: stream_ok_def step(3) mark_same_orders)
  ultimately have "stream_ok ?s'" by (simp add: stream_ok_def)
  moreover have "memory_ok ?s'" using ok(3) by (simp add: memory_ok_def step(3) mark_same_orders)
  moreover have "tables_ok cfg (w_db w')" unfolding step(3) by (rule mark_tables_ok [OF ok(1)])
  ultimately show ?thesis using assms(3) by (simp add: system_ok_def step(3) mark_same_orders)
qed

lemma fetch_ok:
  assumes "fetchBatch penv (publisher_view s n) = (Inr es, w')" "system_ok cfg B V s"
  shows "system_ok cfg B V (s\<lparr>sy_db := w_db w', sy_fetched := es\<rparr>)"
proof -
  have f: "w_db w' = sy_db s" "subseq es (unpublished (sy_db s))"
    using fetchBatch_step [OF assms(1)] by (simp_all add: publisher_view_def)
  have "set es \<subseteq> set (unpublished (sy_db s))"
    by (rule subsetI) (rule list_emb_set [OF f(2)], assumption, simp)
  also have "\<dots> \<subseteq> outbox_event ` set (db_outbox (sy_db s))" by (auto simp: unpublished_def)
  finally have "x \<in> outbox_event ` set (db_outbox (sy_db s))" if "x \<in> set es" for x using that by blast
  then show ?thesis using assms(2) by (auto simp: system_ok_def stream_ok_def memory_ok_def f(1))
qed

section \<open>The matcher\<close>

lemma no_payload: "UnmarshalEvent uuidParse [] = None"
proof -
  have "parse_json [] = None" by code_simp
  then show ?thesis by (simp add: UnmarshalEvent_def Unmarshal_def)
qed

lemma delivered_entry:
  assumes "delivered cfg s msgs" "m \<in> set msgs"
  obtains se where "se \<in> set (sy_stream s)" "se_ID se = xm_ID m" "xm_Payload m = None \<or> xm_Payload m = Some (se_Payload se)"
  using assms unfolding delivered_def list_all_iff list_ex_iff by blast

lemma delivered_known:
  assumes "delivered cfg s msgs" "matcher_ok cfg menv" "tables_ok cfg (sy_db s)" "stream_ok s"
  shows "batch_known (placed_orders (sy_db s)) menv msgs"
  unfolding batch_known_def
proof (intro ballI allI impI)
  fix m ev assume m: "m \<in> set msgs" and ev: "message_event menv m = Some ev"
  obtain se where se: "se \<in> set (sy_stream s)" "xm_Payload m = None \<or> xm_Payload m = Some (se_Payload se)"
    using delivered_entry [OF assms(1) m] by blast
  have u: "e_unmarshal (me_env menv) = UnmarshalEvent (sc_uuidParse cfg)" using assms(2) by (simp add: matcher_ok_def env_ok_def)
  then have "UnmarshalEvent (sc_uuidParse cfg) (se_Payload se) = Some ev"
    using ev se(2) no_payload by (auto simp: message_event_def)
  moreover obtain ob where "ob \<in> set (db_outbox (sy_db s))" "ob_Payload ob = se_Payload se" using assms(4) se(1) unfolding stream_ok_def by blast
  ultimately show "event_known (placed_orders (sy_db s)) ev" using assms(3) unfolding tables_ok_def row_event_def by fastforce
qed

lemma processMessages_applies:
  assumes "processMessages menv msgs w = (r, w')" "msgs \<noteq> []"
  obtains r1 w1 where "applyBatch menv msgs w = (r1, w1)" "w_db w' = w_db w1" "mw_book w' = mw_book w1"
proof -
  obtain r1 w1 where b: "applyBatch menv msgs w = (r1, w1)" by fastforce
  then have "w_db w' = w_db w1 \<and> mw_book w' = mw_book w1"
    using assms by (auto simp: processMessages_def bind_ok_def Ack_def return_ok_def tick_def split: if_splits sum.splits)
  then show thesis using that b by blast
qed

lemma same_outbox_ok:
  assumes "tables_ok cfg d" "db_ok d'" "rows_known (placed_orders d) d'" "db_outbox d' = db_outbox d"
  shows "tables_ok cfg d'" "placed_orders d' = placed_orders d"
proof -
  show p: "placed_orders d' = placed_orders d" using assms(3) by (simp add: rows_known_def)
  show "tables_ok cfg d'" using assms by (simp add: tables_ok_def p accounted_def)
qed

lemma batch_ok:
  assumes "processMessages menv msgs (matcher_view s b dirty c n) = (r, w')" "matcher_ok cfg menv" "sy_matcher s = Some (b, dirty)"
    and "delivered cfg s msgs" "system_ok cfg B V s" "B \<le> MaxInt64" "V \<le> MaxInt64"
  shows "system_ok cfg B V (after_call r w' s)"
proof (cases "msgs = []")
  case True
  then have "w_db w' = sy_db s" "mw_book w' = b" using assms(1) by (auto simp: processMessages_def matcher_view_def)
  then show ?thesis using assms(3,5) by (auto simp: system_ok_def stream_ok_def memory_ok_def after_call_def)
next
  case False
  let ?w = "matcher_view s b dirty c n" and ?K = "placed_orders (sy_db s)"
  have v: "w_db ?w = sy_db s" "mw_book ?w = b" by (simp_all add: matcher_view_def)
  have ok: "tables_ok cfg (sy_db s)" "stream_ok s" "memory_ok s" and tot: "wallet_total brl (sy_db s) = B" "wallet_total vib (sy_db s) = V"
    using assms(5) by (simp_all add: system_ok_def)
  have t: "db_ok (sy_db s)" "rows_known ?K (sy_db s)" using ok(1) by (simp_all add: tables_ok_def)
  have st: "known.stored ?K b" using ok(3) assms(3) by (simp add: memory_ok_def)
  obtain r1 w1 where a: "applyBatch menv msgs ?w = (r1, w1)" "w_db w' = w_db w1" "mw_book w' = mw_book w1"
    by (rule processMessages_applies [OF assms(1) False])
  have k: "batch_known ?K menv msgs" by (rule delivered_known [OF assms(4,2) ok(1,2)])
  note tr = tracedD [OF traced_applyBatch [OF k] a(1), unfolded v, OF t(2) st]
  have db: "db_ok (w_db w1)"
    using safe_applyBatch [of menv msgs] a(1) t(1) v(1) unfolding schema_safe_def keeps_schema_def by (metis snd_conv)
  have g: "db_outbox (w_db w1) = db_outbox (sy_db s)" "set (db_processed (w_db w1)) \<subseteq> set (db_processed (sy_db s)) \<union> xm_ID ` set msgs"
    using applyBatch_db [OF a(1)] by (simp_all add: grows_def v)
  note ex = applyBatch_exact [OF a(1) _ batch_known_cheap [OF k], unfolded v, OF t(1) known.stored_priced [OF st]]
  have ids: "xm_ID ` set msgs \<subseteq> se_ID ` set (sy_stream s)"
    using delivered_entry [OF assms(4)] by (metis image_eqI image_subsetI)
  have "set (db_processed (w_db w1)) \<subseteq> se_ID ` set (sy_stream s)"
  proof -
    have "set (db_processed (sy_db s)) \<subseteq> se_ID ` set (sy_stream s)" using ok(2) by (simp add: stream_ok_def)
    then show ?thesis using g(2) ids by (meson Un_least subset_trans)
  qed
  then have "stream_ok (after_call r w' s)" using ok(2) g(1) by (simp add: stream_ok_def after_call_def a(2))
  moreover have "memory_ok (after_call r w' s)"
    using tr(2) same_outbox_ok(2) [OF ok(1) db tr(1) g(1)] by (simp add: memory_ok_def after_call_def a(2,3))
  moreover have "tables_ok cfg (w_db w')" unfolding a(2) by (rule same_outbox_ok(1) [OF ok(1) db tr(1) g(1)])
  ultimately show ?thesis using ex tot assms(6,7) by (simp add: system_ok_def after_call_def a(2))
qed

lemma resync_keeps: "resyncBook menv w = (r, w') \<Longrightarrow> w_db w' = w_db w"
  by (auto simp: resyncBook_def RecoverBook_def bind_ok_def OrderRepo_ListOpenForRecovery_def statement_def tick_def return_ok_def
      return_err_def split: if_splits sum.splits)

lemma resync_ok:
  assumes "resyncBook menv (matcher_view s b dirty c n) = (r, w')" "matcher_ok cfg menv" "sy_matcher s = Some (b, dirty)" "system_ok cfg B V s"
  shows "system_ok cfg B V (after_call r (w'\<lparr>mw_bookDirty := x\<rparr>) s)"
proof -
  have ok: "tables_ok cfg (sy_db s)" "memory_ok s" using assms(4) by (simp_all add: system_ok_def)
  have db: "w_db w' = sy_db s" using resync_keeps [OF assms(1)] by (simp add: matcher_view_def)
  have "scans_rows (me_env menv)" using assms(2) by (simp add: matcher_ok_def env_ok_def)
  from tracedD(2) [OF traced_resyncBook [OF this] assms(1)] have "known.stored (placed_orders (sy_db s)) (mw_book w')"
    using ok assms(3) by (simp add: matcher_view_def tables_ok_def memory_ok_def)
  then show ?thesis using assms(4) by (simp add: system_ok_def stream_ok_def memory_ok_def after_call_def db)
qed

section \<open>Every step, every run\<close>

lemma step_ok:
  assumes "step cfg s s'" "system_ok cfg B V s" "uuid_text_ok (sc_uuidText cfg) (sc_uuidParse cfg)" "B \<le> MaxInt64" "V \<le> MaxInt64"
  shows "system_ok cfg B V s'"
  using assms(1)
proof (cases rule: step.cases)
  case (request henv rq n rsp w')
  then show ?thesis using request_ok [OF _ _ assms(3,2,4,5)] by simp
next
  case (fetch_batch penv n es w')
  then show ?thesis using fetch_ok assms(2) by simp
next
  case (publish_next penv e es n r w')
  then show ?thesis using publish_ok assms(2) by simp
next
  case (apply_batch menv b dirty msgs c n r w')
  then show ?thesis using batch_ok [OF _ _ _ _ assms(2,4,5)] by simp
next
  case (resync menv b dirty c n r w')
  then show ?thesis using resync_ok assms(2) by simp
next
  case (start_matcher env n b w')
  then have "known.stored (placed_orders (sy_db s)) b"
    using RecoverBook_stored(1) [OF start_matcher(4)] assms(2) by (simp add: env_ok_def system_ok_def tables_ok_def api_world_def)
  then show ?thesis using assms(2) by (simp add: start_matcher(1) system_ok_def stream_ok_def memory_ok_def)
next
  case publisher_stops
  then show ?thesis using assms(2) by (simp add: system_ok_def stream_ok_def memory_ok_def)
next
  case matcher_stops
  then show ?thesis using assms(2) by (simp add: system_ok_def stream_ok_def memory_ok_def)
qed

lemma fresh_ok:
  assumes "fresh_system s"
  shows "system_ok cfg (wallet_total brl (sy_db s)) (wallet_total vib (sy_db s)) s"
  using assms
  by (simp add: fresh_system_def system_ok_def tables_ok_def rows_known_def placed_orders_def stream_ok_def memory_ok_def)

lemma runs_ok:
  assumes "runs cfg s s'" "fresh_system s" "uuid_text_ok (sc_uuidText cfg) (sc_uuidParse cfg)"
    and "wallet_total brl (sy_db s) \<le> MaxInt64" "wallet_total vib (sy_db s) \<le> MaxInt64"
  shows "system_ok cfg (wallet_total brl (sy_db s)) (wallet_total vib (sy_db s)) s'"
proof (rule runs_invariant [OF assms(1)])
  show "system_ok cfg (wallet_total brl (sy_db s)) (wallet_total vib (sy_db s)) s" by (rule fresh_ok [OF assms(2)])
qed (rule step_ok [OF _ _ assms(3-5)])

end
