(* ===== verification/System_Runs.thy ===== *)
theory System_Runs
  imports System_Invariant
begin

text \<open>
  The loops of the two services are made of the steps: whatever \<open>PublishOnce\<close>, the publisher's loop and the
  matcher's \<open>Run\<close> do is a run of the step relation, so an invariant of the steps is one of the services.
\<close>

section \<open>Runs compose\<close>

lemma runs_one: "step cfg s s' \<Longrightarrow> runs cfg s s'"
  using runs_refl runs_step by blast

lemma runs_trans:
  assumes "runs cfg s' s''" "runs cfg s s'"
  shows "runs cfg s s''"
  using assms by (induction rule: runs.induct) (auto intro: runs_step)

section \<open>The publisher\<close>

definition with_publisher :: "System \<Rightarrow> PWorld \<Rightarrow> OutboxEvent list \<Rightarrow> System" where
  "with_publisher s w es = s\<lparr>sy_db := w_db w, sy_stream := pw_stream w, sy_fetched := es\<rparr>"

lemma publisher_view_with [simp]: "publisher_view (with_publisher s w es) (w_step w) = w"
  by (simp add: publisher_view_def with_publisher_def)

lemma with_publisher_simps [simp]:
  "sy_fetched (with_publisher s w es) = es"
  "(with_publisher s w es)\<lparr>sy_db := w_db w', sy_stream := pw_stream w', sy_fetched := es'\<rparr> = with_publisher s w' es'"
  by (simp_all add: with_publisher_def)

lemma fetchBatch_keeps:
  assumes "fetchBatch penv w = (r, w')"
  shows "w_db w' = w_db w" "pw_stream w' = pw_stream w"
proof -
  show "w_db w' = w_db w" using fetchBatch_step [OF assms] by simp
  show "pw_stream w' = pw_stream w"
    using assms
    by (auto simp: fetchBatch_def in_tx_def bind_ok_def OutboxRepo_FetchUnpublishedBatch_def statement_def commit_def return_ok_def tick_def
        rolled_back_def split: if_splits fault.splits)
qed

lemma publish_all_runs:
  assumes "publish_all penv es k w = (x, w')" "env_ok cfg (pe_env penv)"
  shows "runs cfg (with_publisher s w es) (with_publisher s w' [])"
  using assms(1)
proof (induction es arbitrary: k w)
  case (Cons e es)
  obtain r w1 where p: "publishAndMarkOne penv e w = (r, w1)" by fastforce
  have "step cfg (with_publisher s w (e # es)) (with_publisher s w1 (if isl r then [] else es))"
    using step.publish_next [OF assms(2), of "with_publisher s w (e # es)" e es "w_step w" r w1] p by simp
  note 1 = runs_one [OF this]
  show ?case
  proof (cases r)
    case (Inl err)
    then show ?thesis using 1 Cons.prems p by simp
  next
    case (Inr ok)
    then have "runs cfg (with_publisher s w1 es) (with_publisher s w' [])" using Cons.IH Cons.prems p by simp
    then show ?thesis using runs_trans [OF _ 1] Inr by simp
  qed
qed (simp add: runs_refl)

lemma PublishOnce_runs:
  assumes "PublishOnce penv w = (x, w')" "env_ok cfg (pe_env penv)"
  shows "runs cfg (with_publisher s w []) (with_publisher s w' [])"
proof -
  obtain r w1 where f: "fetchBatch penv w = (r, w1)" by fastforce
  note k = fetchBatch_keeps [OF f]
  show ?thesis
  proof (cases r)
    case (Inl err)
    then show ?thesis using assms(1) f k by (simp add: PublishOnce_def with_publisher_def runs_refl)
  next
    case (Inr es)
    have "(with_publisher s w [])\<lparr>sy_db := w_db w1, sy_fetched := es\<rparr> = with_publisher s w1 es" using k by (simp add: with_publisher_def)
    then have "step cfg (with_publisher s w []) (with_publisher s w1 es)"
      using step.fetch_batch [OF assms(2), of "with_publisher s w []" "w_step w" es w1] f Inr by simp
    note 1 = runs_one [OF this]
    show ?thesis
    proof (cases "es = []")
      case True
      then show ?thesis using assms(1) f Inr 1 by (simp add: PublishOnce_def)
    next
      case False
      then have "publish_all penv es 0 w1 = (x, w')" using assms(1) f Inr by (simp add: PublishOnce_def)
      from runs_trans [OF publish_all_runs [OF this assms(2)] 1] show ?thesis .
    qed
  qed
qed

section \<open>The matcher\<close>

definition with_matcher :: "System \<Rightarrow> MWorld \<Rightarrow> System" where
  "with_matcher s w = s\<lparr>sy_db := w_db w, sy_matcher := Some (mw_book w, mw_bookDirty w)\<rparr>"

text \<open>The entries the consumer group hands out, new or pending, are entries of the stream.\<close>

definition reads_entries :: "SysConfig \<Rightarrow> System \<Rightarrow> MEnv \<Rightarrow> bool" where
  "reads_entries cfg s menv \<longleftrightarrow> (\<forall>n start cnt ms mss. me_xreadgroup menv n start cnt = Streams (ms # mss) \<longrightarrow> delivered cfg s ms)"

lemma reads_entriesD: "reads_entries cfg s menv \<Longrightarrow> me_xreadgroup menv n start cnt = Streams (ms # mss) \<Longrightarrow> delivered cfg s ms"
  unfolding reads_entries_def by blast

lemma delivered_Nil [simp]: "delivered cfg s []"
  by (simp add: delivered_def)

lemma matcher_view_with [simp]:
  "matcher_view (with_matcher s w) (mw_book w) (mw_bookDirty w) (mw_cache w) (w_step w) = w"
  by (simp add: matcher_view_def with_matcher_def)

lemma with_matcher_sel [simp]: "sy_matcher (with_matcher s w) = Some (mw_book w, mw_bookDirty w)"
  by (simp add: with_matcher_def)

lemma after_call_with: "after_call r w' (with_matcher s w) = after_call r w' s" "survives r \<Longrightarrow> after_call r w' s = with_matcher s w'"
  by (simp_all add: after_call_def with_matcher_def)

lemma delivered_with [simp]: "delivered cfg (with_matcher s w) msgs = delivered cfg s msgs"
  by (simp add: delivered_def with_matcher_def)

lemma with_matcher_cong: "w_db w' = w_db w \<Longrightarrow> mw_book w' = mw_book w \<Longrightarrow> mw_bookDirty w' = mw_bookDirty w \<Longrightarrow> with_matcher s w' = with_matcher s w"
  by (simp add: with_matcher_def)

lemma process_runs:
  assumes "processMessages menv msgs w = (r, w')" "matcher_ok cfg menv" "delivered cfg s msgs"
  shows "runs cfg (with_matcher s w) (after_call r w' s)"
  using step.apply_batch [OF assms(2), of "with_matcher s w" "mw_book w" "mw_bookDirty w" msgs "mw_cache w" "w_step w" r w'] assms(1,3)
  by (auto simp: after_call_with intro: runs_one)

lemma read_group_runs:
  assumes "read_group menv start cnt w = (r, w')" "reads_entries cfg s menv"
  shows "with_matcher s w' = with_matcher s w" "r = Inr msgs \<Longrightarrow> delivered cfg s msgs" "r = Inl e \<Longrightarrow> e = RedisFault"
proof -
  show "with_matcher s w' = with_matcher s w"
    using assms(1) by (intro with_matcher_cong; cases "me_xreadgroup menv (w_step w) start cnt")
      (auto simp: read_group_def tick_def split: list.splits)
  show "delivered cfg s msgs" if "r = Inr msgs"
    using assms that by (cases "me_xreadgroup menv (w_step w) start cnt")
      (auto simp: read_group_def split: list.splits dest: reads_entriesD)
  show "e = RedisFault" if "r = Inl e"
    using assms(1) that by (cases "me_xreadgroup menv (w_step w) start cnt") (auto simp: read_group_def split: list.splits)
qed

lemma ReclaimPending_runs:
  assumes "ReclaimPending menv w = Some (r, w')" "matcher_ok cfg menv" "reads_entries cfg s menv"
  shows "runs cfg (with_matcher s w) (after_call r w' s)"
proof -
  let ?P = "\<lambda>menv w z. matcher_ok cfg menv \<longrightarrow> reads_entries cfg s menv \<longrightarrow> runs cfg (with_matcher s w) (after_call (fst z) (snd z) s)"
  have "?P menv w (r, w')"
  proof (rule ReclaimPending.raw_induct [of ?P, OF _ assms(1)], goal_cases)
    case (1 loop menv w z)
    show ?case
    proof (intro impI)
      assume env: "matcher_ok cfg menv" "reads_entries cfg s menv"
      obtain r1 w1 where rd: "ReadPending menv (me_batchSize menv) w = (r1, w1)" by fastforce
      note g = read_group_runs [OF rd [unfolded ReadPending_def] env(2)]
      consider "me_ctxDone menv (w_step w)" | e where "\<not> me_ctxDone menv (w_step w)" "r1 = Inl e"
        | "\<not> me_ctxDone menv (w_step w)" "r1 = Inr []"
        | msgs where "\<not> me_ctxDone menv (w_step w)" "r1 = Inr msgs" "msgs \<noteq> []" by (cases r1) auto
      then show "runs cfg (with_matcher s w) (after_call (fst z) (snd z) s)"
      proof cases
        case 1
        then have "z = (Inl CtxCancelled, w)" using \<open>_ = Some z\<close> by simp
        then show ?thesis by (simp add: after_call_with runs_refl)
      next
        case (2 e)
        then have "z = (Inl RedisFault, w1)" using \<open>_ = Some z\<close> rd g(3) by simp
        then show ?thesis using g(1) by (simp add: after_call_with runs_refl)
      next
        case 3
        then have "z = (Inr (), w1)" using \<open>_ = Some z\<close> rd by simp
        then show ?thesis using g(1) by (simp add: after_call_with runs_refl)
      next
        case (4 msgs)
        obtain r2 w2 where p: "processMessages menv msgs w1 = (r2, w2)" by fastforce
        note 5 = process_runs [OF p env(1) g(2) [OF 4(2)], unfolded g(1)]
        show ?thesis
        proof (cases r2)
          case (Inl e)
          then have "z = (Inl e, w2)" using \<open>_ = Some z\<close> rd p 4 by (cases e) simp_all
          moreover have "after_call (Inl e :: app_error + nat) w2 s = after_call (Inl e :: app_error + unit) w2 s"
            by (cases e) (simp_all add: after_call_def)
          ultimately show ?thesis using 5 Inl by simp
        next
          case (Inr k)
          then have "loop menv w2 = Some z" using \<open>_ = Some z\<close> rd p 4 by simp
          then have "runs cfg (with_matcher s w2) (after_call (fst z) (snd z) s)" using 1(1) env by blast
          then show ?thesis using runs_trans 5 Inr by (simp add: after_call_with)
        qed
      qed
    qed
  qed
  then show ?thesis using assms(2,3) by simp
qed

lemma reclaim_returns:
  assumes "ReclaimPending menv w = Some (r, w')"
  shows "r \<noteq> Inl NeverReturns"
proof -
  let ?P = "\<lambda>menv w z. fst z \<noteq> Inl NeverReturns"
  have "?P menv w (r, w')"
  proof (rule ReclaimPending.raw_induct [of ?P, OF _ assms], goal_cases)
    case (1 loop menv w z)
    have "e \<noteq> NeverReturns" if "ReadPending menv (me_batchSize menv) w = (Inl e, w1)" for e w1
      using that by (cases "me_xreadgroup menv (w_step w) ''0'' (me_batchSize menv)")
        (auto simp: ReadPending_def read_group_def split: list.splits)
    then show ?case using 1 by (auto split: if_splits prod.splits sum.splits app_error.splits)
  qed
  then show ?thesis by simp
qed

lemma resync_result: "resyncBook menv w = (r, w') \<Longrightarrow> r \<noteq> Inl NeverReturns \<and> mw_bookDirty w' = mw_bookDirty w"
  by (auto simp: resyncBook_def RecoverBook_def bind_ok_def OrderRepo_ListOpenForRecovery_def statement_def tick_def return_ok_def
      return_err_def split: if_splits sum.splits)

lemma resync_runs:
  assumes "resyncBook menv w = (r, w')" "matcher_ok cfg menv" "mw_bookDirty w"
  shows "runs cfg (with_matcher s w) (after_call r (w'\<lparr>mw_bookDirty := isl r\<rparr>) s)"
  using step.resync [OF assms(2) with_matcher_sel, of s w "mw_cache w" "w_step w" r w', unfolded matcher_view_with, OF assms(1)] assms(3)
  by (simp add: after_call_with runs_one)

lemma resync_until_clean_runs:
  assumes "resync_until_clean menv w = Some (r, w')" "matcher_ok cfg menv"
  shows "runs cfg (with_matcher s w) (after_call r w' s)"
proof -
  let ?P = "\<lambda>menv w z. matcher_ok cfg menv \<longrightarrow> runs cfg (with_matcher s w) (after_call (fst z) (snd z) s)"
  have "?P menv w (r, w')"
  proof (rule resync_until_clean.raw_induct [of ?P, OF _ assms(1)], goal_cases)
    case (1 loop menv w z)
    show ?case
    proof
      assume env: "matcher_ok cfg menv"
      obtain r1 w1 where p: "resyncBook menv w = (r1, w1)" by fastforce
      note q = resync_result [OF p]
      consider "\<not> mw_bookDirty w" | "mw_bookDirty w" "me_ctxDone menv (w_step w)"
        | "mw_bookDirty w" "\<not> me_ctxDone menv (w_step w)" by blast
      then show "runs cfg (with_matcher s w) (after_call (fst z) (snd z) s)"
      proof cases
        case 1
        then have "z = (Inr (), w)" using \<open>_ = Some z\<close> by simp
        then show ?thesis by (simp add: after_call_with runs_refl)
      next
        case 2
        then have "z = (Inl CtxCancelled, w)" using \<open>_ = Some z\<close> by simp
        then show ?thesis by (simp add: after_call_with runs_refl)
      next
        case 3
        note 4 = resync_runs [OF p env 3(1), of s]
        have w1: "w1\<lparr>mw_bookDirty := True\<rparr> = w1" using q 3(1) by simp
        consider pn where "r1 = Inl (Panics pn)" | e where "r1 = Inl e" "survives r1" | "r1 = Inr ()"
          using q by (cases r1 rule: survives.cases) auto
        then show ?thesis
        proof cases
          case (1 pn)
          then have "z = (Inl (Panics pn), w1)" using \<open>_ = Some z\<close> p 3 by simp
          then show ?thesis using 4 1 w1 by simp
        next
          case (2 e)
          then have "loop menv w1 = Some z" using \<open>_ = Some z\<close> p 3 by (cases e) simp_all
          then have "runs cfg (with_matcher s w1) (after_call (fst z) (snd z) s)" using \<open>\<And>x y z. loop x y = Some z \<Longrightarrow> _\<close> env by blast
          then show ?thesis using runs_trans 4 2 w1 by (simp add: after_call_with)
        next
          case 3
          then have "loop menv (w1\<lparr>mw_bookDirty := False\<rparr>) = Some z"
            using \<open>_ = Some z\<close> p \<open>mw_bookDirty w\<close> \<open>\<not> me_ctxDone menv (w_step w)\<close> by simp
          then have "runs cfg (with_matcher s (w1\<lparr>mw_bookDirty := False\<rparr>)) (after_call (fst z) (snd z) s)"
            using \<open>\<And>x y z. loop x y = Some z \<Longrightarrow> _\<close> env by blast
          then show ?thesis using runs_trans 4 3 by (simp add: after_call_with)
        qed
      qed
    qed
  qed
  then show ?thesis using assms(2) by simp
qed

lemma recoverAfterFailure_runs:
  assumes "recoverAfterFailure menv w = Some (r, w')" "matcher_ok cfg menv" "reads_entries cfg s menv"
  shows "runs cfg (with_matcher s w) (after_call r w' s)"
proof -
  obtain r1 w1 where c: "resync_until_clean menv w = Some (r1, w1)" using assms(1) by (auto simp: recoverAfterFailure_def split: option.splits)
  note 1 = resync_until_clean_runs [OF c assms(2), of s]
  show ?thesis
  proof (cases r1)
    case (Inl e)
    then show ?thesis using assms(1) c 1 by (simp add: recoverAfterFailure_def)
  next
    case (Inr u)
    then obtain r2 w2 where p: "ReclaimPending menv w1 = Some (r2, w2)"
      using assms(1) c by (auto simp: recoverAfterFailure_def split: option.splits)
    have 2: "runs cfg (with_matcher s w) (after_call r2 w2 s)"
      using runs_trans [OF ReclaimPending_runs [OF p assms(2,3)]] 1 Inr by (simp add: after_call_with)
    have "r2 \<noteq> Inl NeverReturns" using reclaim_returns [OF p] .
    then consider pn where "r2 = Inl (Panics pn)" | "survives r2" by (cases r2 rule: survives.cases) auto
    then show ?thesis
    proof cases
      case (1 pn)
      then show ?thesis using assms(1) c Inr p 2 by (simp add: recoverAfterFailure_def)
    next
      case s: 2
      then have "(r, w') = (Inr (), w2)"
        using assms(1) c Inr p by (cases r2 rule: survives.cases) (simp_all add: recoverAfterFailure_def)
      then show ?thesis using 2 s by (simp add: after_call_with)
    qed
  qed
qed

lemma ProcessOnce_runs:
  assumes "ProcessOnce menv w = (r, w')" "matcher_ok cfg menv" "reads_entries cfg s menv"
  shows "runs cfg (with_matcher s w) (after_call r w' s)"
proof -
  obtain r1 w1 where rd: "ReadBatch menv (me_batchSize menv) w = (r1, w1)" by fastforce
  note g = read_group_runs [OF rd [unfolded ReadBatch_def] assms(3)]
  show ?thesis
  proof (cases r1)
    case (Inl e)
    then have "r = Inl RedisFault" "w' = w1" using assms(1) rd g(3) by (auto simp: ProcessOnce_def bind_ok_def)
    then show ?thesis using g(1) by (simp add: after_call_with runs_refl)
  next
    case (Inr msgs)
    then have "processMessages menv msgs w1 = (r, w')" using assms(1) rd by (simp add: ProcessOnce_def bind_ok_def)
    from process_runs [OF this assms(2) g(2) [OF Inr]] show ?thesis by (simp add: g(1))
  qed
qed

lemma run_loop_runs:
  assumes "run_loop menv w = Some (r, w')" "matcher_ok cfg menv" "reads_entries cfg s menv"
  shows "runs cfg (with_matcher s w) (after_call r w' s)"
proof -
  let ?P = "\<lambda>menv w z. matcher_ok cfg menv \<longrightarrow> reads_entries cfg s menv \<longrightarrow> runs cfg (with_matcher s w) (after_call (fst z) (snd z) s)"
  have "?P menv w (r, w')"
  proof (rule run_loop.raw_induct [of ?P, OF _ assms(1)], goal_cases)
    case (1 loop menv w z)
    note IH = 1(1) and z = 1(2)
    show ?case
    proof (intro impI)
      assume env: "matcher_ok cfg menv" "reads_entries cfg s menv"
      obtain r1 w1 where p: "ProcessOnce menv w = (r1, w1)" by fastforce
      note 1 = ProcessOnce_runs [OF p env]
      consider "me_ctxDone menv (w_step w)" | pn where "\<not> me_ctxDone menv (w_step w)" "r1 = Inl (Panics pn)"
        | e where "\<not> me_ctxDone menv (w_step w)" "r1 = Inl e" "survives r1" | n where "\<not> me_ctxDone menv (w_step w)" "r1 = Inr n"
        using z p by (cases r1 rule: survives.cases) (auto split: if_splits)
      then show "runs cfg (with_matcher s w) (after_call (fst z) (snd z) s)"
      proof cases
        case 1
        then have "z = (Inl CtxCancelled, w)" using z by simp
        then show ?thesis by (simp add: after_call_with runs_refl)
      next
        case (2 pn)
        then have "z = (Inl (Panics pn), w1)" using z p by simp
        moreover have "after_call (Inl (Panics pn) :: app_error + nat) w1 s = after_call (Inl (Panics pn) :: app_error + unit) w1 s"
          by (simp add: after_call_def)
        ultimately show ?thesis using 1 2 by simp
      next
        case (3 e)
        have w1: "runs cfg (with_matcher s w) (with_matcher s w1)" using 1 3 by (simp add: after_call_with)
        obtain r2 w2 where f: "recoverAfterFailure menv w1 = Some (r2, w2)"
          using z p 3 by (cases "recoverAfterFailure menv w1"; cases e) auto
        note 2 = runs_trans [OF recoverAfterFailure_runs [OF f env] w1]
        show ?thesis
        proof (cases r2)
          case (Inl e')
          then have "z = (Inl e', w2)" using z p 3 f by (cases e) simp_all
          then show ?thesis using 2 Inl by simp
        next
          case (Inr u)
          then have "loop menv w2 = Some z" using z p 3 f by (cases e) simp_all
          then show ?thesis using runs_trans [OF IH [rule_format, OF _ env]] 2 Inr by (simp add: after_call_with)
        qed
      next
        case (4 n)
        then have "loop menv w1 = Some z" using z p by simp
        then show ?thesis using runs_trans [OF IH [rule_format, OF _ env]] 1 4 by (simp add: after_call_with)
      qed
    qed
  qed
  then show ?thesis using assms(2,3) by simp
qed

end
