(* ===== verification/System_Scenario.thy ===== *)
theory System_Scenario
  imports System_Runs
begin

text \<open>
  A run of the whole system on concrete inputs, for the witnesses: a matcher starts on an empty book, a SELL and a
  matching BUY order are placed over HTTP, the publisher publishes both events, the matcher applies them and trades.
\<close>

section \<open>The processes\<close>

definition demo_cfg :: SysConfig where
  "demo_cfg = \<lparr>sc_uuidText = digits_uuid, sc_uuidParse = uuid_of_digits, sc_stream = ''orders''\<rparr>"

text \<open>The codec is left open while the run is computed: payloads stay symbolic.\<close>

definition demo_env :: "(StreamEvent \<Rightarrow> string) \<Rightarrow> (string \<Rightarrow> StreamEvent option) \<Rightarrow> Env" where
  "demo_env M U = quiet_env\<lparr>e_marshal := (\<lambda>ev. Some (M ev)), e_unmarshal := U\<rparr>"

definition demo_request :: "string \<Rightarrow> string \<Rightarrow> int64 \<Rightarrow> PlaceOrderRequest" where
  "demo_request u side p = \<lparr>pr_UserID = u, pr_Side = side, pr_Type = ''LIMIT'', pr_PriceCents = Some p, pr_Quantity = 4\<rparr>"

definition demo_decode :: "string \<Rightarrow> bool \<Rightarrow> PlaceOrderRequest option" where
  "demo_decode body over =
     (if body = ''1'' then Some (demo_request ''2'' ''SELL'' 1000) else if body = ''2'' then Some (demo_request ''1'' ''BUY'' 1200) else None)"

definition demo_tenv :: "(StreamEvent \<Rightarrow> string) \<Rightarrow> (string \<Rightarrow> StreamEvent option) \<Rightarrow> TEnv" where
  "demo_tenv M U = \<lparr>te_env = demo_env M U, te_uuidString = digits_uuid, te_uuidParse = uuid_of_digits, te_zone = (\<lambda>_. 0)\<rparr>"

definition demo_valid :: "PlaceOrderRequest \<Rightarrow> string option" where
  "demo_valid req = (if place_tags (http_env\<lparr>he_tenv := demo_tenv (\<lambda>_. []) (\<lambda>_. None)\<rparr>) req then None else Some ''tags'')"

definition demo_henv :: "(StreamEvent \<Rightarrow> string) \<Rightarrow> (string \<Rightarrow> StreamEvent option) \<Rightarrow> HEnv" where
  "demo_henv M U = http_env0\<lparr>he_tenv := demo_tenv M U, he_decodePlace := demo_decode, he_validatePlace := demo_valid\<rparr>"

definition demo_penv :: "(StreamEvent \<Rightarrow> string) \<Rightarrow> (string \<Rightarrow> StreamEvent option) \<Rightarrow> PEnv" where
  "demo_penv M U = \<lparr>pe_env = demo_env M U, pe_xadd = (\<lambda>n. (Works, if n < 5 then ''1-0'' else ''2-0'')), pe_ctxDone = (\<lambda>_. False), pe_batchSize = 10\<rparr>"

definition demo_menv :: "(StreamEvent \<Rightarrow> string) \<Rightarrow> (string \<Rightarrow> StreamEvent option) \<Rightarrow> MEnv" where
  "demo_menv M U = matcher_env\<lparr>me_env := demo_env M U\<rparr>"

section \<open>The states\<close>

definition demo_sell :: Order where
  "demo_sell = \<lparr>o_ID = 14, o_UserID = 2, o_Side = SideSell, o_Type = TypeLimit, o_PriceCents = Some 1000, o_Quantity = 4,
     o_FilledQuantity = 0, o_Status = StatusOpen, o_CreatedAt = 13, o_UpdatedAt = 13\<rparr>"

definition demo_buy :: Order where
  "demo_buy = \<lparr>o_ID = 24, o_UserID = 1, o_Side = SideBuy, o_Type = TypeLimit, o_PriceCents = Some 1200, o_Quantity = 4,
     o_FilledQuantity = 0, o_Status = StatusOpen, o_CreatedAt = 23, o_UpdatedAt = 23\<rparr>"

definition demo_wallets :: "int64 \<Rightarrow> int64 \<Rightarrow> Wallet list" where
  "demo_wallets reserved_brl reserved_vib =
     [\<lparr>w_UserID = 1, w_BalanceBRLCents = 10000 - reserved_brl, w_ReservedBRLCents = reserved_brl, w_BalanceVibranium = 0, w_ReservedVibranium = 0\<rparr>,
      \<lparr>w_UserID = 2, w_BalanceBRLCents = 0, w_ReservedBRLCents = 0, w_BalanceVibranium = 10 - reserved_vib, w_ReservedVibranium = reserved_vib\<rparr>]"

definition demo_row :: "int64 \<Rightarrow> string \<Rightarrow> bool \<Rightarrow> OutboxRow" where
  "demo_row i p pub = \<lparr>ob_ID = i, ob_StreamName = ''orders'', ob_Payload = p, ob_Published = pub\<rparr>"

definition demo_db :: "Wallet list \<Rightarrow> Order list \<Rightarrow> OutboxRow list \<Rightarrow> DB" where
  "demo_db ws os rows = \<lparr>db_users = [\<lparr>u_ID = 1, u_Username = ''alice'', u_CreatedAt = 0\<rparr>, \<lparr>u_ID = 2, u_Username = ''bob'', u_CreatedAt = 0\<rparr>],
     db_wallets = ws, db_orders = map row_of_order os, db_trades = [], db_processed = [], db_outbox = rows, db_outboxSeq = 1 + int (length rows)\<rparr>"

definition demo_start :: System where
  "demo_start = \<lparr>sy_db = demo_db (demo_wallets 0 0) [] [], sy_stream = [], sy_fetched = [], sy_matcher = None\<rparr>"

text \<open>Each step computed, the payloads left symbolic.\<close>

lemma demo_first:
  "w_db (snd (serve (demo_henv M U) (http_call ''POST'' ''/orders'' ''1'') \<lparr>w_db = demo_db (demo_wallets 0 0) [] [], w_step = 10\<rparr>))
     = demo_db (demo_wallets 0 4) [demo_sell] [demo_row 1 (M (new_order_event demo_sell)) False]"
  by (code_simp; simp add: equal_eq)

lemma demo_second:
  "w_db (snd (serve (demo_henv M U) (http_call ''POST'' ''/orders'' ''2'')
       \<lparr>w_db = demo_db (demo_wallets 0 4) [demo_sell] [demo_row 1 p False], w_step = 20\<rparr>))
     = demo_db (demo_wallets 4800 4) [demo_sell, demo_buy] [demo_row 1 p False, demo_row 2 (M (new_order_event demo_buy)) False]"
  by (code_simp; simp add: equal_eq)

definition demo_batch :: "string \<Rightarrow> string \<Rightarrow> OutboxEvent list" where
  "demo_batch p q = [outbox_event (demo_row 1 p False), outbox_event (demo_row 2 q False)]"

abbreviation demo_tables :: "OutboxRow list \<Rightarrow> DB" where
  "demo_tables \<equiv> demo_db (demo_wallets 4800 4) [demo_sell, demo_buy]"

definition demo_entry :: "string \<Rightarrow> string \<Rightarrow> StreamEntry" where
  "demo_entry i p = \<lparr>se_ID = i, se_Stream = ''orders'', se_Payload = p\<rparr>"

lemma demo_fetch:
  "fetchBatch (demo_penv M U) \<lparr>w_db = demo_tables [demo_row 1 p False, demo_row 2 q False], w_step = 0, pw_stream = []\<rparr>
     = (Inr (demo_batch p q), \<lparr>w_db = demo_tables [demo_row 1 p False, demo_row 2 q False], w_step = 3, pw_stream = []\<rparr>)"
  by (code_simp; simp add: equal_eq)

lemma demo_publish_first:
  "publishAndMarkOne (demo_penv M U) (outbox_event (demo_row 1 p False))
       \<lparr>w_db = demo_tables [demo_row 1 p False, demo_row 2 q False], w_step = 0, pw_stream = []\<rparr>
     = (Inr True, \<lparr>w_db = demo_tables [demo_row 1 p True, demo_row 2 q False], w_step = 5, pw_stream = [demo_entry ''1-0'' p]\<rparr>)"
  by (code_simp; simp add: equal_eq)

lemma demo_publish_second:
  "publishAndMarkOne (demo_penv M U) (outbox_event (demo_row 2 q False))
       \<lparr>w_db = demo_tables [demo_row 1 p True, demo_row 2 q False], w_step = 5, pw_stream = [demo_entry ''1-0'' p]\<rparr>
     = (Inr True, \<lparr>w_db = demo_tables [demo_row 1 p True, demo_row 2 q True], w_step = 10,
          pw_stream = [demo_entry ''1-0'' p, demo_entry ''2-0'' q]\<rparr>)"
  by (code_simp; simp add: equal_eq)

text \<open>A batch whose events are already decoded.\<close>

definition decoded_message :: "MEnv \<Rightarrow> string \<times> StreamEvent \<Rightarrow> (MWorld, unit) action" where
  "decoded_message menv m =
     bind_ok (ProcessedRepo_TryMark (me_env menv) (fst m) (me_streamName menv)) (\<lambda>firstTime.
       if \<not> firstTime then return_ok () else applyEntry menv (snd m))"

definition decoded_batch :: "MEnv \<Rightarrow> (string \<times> StreamEvent) list \<Rightarrow> (MWorld, unit) action" where
  "decoded_batch menv ms = in_tx (me_env menv) (\<lambda>w.
     bind_ok (for_each (decoded_message menv) ms) (\<lambda>_.
     bind_ok (flush_wallets menv) (\<lambda>_. return_ok (Commits ()))) (w\<lparr>mw_cache := []\<rparr>))"

lemma decoded_applyBatch:
  assumes "\<forall>m\<in>set msgs. message_event menv m = Some (ev m)"
  shows "applyBatch menv msgs = decoded_batch menv (map (\<lambda>m. (xm_ID m, ev m)) msgs)"
proof -
  have "for_each (apply_message menv) msgs = for_each (decoded_message menv) (map (\<lambda>m. (xm_ID m, ev m)) msgs)"
    using assms
  proof (induction msgs)
    case (Cons m msgs)
    have "message_event menv m = Some (ev m)" using Cons.prems by simp
    then have "apply_message menv m = decoded_message menv (xm_ID m, ev m)"
      unfolding apply_message_def message_event_def [symmetric] decoded_message_def by (simp cong: if_cong)
    then show ?case using Cons by simp
  qed simp
  then have "batch_body menv msgs = (\<lambda>w. bind_ok (for_each (decoded_message menv) (map (\<lambda>m. (xm_ID m, ev m)) msgs)) (\<lambda>_.
     bind_ok (flush_wallets menv) (\<lambda>_. return_ok (Commits ()))) (w\<lparr>mw_cache := []\<rparr>))"
    by (intro ext) (simp add: batch_body_def)
  then show ?thesis by (simp add: applyBatch_def decoded_batch_def)
qed

lemma demo_trade:
  "let r = decoded_batch (demo_menv M U) [(''1-0'', new_order_event demo_sell), (''2-0'', new_order_event demo_buy)]
       \<lparr>w_db = demo_tables [demo_row 1 p True, demo_row 2 q True], w_step = 30, mw_book = NewBook, mw_cache = [], mw_bookDirty = False\<rparr>
   in fst r = Inr () \<and> map t_Quantity (db_trades (w_db (snd r))) = [4] \<and> map t_PriceCents (db_trades (w_db (snd r))) = [1000] \<and>
      map or_Status (db_orders (w_db (snd r))) = [''FILLED'', ''FILLED''] \<and>
      map w_BalanceVibranium (db_wallets (w_db (snd r))) = [4, 6] \<and> map w_BalanceBRLCents (db_wallets (w_db (snd r))) = [6000, 4000]"
  by (code_simp; simp add: equal_eq)

section \<open>The run\<close>

abbreviation (input) demo_marshal :: "StreamEvent \<Rightarrow> string" where "demo_marshal \<equiv> MarshalEvent digits_uuid"
abbreviation (input) demo_unmarshal :: "string \<Rightarrow> StreamEvent option" where "demo_unmarshal \<equiv> UnmarshalEvent uuid_of_digits"

definition demo_text :: "Order \<Rightarrow> string" where
  "demo_text ord = demo_marshal (new_order_event ord)"

lemma demo_env_ok: "env_ok demo_cfg (demo_env demo_marshal demo_unmarshal)"
proof -
  have "jsonb_ok Some" by (auto simp: jsonb_ok_def)
  then show ?thesis by (simp add: env_ok_def demo_env_def demo_cfg_def quiet_env_def scans_rows_def ascii_utf8 ascii_def)
qed

lemma demo_api_ok: "api_ok demo_cfg (demo_henv demo_marshal demo_unmarshal)"
proof -
  have "place_tags (http_env\<lparr>he_tenv := demo_tenv (\<lambda>_. []) (\<lambda>_. None)\<rparr>) req = place_tags (demo_henv demo_marshal demo_unmarshal) req" for req
    by (simp add: place_tags_def demo_henv_def demo_tenv_def)
  then show ?thesis
    using demo_env_ok by (auto simp: api_ok_def demo_henv_def demo_tenv_def demo_cfg_def http_env0_def demo_valid_def split: if_splits)
qed

lemma demo_matcher_ok: "matcher_ok demo_cfg (demo_menv demo_marshal demo_unmarshal)"
  using demo_env_ok by (simp add: matcher_ok_def demo_menv_def matcher_env_def demo_cfg_def)

lemma demo_text_event:
  assumes "ord = demo_sell \<or> ord = demo_buy"
  shows "demo_unmarshal (demo_text ord) = Some (new_order_event ord)"
proof -
  have "jsonb_ok Some" by (auto simp: jsonb_ok_def)
  moreover have "plain_event (new_order_event ord)"
    using assms by (auto simp: plain_event_def new_order_event_def demo_sell_def demo_buy_def EventType_of_string_def Side_of_string_def
        Type_of_string_def in64_def MinInt64_def MaxInt64_def ascii_utf8 ascii_def)
  ultimately show ?thesis using stored_event(1) [OF _ digits_uuid_ok _ refl] by (simp add: demo_text_def)
qed

definition demo_placed :: System where
  "demo_placed = \<lparr>sy_db = demo_tables [demo_row 1 (demo_text demo_sell) False, demo_row 2 (demo_text demo_buy) False],
     sy_stream = [], sy_fetched = [], sy_matcher = Some (NewBook, False)\<rparr>"

definition demo_published :: System where
  "demo_published = \<lparr>sy_db = demo_tables [demo_row 1 (demo_text demo_sell) True, demo_row 2 (demo_text demo_buy) True],
     sy_stream = [demo_entry ''1-0'' (demo_text demo_sell), demo_entry ''2-0'' (demo_text demo_buy)], sy_fetched = [],
     sy_matcher = Some (NewBook, False)\<rparr>"

lemma demo_recovers: "RecoverBook (demo_env M U) (api_world demo_start 0) = (Inr NewBook, tick (api_world demo_start 0))"
  by (simp add: RecoverBook_def bind_ok_def OrderRepo_ListOpenForRecovery_def statement_def demo_env_def quiet_env_def tick_def demo_db_def
      return_ok_def api_world_def demo_start_def)

lemma demo_runs_placed: "runs demo_cfg demo_start demo_placed"
proof -
  let ?henv = "demo_henv demo_marshal demo_unmarshal"
  let ?s1 = "demo_start\<lparr>sy_matcher := Some (NewBook, False)\<rparr>"
  let ?s2 = "?s1\<lparr>sy_db := demo_db (demo_wallets 0 4) [demo_sell] [demo_row 1 (demo_text demo_sell) False]\<rparr>"
  have 1: "step demo_cfg demo_start ?s1"
    by (rule step.start_matcher [OF demo_env_ok _ demo_recovers]) (simp add: demo_start_def)
  obtain rsp w where w: "serve ?henv (http_call ''POST'' ''/orders'' ''1'') (api_world ?s1 10) = (rsp, w)" by fastforce
  have "step demo_cfg ?s1 ?s2"
    using step.request [OF demo_api_ok w] demo_first [of demo_marshal demo_unmarshal] w by (simp add: api_world_def demo_start_def demo_text_def)
  moreover obtain rsp' w' where w': "serve ?henv (http_call ''POST'' ''/orders'' ''2'') (api_world ?s2 20) = (rsp', w')" by fastforce
  have "step demo_cfg ?s2 demo_placed"
    using step.request [OF demo_api_ok w'] demo_second [of demo_marshal demo_unmarshal "demo_text demo_sell"] w'
    by (simp add: api_world_def demo_start_def demo_placed_def demo_text_def)
  ultimately show ?thesis using 1 by (meson runs_refl runs_step)
qed

lemma demo_runs_published: "runs demo_cfg demo_placed demo_published"
proof -
  let ?penv = "demo_penv demo_marshal demo_unmarshal"
  let ?p = "demo_text demo_sell" and ?q = "demo_text demo_buy"
  let ?s1 = "demo_placed\<lparr>sy_fetched := demo_batch ?p ?q\<rparr>"
  let ?s2 = "demo_placed\<lparr>sy_db := demo_tables [demo_row 1 ?p True, demo_row 2 ?q False], sy_stream := [demo_entry ''1-0'' ?p],
      sy_fetched := [outbox_event (demo_row 2 ?q False)]\<rparr>"
  have env: "env_ok demo_cfg (pe_env ?penv)" using demo_env_ok by (simp add: demo_penv_def)
  have "step demo_cfg demo_placed ?s1"
    using step.fetch_batch [OF env, of demo_placed 0] demo_fetch [of demo_marshal demo_unmarshal ?p ?q]
    by (simp add: publisher_view_def demo_placed_def)
  moreover have "step demo_cfg ?s1 ?s2"
    using step.publish_next [OF env, of ?s1 "outbox_event (demo_row 1 ?p False)" "[outbox_event (demo_row 2 ?q False)]" 0] demo_publish_first [of demo_marshal demo_unmarshal ?p ?q]
    by (simp add: publisher_view_def demo_placed_def demo_batch_def)
  moreover have "step demo_cfg ?s2 demo_published"
    using step.publish_next [OF env, of ?s2 "outbox_event (demo_row 2 ?q False)" "[]" 5] demo_publish_second [of demo_marshal demo_unmarshal ?q ?p]
    by (simp add: publisher_view_def demo_placed_def demo_published_def)
  ultimately show ?thesis by (meson runs_refl runs_step)
qed

lemma demo_runs_traded:
  "\<exists>s. runs demo_cfg demo_start s \<and> map t_Quantity (db_trades (sy_db s)) = [4] \<and>
     map or_Status (db_orders (sy_db s)) = [''FILLED'', ''FILLED''] \<and> map w_BalanceBRLCents (db_wallets (sy_db s)) = [6000, 4000]"
proof -
  let ?menv = "demo_menv demo_marshal demo_unmarshal"
  let ?p = "demo_text demo_sell" and ?q = "demo_text demo_buy"
  let ?msgs = "[\<lparr>xm_ID = ''1-0'', xm_Payload = Some ?p\<rparr>, \<lparr>xm_ID = ''2-0'', xm_Payload = Some ?q\<rparr>]"
  let ?w = "matcher_view demo_published NewBook False [] 30"
  have u: "e_unmarshal (me_env ?menv) = demo_unmarshal" by (simp add: demo_menv_def demo_env_def)
  have "applyBatch ?menv ?msgs ?w = decoded_batch ?menv [(''1-0'', new_order_event demo_sell), (''2-0'', new_order_event demo_buy)] ?w"
    by (subst decoded_applyBatch [of _ _ "\<lambda>m. if xm_ID m = ''1-0'' then new_order_event demo_sell else new_order_event demo_buy"])
      (simp_all add: message_event_def u demo_text_event)
  moreover have "?w = \<lparr>w_db = demo_tables [demo_row 1 ?p True, demo_row 2 ?q True], w_step = 30, mw_book = NewBook, mw_cache = [], mw_bookDirty = False\<rparr>"
    by (simp add: matcher_view_def demo_published_def)
  moreover obtain r w' where a: "applyBatch ?menv ?msgs ?w = (r, w')" by fastforce
  ultimately have t: "r = Inr ()" "map t_Quantity (db_trades (w_db w')) = [4]" "map or_Status (db_orders (w_db w')) = [''FILLED'', ''FILLED'']"
      "map w_BalanceBRLCents (db_wallets (w_db w')) = [6000, 4000]"
    using demo_trade [of demo_marshal demo_unmarshal ?p ?q] by (simp_all add: Let_def)
  obtain r2 w2 where p: "processMessages ?menv ?msgs ?w = (r2, w2)" by fastforce
  have db: "w_db w2 = w_db w'" using processMessages_applies [OF p] a by (metis list.distinct(1) prod.inject)
  have "delivered demo_cfg demo_published ?msgs" by (simp add: delivered_def demo_published_def demo_entry_def demo_cfg_def)
  moreover have "sy_matcher demo_published = Some (NewBook, False)" by (simp add: demo_published_def)
  ultimately have "step demo_cfg demo_published (after_call r2 w2 demo_published)" by (rule step.apply_batch [OF demo_matcher_ok _ _ p, rotated])
  then have "runs demo_cfg demo_start (after_call r2 w2 demo_published)"
    by (rule runs_step [OF runs_trans [OF demo_runs_published demo_runs_placed]])
  moreover have "sy_db (after_call r2 w2 demo_published) = w_db w'" by (simp add: after_call_def db)
  ultimately show ?thesis using t by metis
qed

lemma demo_fresh: "fresh_system demo_start" "wallet_total brl (sy_db demo_start) = 10000" "wallet_total vib (sy_db demo_start) = 10"
  by (simp_all add: fresh_system_def demo_start_def demo_db_def demo_wallets_def db_ok_def wallet_checks_def wallet_total_def brl_def vib_def)

lemma demo_codec: "uuid_text_ok (sc_uuidText demo_cfg) (sc_uuidParse demo_cfg)"
  using digits_uuid_ok by (simp add: demo_cfg_def)

end
