(* ===== verification/System_Properties.thy ===== *)
theory System_Properties
  imports System_Scenario
begin

text \<open>
  What holds of the whole program: of every state its three processes can reach together from a database that was
  only migrated and seeded, whatever clients, clocks, faults, restarts and deliveries do.
\<close>

section \<open>Records only grow\<close>

definition extends :: "System \<Rightarrow> System \<Rightarrow> bool" where
  "extends s s' \<longleftrightarrow> (\<exists>ts. db_trades (sy_db s') = db_trades (sy_db s) @ ts) \<and> (\<exists>is. db_processed (sy_db s') = db_processed (sy_db s) @ is) \<and>
     (\<exists>es. sy_stream s' = sy_stream s @ es) \<and> (\<exists>is. map or_ID (db_orders (sy_db s')) = map or_ID (db_orders (sy_db s)) @ is) \<and>
     (\<exists>is. map ob_ID (db_outbox (sy_db s')) = map ob_ID (db_outbox (sy_db s)) @ is)"

lemma extends_refl: "extends s s"
  by (simp add: extends_def)

lemma extends_trans: "extends s s' \<Longrightarrow> extends s' s'' \<Longrightarrow> extends s s''"
  unfolding extends_def by (metis append.assoc)

lemma extends_frame:
  assumes "sy_stream s' = sy_stream s @ es" "db_trades (sy_db s') = db_trades (sy_db s) @ ts" "db_processed (sy_db s') = db_processed (sy_db s) @ is"
    and "map or_ID (db_orders (sy_db s')) = map or_ID (db_orders (sy_db s)) @ js" "map ob_ID (db_outbox (sy_db s')) = map ob_ID (db_outbox (sy_db s)) @ ks"
  shows "extends s s'"
  using assms unfolding extends_def by blast

lemma request_extends:
  assumes "serve henv rq (api_world s n) = (rsp, w')" "db_ok (sy_db s)"
  shows "extends s (s\<lparr>sy_db := w_db w'\<rparr>)"
proof -
  have "db_ok (w_db (api_world s n))" using assms(2) by (simp add: api_world_def)
  from serve_effect [OF assms(1) this] consider "same_tables (sy_db s) (w_db w')"
    | "cancel_queued (he_env henv) (he_streamName henv) (sy_db s) (w_db w')"
    | inp ord where "placed (he_env henv) (he_streamName henv) inp ord (sy_db s) (w_db w')"
    by (auto simp: api_world_def)
  then show ?thesis
  proof cases
    case 1
    then show ?thesis by (intro extends_frame) (simp_all add: same_tablesD [OF 1])
  next
    case 2
    then show ?thesis unfolding cancel_queued_def by (elim exE conjE) (rule extends_frame, simp_all)
  next
    case (3 inp ord)
    then show ?thesis by (rule placedE) (rule extends_frame, simp_all)
  qed
qed

lemma batch_extends:
  assumes "processMessages menv msgs (matcher_view s b dirty c n) = (r, w')"
  shows "extends s (after_call r w' s)"
proof (cases "msgs = []")
  case True
  then have "w_db w' = sy_db s" using assms by (auto simp: processMessages_def matcher_view_def)
  then show ?thesis by (simp add: extends_def after_call_def)
next
  case False
  obtain r1 w1 where a: "applyBatch menv msgs (matcher_view s b dirty c n) = (r1, w1)" "w_db w' = w_db w1"
    using processMessages_applies [OF assms False] by metis
  show ?thesis using applyBatch_db [OF a(1), THEN conjunct1] by (auto simp: grows_def extends_def after_call_def a(2) matcher_view_def)
qed

lemma step_extends:
  assumes "step cfg s s'" "db_ok (sy_db s)"
  shows "extends s s'"
  using assms(1)
proof (cases rule: step.cases)
  case (request henv rq n rsp w')
  then show ?thesis using request_extends assms(2) by simp
next
  case (fetch_batch penv n es w')
  then have "w_db w' = sy_db s" using fetchBatch_step [OF fetch_batch(4)] by (simp add: publisher_view_def)
  then show ?thesis by (simp add: fetch_batch(1) extends_def)
next
  case (publish_next penv e es n r w')
  obtain sent marked where "one_step e (publisher_view s n) w' sent marked"
    using publish_one_step [OF publish_next(4)] by (auto split: sum.splits)
  then have "w_db w' = mark_db (if marked then [oe_ID e] else []) (sy_db s)" by (auto simp: one_step_def publisher_view_def)
  moreover obtain more where "pw_stream w' = sy_stream s @ more" using publish_appends [OF publish_next(4)] by (auto simp: publisher_view_def)
  ultimately show ?thesis by (intro extends_frame) (simp_all add: publish_next(1) mark_db_def mark_rows_ids)
next
  case (apply_batch menv b dirty msgs c n r w')
  then show ?thesis using batch_extends by simp
next
  case (resync menv b dirty c n r w')
  have "w_db w' = sy_db s" using resync_keeps [OF resync(4)] by (simp add: matcher_view_def)
  then show ?thesis by (simp add: resync(1) extends_def after_call_def)
qed (simp_all add: extends_def)

lemma runs_extends:
  assumes "runs cfg s s'" "system_ok cfg B V s" "uuid_text_ok (sc_uuidText cfg) (sc_uuidParse cfg)" "B \<le> MaxInt64" "V \<le> MaxInt64"
  shows "extends s s'"
proof -
  have "system_ok cfg B V s' \<and> extends s s'"
  proof (rule runs_invariant [OF assms(1)])
    show "system_ok cfg B V s \<and> extends s s" using assms(2) extends_refl by simp
    show "system_ok cfg B V t' \<and> extends s t'" if "system_ok cfg B V t \<and> extends s t" "step cfg t t'" for t t'
      using step_ok [OF that(2) _ assms(3-5)] step_extends [OF that(2)] that(1) extends_trans
      by (auto simp: system_ok_def tables_ok_def)
  qed
  then show ?thesis by simp
qed

section \<open>What the rows say\<close>

lemma placed_row:
  assumes "static x \<in> placed_orders d"
  obtains r where "r \<in> set (db_orders d)" "or_ID r = o_ID x" "or_UserID r = o_UserID x" "Side_of_string (or_Side r) = o_Side x"
    "Type_of_string (or_Type r) = o_Type x" "or_PriceCents r = o_PriceCents x" "or_Quantity r = o_Quantity x"
  using assms by (auto simp: placed_orders_def static_def toOrder_def)

lemma cheap_row: "cheap (toOrder r) \<Longrightarrow> 0 \<le> or_FilledQuantity r \<and> or_FilledQuantity r \<le> or_Quantity r"
  by (simp add: cheap_def sane_def toOrder_def)

text \<open>A trade as the rows tell it: a BUY row and a SELL row, neither traded at a worse price than its limit.\<close>

definition genuine :: "DB \<Rightarrow> Trade \<Rightarrow> bool" where
  "genuine d t \<longleftrightarrow> 0 < t_PriceCents t \<and> 0 < t_Quantity t \<and> (\<exists>b\<in>set (db_orders d). \<exists>s\<in>set (db_orders d).
     or_ID b = t_BuyOrderID t \<and> or_UserID b = t_BuyerUserID t \<and> or_Side b = ''BUY'' \<and> t_Quantity t \<le> or_Quantity b \<and>
     or_ID s = t_SellOrderID t \<and> or_UserID s = t_SellerUserID t \<and> or_Side s = ''SELL'' \<and> t_Quantity t \<le> or_Quantity s \<and>
     (\<forall>l. or_Type b = ''LIMIT'' \<longrightarrow> or_PriceCents b = Some l \<longrightarrow> t_PriceCents t \<le> l) \<and>
     (\<forall>l. or_Type s = ''LIMIT'' \<longrightarrow> or_PriceCents s = Some l \<longrightarrow> l \<le> t_PriceCents t))"

lemma known_genuine:
  assumes "trade_known (placed_orders d) t" "db_ok d"
  shows "genuine d t"
proof -
  from assms(1) obtain x y where xy: "static x \<in> placed_orders d" "static y \<in> placed_orders d" "o_Side x = SideBuy" "o_Side y \<noteq> SideBuy"
      "accepts x (t_PriceCents t)" "accepts y (t_PriceCents t)" "t_BuyOrderID t = o_ID x" "t_BuyerUserID t = o_UserID x"
      "t_SellOrderID t = o_ID y" "t_SellerUserID t = o_UserID y" "t_Quantity t \<le> o_Quantity x" "t_Quantity t \<le> o_Quantity y"
      "0 < t_PriceCents t" "0 < t_Quantity t"
    unfolding trade_known_def by blast
  obtain b where b: "b \<in> set (db_orders d)" "or_ID b = o_ID x" "or_UserID b = o_UserID x" "Side_of_string (or_Side b) = o_Side x"
      "Type_of_string (or_Type b) = o_Type x" "or_PriceCents b = o_PriceCents x" "or_Quantity b = o_Quantity x"
    using placed_row [OF xy(1)] by blast
  obtain s where s: "s \<in> set (db_orders d)" "or_ID s = o_ID y" "or_UserID s = o_UserID y" "Side_of_string (or_Side s) = o_Side y"
      "Type_of_string (or_Type s) = o_Type y" "or_PriceCents s = o_PriceCents y" "or_Quantity s = o_Quantity y"
    using placed_row [OF xy(2)] by blast
  have "order_row_ok b" "order_row_ok s" using assms(2) b(1) s(1) by (auto simp: db_ok_def)
  then have sides: "or_Side b = ''BUY''" "or_Side s = ''SELL''" "o_Side y = SideSell"
    using b(4) s(4) xy(3,4) by (auto simp: order_row_ok_def Side_of_string_def split: if_splits)
  have "t_PriceCents t \<le> l" if "or_Type b = ''LIMIT''" "or_PriceCents b = Some l" for l
    using xy(3,5) b(5,6) that by (simp add: accepts_def Type_of_string_def)
  moreover have "l \<le> t_PriceCents t" if "or_Type s = ''LIMIT''" "or_PriceCents s = Some l" for l
    using sides(3) xy(6) s(5,6) that by (simp add: accepts_def Type_of_string_def)
  ultimately show ?thesis unfolding genuine_def
    using xy(7-14) b(1-3,7) s(1-3,7) sides(1,2) by (intro conjI bexI [of _ b] bexI [of _ s]) simp_all
qed

section \<open>A calm environment\<close>

text \<open>Nothing fails and nobody competes: what the processes can do, not what they will.\<close>

definition calm_env :: "SysConfig \<Rightarrow> Env" where
  "calm_env cfg = quiet_env\<lparr>e_marshal := (\<lambda>ev. Some (MarshalEvent (sc_uuidText cfg) ev)), e_unmarshal := UnmarshalEvent (sc_uuidParse cfg)\<rparr>"

definition calm_publisher :: "SysConfig \<Rightarrow> nat \<Rightarrow> PEnv" where
  "calm_publisher cfg n = \<lparr>pe_env = calm_env cfg, pe_xadd = (\<lambda>i. (Works, print_nat i)), pe_ctxDone = (\<lambda>_. False), pe_batchSize = int n\<rparr>"

lemma calm_ok: "env_ok cfg (calm_env cfg)"
  by (auto simp: env_ok_def calm_env_def quiet_env_def scans_rows_def jsonb_ok_def ascii_utf8 ascii_def)

lemma publisher_drains:
  assumes "db_ok (sy_db s)"
  shows "\<exists>w'. runs cfg s (with_publisher s w' []) \<and>
    w_db w' = mark_db (map oe_ID (unpublished (sy_db s))) (sy_db s) \<and> entries w' = entries (publisher_view s 0) @ map entry_of (unpublished (sy_db s))"
proof -
  let ?n = "length (unpublished (sy_db s))"
  let ?penv = "calm_publisher cfg ?n" and ?w = "publisher_view s 0"
  obtain k err w' where p: "PublishOnce ?penv ?w = ((k, err), w')" by (metis prod.collapse)
  have "db_ok (w_db ?w)" using assms by (simp add: publisher_view_def)
  from publish_cycle_complete [OF this _ _ _ _ p]
  have eff: "w_db w' = mark_db (map oe_ID (unpublished (sy_db s))) (sy_db s)" "entries w' = entries ?w @ map entry_of (unpublished (sy_db s))"
    by (simp_all add: calm_publisher_def calm_env_def quiet_env_def Let_def publisher_view_def)
  have "with_publisher s ?w [] = s\<lparr>sy_fetched := []\<rparr>" by (simp add: with_publisher_def publisher_view_def)
  moreover have "step cfg s (s\<lparr>sy_fetched := []\<rparr>)" by (rule step.publisher_stops)
  moreover have "runs cfg (with_publisher s ?w []) (with_publisher s w' [])"
    by (rule PublishOnce_runs [OF p]) (simp add: calm_publisher_def calm_ok)
  ultimately have "runs cfg s (with_publisher s w' [])" using runs_trans runs_one by metis
  then show ?thesis using eff by blast
qed

lemma demo_runE:
  obtains s where "runs demo_cfg demo_start s" "map t_Quantity (db_trades (sy_db s)) = [4]" "map w_BalanceBRLCents (db_wallets (sy_db s)) = [6000, 4000]"
  using demo_runs_traded by (elim exE conjE)

section \<open>Properties\<close>

text \<open>
  C4: no order is lost and no event invented, across all processes, in every reachable state: the schema's constraints
  hold; every order row has a queued NEW_ORDER event that decodes to that very order (owner, side, type, price,
  quantity); every event in the outbox decodes, and a NEW_ORDER event names an order of the table; a row marked published
  is in its stream; the stream holds nothing but queued payloads; and only entries of the stream are marked processed.
\<close>

theorem system_consistent:
  assumes "runs cfg s0 s" "fresh_system s0" "uuid_text_ok (sc_uuidText cfg) (sc_uuidParse cfg)"
    and "wallet_total brl (sy_db s0) \<le> MaxInt64" "wallet_total vib (sy_db s0) \<le> MaxInt64"
  shows "db_ok (sy_db s) \<and>
    (\<forall>r\<in>set (db_orders (sy_db s)). \<exists>ob\<in>set (db_outbox (sy_db s)). ob_StreamName ob = sc_stream cfg \<and>
       (\<exists>ev. UnmarshalEvent (sc_uuidParse cfg) (ob_Payload ob) = Some ev \<and> ev_Type ev = EventTypeNewOrder \<and>
          static (order_of_event ev 0) = static (toOrder r))) \<and>
    (\<forall>ob\<in>set (db_outbox (sy_db s)). \<exists>ev. UnmarshalEvent (sc_uuidParse cfg) (ob_Payload ob) = Some ev \<and>
       (ev_Type ev = EventTypeNewOrder \<longrightarrow> (\<exists>r\<in>set (db_orders (sy_db s)). static (toOrder r) = static (order_of_event ev 0)))) \<and>
    (\<forall>ob\<in>set (db_outbox (sy_db s)). ob_Published ob \<longrightarrow>
       (\<exists>se\<in>set (sy_stream s). se_Stream se = ob_StreamName ob \<and> se_Payload se = ob_Payload ob)) \<and>
    (\<forall>se\<in>set (sy_stream s). \<exists>ob\<in>set (db_outbox (sy_db s)). ob_StreamName ob = se_Stream se \<and> ob_Payload ob = se_Payload se) \<and>
    set (db_processed (sy_db s)) \<subseteq> se_ID ` set (sy_stream s)"
proof -
  have ok: "tables_ok cfg (sy_db s)" "stream_ok s" using runs_ok [OF assms] by (simp_all add: system_ok_def)
  have "accounted cfg (sy_db s) (static (toOrder r))" if "r \<in> set (db_orders (sy_db s))" for r
    using ok(1) that by (simp add: tables_ok_def placed_orders_def)
  moreover have "\<exists>ev. UnmarshalEvent (sc_uuidParse cfg) (ob_Payload ob) = Some ev \<and>
       (ev_Type ev = EventTypeNewOrder \<longrightarrow> (\<exists>r\<in>set (db_orders (sy_db s)). static (toOrder r) = static (order_of_event ev 0)))"
    if "ob \<in> set (db_outbox (sy_db s))" for ob
  proof -
    obtain ev where "row_event cfg ob = Some ev" "event_known (placed_orders (sy_db s)) ev"
      using ok(1) \<open>ob \<in> _\<close> unfolding tables_ok_def by blast
    then show ?thesis by (force simp: row_event_def event_known_def known_order_def placed_orders_def)
  qed
  ultimately show ?thesis
    using ok unfolding accounted_def row_event_def stream_ok_def tables_ok_def by simp
qed

theorem system_consistent_witness:
  "\<exists>s. runs demo_cfg demo_start s \<and> length (db_trades (sy_db s)) = 1 \<and>
     (\<forall>r\<in>set (db_orders (sy_db s)). \<exists>ob\<in>set (db_outbox (sy_db s)). \<exists>ev. demo_unmarshal (ob_Payload ob) = Some ev \<and>
        static (order_of_event ev 0) = static (toOrder r))"
proof -
  obtain s where s: "runs demo_cfg demo_start s" "map t_Quantity (db_trades (sy_db s)) = [4]" by (rule demo_runE)
  have "length (db_trades (sy_db s)) = 1" using s(2) by (metis length_map list.size(3,4) One_nat_def add_0)
  moreover have "sc_uuidParse demo_cfg = uuid_of_digits" by (simp add: demo_cfg_def)
  ultimately show ?thesis
    using s(1) system_consistent [OF s(1) demo_fresh(1) demo_codec] by (simp add: demo_fresh(2,3) MaxInt64_def) metis
qed

text \<open>
  C3: money and Vibranium are conserved over whole runs: whatever requests, batches, faults, retries and restarts
  there were, the sums over all wallets are what they were at the start, exactly, and no bucket of any wallet is negative.
\<close>

theorem system_conserves:
  assumes "runs cfg s0 s" "fresh_system s0" "uuid_text_ok (sc_uuidText cfg) (sc_uuidParse cfg)"
    and "wallet_total brl (sy_db s0) \<le> MaxInt64" "wallet_total vib (sy_db s0) \<le> MaxInt64"
  shows "wallet_total brl (sy_db s) = wallet_total brl (sy_db s0) \<and> wallet_total vib (sy_db s) = wallet_total vib (sy_db s0) \<and>
    (\<forall>w\<in>set (db_wallets (sy_db s)). wallet_checks w)"
  using runs_ok [OF assms] by (simp add: system_ok_def tables_ok_def db_ok_def)

theorem system_conserves_witness:
  "\<exists>s. runs demo_cfg demo_start s \<and> map w_BalanceBRLCents (db_wallets (sy_db s)) = [6000, 4000] \<and>
     wallet_total brl (sy_db s) = 10000 \<and> wallet_total vib (sy_db s) = 10"
proof -
  obtain s where s: "runs demo_cfg demo_start s" "map w_BalanceBRLCents (db_wallets (sy_db s)) = [6000, 4000]" by (rule demo_runE)
  then show ?thesis using system_conserves [OF s(1) demo_fresh(1) demo_codec] demo_fresh(2,3) by (auto simp: MaxInt64_def)
qed

text \<open>
  C2: trades are genuine in every reachable state: each is between a BUY row and a SELL row of the table and their
  owners, of a positive quantity within both orders, at a positive price that is no worse than either limit. No
  row is ever filled beyond its quantity. This holds although recovery can leave the book wrong.
\<close>

theorem system_trades_genuine:
  assumes "runs cfg s0 s" "fresh_system s0" "uuid_text_ok (sc_uuidText cfg) (sc_uuidParse cfg)"
    and "wallet_total brl (sy_db s0) \<le> MaxInt64" "wallet_total vib (sy_db s0) \<le> MaxInt64"
  shows "(\<forall>t\<in>set (db_trades (sy_db s)). genuine (sy_db s) t) \<and>
    (\<forall>r\<in>set (db_orders (sy_db s)). 0 \<le> or_FilledQuantity r \<and> or_FilledQuantity r \<le> or_Quantity r)"
proof -
  have ok: "tables_ok cfg (sy_db s)" using runs_ok [OF assms] by (simp add: system_ok_def)
  then have "genuine (sy_db s) t" if "t \<in> set (db_trades (sy_db s))" for t
    using that known_genuine by (simp add: tables_ok_def rows_known_def)
  then show ?thesis using ok cheap_row by (simp add: tables_ok_def rows_known_def)
qed

theorem system_trades_genuine_witness:
  "\<exists>s t. runs demo_cfg demo_start s \<and> db_trades (sy_db s) = [t] \<and> t_Quantity t = 4 \<and> genuine (sy_db s) t"
proof -
  obtain s where s: "runs demo_cfg demo_start s" "map t_Quantity (db_trades (sy_db s)) = [4]" by (rule demo_runE)
  then obtain t where t: "db_trades (sy_db s) = [t]" "t_Quantity t = 4" by auto
  have "genuine (sy_db s) t" using system_trades_genuine [OF s(1) demo_fresh(1) demo_codec] t(1) by (simp add: demo_fresh(2,3) MaxInt64_def)
  then show ?thesis using s(1) t by blast
qed

text \<open>
  C16: history is append-only: from a reachable state on, no step of any process removes or reorders a trade, an
  order, an outbox row, a stream entry or a processed mark; a retried or redelivered batch cannot unmark an entry.
\<close>

theorem system_history:
  assumes "runs cfg s0 s" "runs cfg s s'" "fresh_system s0" "uuid_text_ok (sc_uuidText cfg) (sc_uuidParse cfg)"
    and "wallet_total brl (sy_db s0) \<le> MaxInt64" "wallet_total vib (sy_db s0) \<le> MaxInt64"
  shows "extends s s'"
  by (rule runs_extends [OF assms(2) runs_ok [OF assms(1,3-6)] assms(4-6)])

theorem system_history_witness:
  "extends demo_placed demo_published \<and> runs demo_cfg demo_start demo_placed"
  using system_history [OF demo_runs_placed demo_runs_published demo_fresh(1) demo_codec] demo_runs_placed
  by (simp add: demo_fresh(2,3) MaxInt64_def)



section \<open>The services\<close>

text \<open>
  C19: the publisher service is made of steps: whenever its loop ends (its context cancelled), what it did to the
  tables and the stream from a state without a batch in progress is a run of the system's step relation.
\<close>

theorem publisher_service_runs:
  assumes "PublisherRun penv w = Some (e, w')" "env_ok cfg (pe_env penv)"
  shows "runs cfg (with_publisher s w []) (with_publisher s w' [])"
proof -
  let ?P = "\<lambda>penv w z. env_ok cfg (pe_env penv) \<longrightarrow> runs cfg (with_publisher s w []) (with_publisher s (snd z) [])"
  have "?P penv w (e, w')"
  proof (rule PublisherRun.raw_induct [of ?P, OF _ assms(1)], goal_cases)
    case (1 loop penv w z)
    obtain x w1 where p: "PublishOnce penv w = (x, w1)" by fastforce
    show ?case
    proof (cases "pe_ctxDone penv (w_step w)")
      case True
      then show ?thesis using 1(2) by (auto simp: runs_refl)
    next
      case False
      then have "loop penv w1 = Some z" using 1(2) p by simp
      then show ?thesis using 1(1) runs_trans PublishOnce_runs [OF p] by blast
    qed
  qed
  then show ?thesis using assms(2) by simp
qed

text \<open>A publisher that is cancelled after its first cycle, and a matcher after the batch it reclaimed.\<close>

definition demo_stopping :: "(StreamEvent \<Rightarrow> string) \<Rightarrow> (string \<Rightarrow> StreamEvent option) \<Rightarrow> PEnv" where
  "demo_stopping M U = (demo_penv M U)\<lparr>pe_xadd := (\<lambda>n. (Works, if n < 8 then ''1-0'' else ''2-0'')), pe_ctxDone := (\<lambda>n. 0 < n)\<rparr>"

lemma demo_cycle:
  "let w = snd (PublishOnce (demo_stopping M U) \<lparr>w_db = demo_tables [demo_row 1 p False, demo_row 2 q False], w_step = 0, pw_stream = []\<rparr>)
   in w_db w = demo_tables [demo_row 1 p True, demo_row 2 q True] \<and> pw_stream w = [demo_entry ''1-0'' p, demo_entry ''2-0'' q] \<and> 0 < w_step w"
  by (code_simp; simp add: equal_eq)

theorem publisher_service_runs_witness: "runs demo_cfg demo_placed demo_published"
proof -
  let ?penv = "demo_stopping demo_marshal demo_unmarshal" and ?w = "publisher_view demo_placed 0"
  obtain x w' where p: "PublishOnce ?penv ?w = (x, w')" by fastforce
  have v: "?w = \<lparr>w_db = demo_tables [demo_row 1 (demo_text demo_sell) False, demo_row 2 (demo_text demo_buy) False], w_step = 0, pw_stream = []\<rparr>"
    by (simp add: publisher_view_def demo_placed_def)
  have w': "w_db w' = sy_db demo_published" "pw_stream w' = sy_stream demo_published" "0 < w_step w'"
    using demo_cycle [of demo_marshal demo_unmarshal "demo_text demo_sell" "demo_text demo_buy"] p
    by (simp_all add: v demo_published_def Let_def)
  have "PublisherRun ?penv w' = Some (CtxCancelled, w')"
    using w'(3) by (subst PublisherRun.simps) (simp add: demo_stopping_def)
  then have r: "PublisherRun ?penv ?w = Some (CtxCancelled, w')"
    using p by (subst PublisherRun.simps) (simp add: v demo_stopping_def)
  have env: "env_ok demo_cfg (pe_env ?penv)" using demo_env_ok by (simp add: demo_stopping_def demo_penv_def)
  have "with_publisher demo_placed ?w [] = demo_placed" "with_publisher demo_placed w' [] = demo_published"
    by (simp_all add: with_publisher_def publisher_view_def w') (simp_all add: demo_placed_def demo_published_def)
  then show ?thesis using publisher_service_runs [OF r env, of demo_placed] by simp
qed

text \<open>
  C18: so is the matcher service: whenever \<open>Run\<close> returns (cancelled, failed or by a panic), everything it did from
  boot on (the entries it reclaimed, the batches it applied, the recoveries after a failure) is a run of the step
  relation, the book and the \<open>bookDirty\<close> flag included, if Redis hands out entries of the stream.
\<close>

theorem matcher_service_runs:
  assumes "Run menv w = Some (r, w')" "matcher_ok cfg menv" "reads_entries cfg s menv"
  shows "runs cfg (with_matcher s w) (after_call r w' s)"
proof -
  obtain r1 w1 where c: "ReclaimPending menv w = Some (r1, w1)" using assms(1) by (auto simp: Run_def split: option.splits)
  note 1 = ReclaimPending_runs [OF c assms(2,3)]
  show ?thesis
  proof (cases r1)
    case (Inl e)
    then show ?thesis using assms(1) c 1 by (simp add: Run_def)
  next
    case (Inr u)
    then have "run_loop menv w1 = Some (r, w')" using assms(1) c by (simp add: Run_def)
    from runs_trans [OF run_loop_runs [OF this assms(2,3)]] show ?thesis using 1 Inr by (simp add: after_call_with)
  qed
qed

definition demo_messages :: "string \<Rightarrow> string \<Rightarrow> XMessage list" where
  "demo_messages p q = [\<lparr>xm_ID = ''1-0'', xm_Payload = Some p\<rparr>, \<lparr>xm_ID = ''2-0'', xm_Payload = Some q\<rparr>]"

definition demo_reclaiming :: "(StreamEvent \<Rightarrow> string) \<Rightarrow> (string \<Rightarrow> StreamEvent option) \<Rightarrow> string \<Rightarrow> string \<Rightarrow> MEnv" where
  "demo_reclaiming M U p q = (demo_menv M U)\<lparr>me_xreadgroup := (\<lambda>n start cnt. Streams [demo_messages p q]), me_ctxDone := (\<lambda>n. 31 < n)\<rparr>"

lemma demo_reclaimed:
  "let r = decoded_batch (demo_reclaiming M U p' q') [(''1-0'', new_order_event demo_sell), (''2-0'', new_order_event demo_buy)]
       \<lparr>w_db = demo_tables [demo_row 1 p True, demo_row 2 q True], w_step = 31, mw_book = NewBook, mw_cache = [], mw_bookDirty = False\<rparr>
   in fst r = Inr () \<and> map t_Quantity (db_trades (w_db (snd r))) = [4] \<and> 31 < w_step (snd r)"
  by (code_simp; simp add: equal_eq)

theorem matcher_service_runs_witness:
  "\<exists>s. runs demo_cfg demo_published s \<and> map t_Quantity (db_trades (sy_db s)) = [4]"
proof -
  let ?p = "demo_text demo_sell" and ?q = "demo_text demo_buy"
  let ?menv = "demo_reclaiming demo_marshal demo_unmarshal ?p ?q" and ?msgs = "demo_messages ?p ?q"
  let ?boot = "matcher_view demo_published NewBook False [] 30" and ?w = "matcher_view demo_published NewBook False [] 31"
  have u: "e_unmarshal (me_env ?menv) = demo_unmarshal" by (simp add: demo_reclaiming_def demo_menv_def demo_env_def)
  have "applyBatch ?menv ?msgs ?w = decoded_batch ?menv [(''1-0'', new_order_event demo_sell), (''2-0'', new_order_event demo_buy)] ?w"
    by (subst decoded_applyBatch [of _ _ "\<lambda>m. if xm_ID m = ''1-0'' then new_order_event demo_sell else new_order_event demo_buy"])
      (simp_all add: message_event_def u demo_text_event demo_messages_def)
  moreover have "?w = \<lparr>w_db = demo_tables [demo_row 1 ?p True, demo_row 2 ?q True], w_step = 31, mw_book = NewBook, mw_cache = [], mw_bookDirty = False\<rparr>"
    by (simp add: matcher_view_def demo_published_def)
  moreover obtain r w' where a: "applyBatch ?menv ?msgs ?w = (r, w')" by fastforce
  ultimately have t: "r = Inr ()" "map t_Quantity (db_trades (w_db w')) = [4]" "31 < w_step w'"
    using demo_reclaimed [of demo_marshal demo_unmarshal ?p ?q ?p ?q] by (simp_all add: Let_def)
  have p: "processMessages ?menv ?msgs ?w = (Inr 2, tick w')"
    using a t(1) by (simp add: processMessages_def demo_messages_def bind_ok_def Ack_def return_ok_def demo_reclaiming_def demo_menv_def matcher_env_def)
  have "ReclaimPending ?menv (tick w') = Some (Inl CtxCancelled, tick w')"
    using t(3) by (subst ReclaimPending.simps) (simp add: demo_reclaiming_def tick_def)
  moreover have "ReadPending ?menv (me_batchSize ?menv) ?boot = (Inr ?msgs, ?w)"
    by (simp add: ReadPending_def read_group_def demo_reclaiming_def demo_messages_def tick_def matcher_view_def)
  moreover have "\<not> me_ctxDone ?menv (w_step ?boot)" "?msgs \<noteq> []" by (simp_all add: demo_reclaiming_def demo_messages_def matcher_view_def)
  ultimately have "ReclaimPending ?menv ?boot = Some (Inl CtxCancelled, tick w')"
    using p by (subst ReclaimPending.simps) simp
  then have r: "Run ?menv ?boot = Some (Inl CtxCancelled, tick w')" by (simp add: Run_def)
  have m: "matcher_ok demo_cfg ?menv" using demo_matcher_ok by (simp add: matcher_ok_def demo_reclaiming_def)
  have "delivered demo_cfg demo_published ?msgs"
    by (simp add: delivered_def demo_published_def demo_entry_def demo_cfg_def demo_messages_def)
  then have d: "reads_entries demo_cfg demo_published ?menv" by (simp add: reads_entries_def demo_reclaiming_def)
  have "with_matcher demo_published ?boot = demo_published" by (simp add: with_matcher_def matcher_view_def demo_published_def)
  moreover have "sy_db (after_call (Inl CtxCancelled :: app_error + unit) (tick w') demo_published) = w_db w'"
    by (simp add: after_call_def tick_def)
  ultimately show ?thesis using matcher_service_runs [OF r m d] t(2) by metis
qed

end
