(* ===== verification/Service_Boot.thy ===== *)
theory Service_Boot
  imports Service_Config Matcher_Conservation Outbox_Publisher Http_Api
begin

text \<open>
  The three commands under \<open>cmd/\<close> and the connection set-up they call (\<open>platform/logger\<close>, \<open>platform/telemetry\<close>,
  \<open>platform/db\<close>, \<open>platform/redisclient\<close>, \<open>redisstream.NewConsumer\<close>): which step can end the process and how, and with
  which settings the matcher, the publisher and the API start. Whether a library call succeeds is a parameter.
\<close>

section \<open>Parameters and outcomes\<close>

text \<open>\<open>XGROUP CREATE\<close>: created, refused with the BUSYGROUP prefix, or any other error.\<close>

datatype group_reply = GroupCreated | GroupBusy | GroupRefused

record Consumer =
  co_stream :: string
  co_group :: string
  co_name :: string

record BEnv =
  be_config :: CEnv
  be_levelKnown :: "string \<Rightarrow> bool"
  be_buildLogger :: "string \<Rightarrow> bool"
  be_exporter :: "string \<Rightarrow> bool \<Rightarrow> bool"
  be_resource :: "string \<Rightarrow> bool"
  be_sqlOpen :: "string \<Rightarrow> bool"
  be_sqlStats :: "string \<Rightarrow> bool"
  be_sqlPing :: "string \<Rightarrow> bool"
  be_redisParse :: "string \<Rightarrow> bool"
  be_redisInstrument :: "string \<Rightarrow> bool"
  be_redisPing :: "string \<Rightarrow> bool"
  be_xgroupCreate :: "nat \<Rightarrow> string \<Rightarrow> string \<Rightarrow> string \<Rightarrow> group_reply"
  be_xreadgroup :: "Consumer \<Rightarrow> int64 \<Rightarrow> nat \<Rightarrow> string \<Rightarrow> int64 \<Rightarrow> RedisReply"
  be_xack :: "Consumer \<Rightarrow> nat \<Rightarrow> string list \<Rightarrow> bool"
  be_xadd :: "nat \<Rightarrow> fault \<times> string"
  be_ctxDone :: "nat \<Rightarrow> bool"
  be_env :: Env

text \<open>
  How a process ends: \<open>panic(err)\<close> in \<open>main\<close>, a run-time panic, \<open>time.NewTicker\<close>'s panic, \<open>log.Fatal\<close> with its
  message, or the end of \<open>main\<close>.
\<close>

datatype boot_failure = BadConfig config_error | LoggerFailed

datatype exit = PanicExit boot_failure | RuntimePanic go_panic | TickerPanic | FatalExit string | Stopped

section \<open>Platform\<close>

definition logger_New :: "BEnv \<Rightarrow> string \<Rightarrow> string option" where
  "logger_New benv level =
     (let lvl = if be_levelKnown benv level then level else ''info''
      in if be_buildLogger benv lvl then Some lvl else None)"

record TracerProvider =
  tp_Endpoint :: string
  tp_Insecure :: bool
  tp_Service :: string
  tp_Ratio :: float64

definition InitTracerProvider :: "BEnv \<Rightarrow> string \<Rightarrow> float64 \<Rightarrow> string \<Rightarrow> TracerProvider option" where
  "InitTracerProvider benv exporterEndpoint sampleRatio serviceName =
     (case splitEndpoint exporterEndpoint of (endpoint, insecure) \<Rightarrow>
        if \<not> be_exporter benv endpoint insecure then None
        else if \<not> be_resource benv serviceName then None
        else Some \<lparr>tp_Endpoint = endpoint, tp_Insecure = insecure, tp_Service = serviceName, tp_Ratio = sample_ratio sampleRatio\<rparr>)"

record Pool =
  pl_DSN :: string
  pl_MaxOpenConns :: nat
  pl_MaxIdleConns :: nat
  pl_ConnMaxLifetime :: int64

definition db_Connect :: "BEnv \<Rightarrow> string \<Rightarrow> Pool option" where
  "db_Connect benv dsn =
     (if \<not> be_sqlOpen benv dsn then None
      else if \<not> be_sqlStats benv dsn then None
      else if \<not> be_sqlPing benv dsn then None
      else Some \<lparr>pl_DSN = dsn, pl_MaxOpenConns = 25, pl_MaxIdleConns = 25, pl_ConnMaxLifetime = 5 * 60 * 1000 * Millisecond\<rparr>)"

definition redis_Connect :: "BEnv \<Rightarrow> string \<Rightarrow> bool" where
  "redis_Connect benv redisURL = (be_redisParse benv redisURL \<and> be_redisInstrument benv redisURL \<and> be_redisPing benv redisURL)"

text \<open>A group that exists already is no error; a new one starts after the stream's last entry (\<open>$\<close>).\<close>

definition NewConsumer :: "BEnv \<Rightarrow> string \<Rightarrow> string \<Rightarrow> string \<Rightarrow> ('z World_scheme, Consumer) action" where
  "NewConsumer benv stream grp consumerName w =
     (case be_xgroupCreate benv (w_step w) stream grp ''$'' of
        GroupRefused \<Rightarrow> (Inl RedisFault, tick w)
      | _ \<Rightarrow> (Inr \<lparr>co_stream = stream, co_group = grp, co_name = consumerName\<rparr>, tick w))"

text \<open>What the three commands have in common: configuration, logger, tracing, database.\<close>

definition startup :: "BEnv \<Rightarrow> string \<Rightarrow> exit + Config" where
  "startup benv service =
     (case Load (be_config benv) of
        Inl e \<Rightarrow> Inl (PanicExit (BadConfig e))
      | Inr cfg \<Rightarrow>
          if logger_New benv (cf_LogLevel cfg) = None then Inl (PanicExit LoggerFailed)
          else if InitTracerProvider benv (cf_OtelExporterEndpoint cfg) (cf_OtelTracesSampleRatio cfg) service = None
          then Inl (FatalExit ''failed to initialize tracing'')
          else if db_Connect benv (cf_DatabaseURL cfg) = None then Inl (FatalExit ''failed to connect to postgres'')
          else Inr cfg)"

section \<open>The matcher\<close>

definition loop_env :: "BEnv \<Rightarrow> Config \<Rightarrow> Consumer \<Rightarrow> MEnv" where
  "loop_env benv cfg consumer =
     \<lparr>me_env = be_env benv, me_xreadgroup = be_xreadgroup benv consumer (cf_MatcherBatchTimeout cfg), me_xack = be_xack benv consumer,
      me_ctxDone = be_ctxDone benv, me_streamName = cf_OrdersStreamName cfg, me_batchSize = cf_MatcherBatchSize cfg\<rparr>"

definition new_loop :: "Book \<Rightarrow> World \<Rightarrow> MWorld" where
  "new_loop book w = World.extend w (MWorld.fields book [] False)"

text \<open>The end of \<open>main\<close>: an error of \<open>Run\<close> is fatal unless the process was asked to stop.\<close>

fun matcher_exit :: "BEnv \<Rightarrow> (app_error + unit) \<times> MWorld \<Rightarrow> exit \<times> MWorld" where
  "matcher_exit benv (Inl (Panics p), w) = (RuntimePanic p, w)"
| "matcher_exit benv (Inl e, w) = (if be_ctxDone benv (w_step w) then Stopped else FatalExit ''matcher loop exited unexpectedly'', w)"
| "matcher_exit benv (Inr _, w) = (Stopped, w)"

definition main_matcher :: "BEnv \<Rightarrow> World \<Rightarrow> (exit \<times> MWorld) option" where
  "main_matcher benv w =
     (case startup benv ''trade-market-matcher'' of
        Inl x \<Rightarrow> Some (x, new_loop NewBook w)
      | Inr cfg \<Rightarrow>
          if \<not> redis_Connect benv (cf_RedisURL cfg) then Some (FatalExit ''failed to connect to redis'', new_loop NewBook w)
          else
            (case RecoverBook (be_env benv) w of
               (Inl (Panics p), w1) \<Rightarrow> Some (RuntimePanic p, new_loop NewBook w1)
             | (Inl e, w1) \<Rightarrow> Some (FatalExit ''failed to recover book'', new_loop NewBook w1)
             | (Inr book, w1) \<Rightarrow>
                 (case NewConsumer benv (cf_OrdersStreamName cfg) (cf_ConsumerGroupName cfg) ''matcher-1'' w1 of
                    (Inl e, w2) \<Rightarrow> Some (FatalExit ''failed to create redis consumer group'', new_loop book w2)
                  | (Inr consumer, w2) \<Rightarrow> map_option (matcher_exit benv) (Run (loop_env benv cfg consumer) (new_loop book w2)))))"

section \<open>The outbox publisher\<close>

definition publish_env :: "BEnv \<Rightarrow> Config \<Rightarrow> PEnv" where
  "publish_env benv cfg = \<lparr>pe_env = be_env benv, pe_xadd = be_xadd benv, pe_ctxDone = be_ctxDone benv, pe_batchSize = cf_OutboxBatchSize cfg\<rparr>"

text \<open>\<open>Run\<close> with the ticker it starts with; \<open>time.NewTicker\<close> panics on an interval that is not positive.\<close>

definition Publisher_Run :: "PEnv \<Rightarrow> int64 \<Rightarrow> PWorld \<Rightarrow> (app_error option \<times> PWorld) option" where
  "Publisher_Run penv interval w =
     (if interval \<le> 0 then Some (None, w) else map_option (\<lambda>(e, w'). (Some e, w')) (PublisherRun penv w))"

fun publisher_exit :: "BEnv \<Rightarrow> app_error option \<times> PWorld \<Rightarrow> exit \<times> PWorld" where
  "publisher_exit benv (None, w) = (TickerPanic, w)"
| "publisher_exit benv (Some e, w) = (if be_ctxDone benv (w_step w) then Stopped else FatalExit ''publisher loop exited unexpectedly'', w)"

definition main_outbox :: "BEnv \<Rightarrow> PWorld \<Rightarrow> (exit \<times> PWorld) option" where
  "main_outbox benv w =
     (case startup benv ''trade-market-outbox-publisher'' of
        Inl x \<Rightarrow> Some (x, w)
      | Inr cfg \<Rightarrow>
          if \<not> redis_Connect benv (cf_RedisURL cfg) then Some (FatalExit ''failed to connect to redis'', w)
          else map_option (publisher_exit benv) (Publisher_Run (publish_env benv cfg) (cf_OutboxPollInterval cfg) w))"

section \<open>The API\<close>

record Server =
  sv_Addr :: string
  sv_Handler :: "HttpRequest \<Rightarrow> World \<Rightarrow> HttpResponse \<times> World"
  sv_ReadHeaderTimeout :: int64
  sv_ReadTimeout :: int64
  sv_WriteTimeout :: int64
  sv_MaxHeaderBytes :: nat

text \<open>The wiring of \<open>main\<close> up to the server it starts: every handler works on the one pool, with the one stream name.\<close>

definition main_api :: "BEnv \<Rightarrow> HEnv \<Rightarrow> exit + Server" where
  "main_api benv lib =
     (case startup benv ''trade-market-api'' of
        Inl x \<Rightarrow> Inl x
      | Inr cfg \<Rightarrow>
          Inr \<lparr>sv_Addr = '':'' @ cf_AppPort cfg,
               sv_Handler = serve (lib\<lparr>he_tenv := he_tenv lib\<lparr>te_env := be_env benv\<rparr>, he_streamName := cf_OrdersStreamName cfg\<rparr>),
               sv_ReadHeaderTimeout = 5 * 1000 * Millisecond, sv_ReadTimeout = 10 * 1000 * Millisecond,
               sv_WriteTimeout = 10 * 1000 * Millisecond, sv_MaxHeaderBytes = 2 ^ 20\<rparr>)"

end
