(* ===== verification/Matcher_Termination.thy ===== *)
theory Matcher_Termination
  imports Match_Returns Matcher_Conservation
begin

text \<open>
  The matcher ends. A loop of the matcher checks the context in every pass and talks to Redis or Postgres in
  every pass, so it ends once the context is cancelled, provided nothing inside a pass runs for ever; the only
  candidate is \<open>Match\<close>, and it returns on the books the matcher can reach.
\<close>

section \<open>What the matcher keeps\<close>

text \<open>\<open>Q\<close> is the quantity an order id was placed with. Rows, stored orders and events agree with it.\<close>

definition rows_ok :: "(uuid \<Rightarrow> int) \<Rightarrow> DB \<Rightarrow> bool" where
  "rows_ok Q d \<longleftrightarrow> (\<forall>r\<in>set (db_orders d). or_Quantity r = Q (or_ID r) \<and> Q (or_ID r) \<le> MaxInt64 \<and>
     0 \<le> or_FilledQuantity r \<and> or_FilledQuantity r \<le> Q (or_ID r))"

definition stream_fits :: "MEnv \<Rightarrow> (uuid \<Rightarrow> int) \<Rightarrow> bool" where
  "stream_fits menv Q \<longleftrightarrow> (\<forall>i. 0 \<le> Q i) \<and> (\<forall>n rows. set (e_scan (me_env menv) n rows) \<subseteq> set rows) \<and>
     (\<forall>s ev. e_unmarshal (me_env menv) s = Some ev \<longrightarrow> ev_Type ev = EventTypeNewOrder \<longrightarrow>
        in64 (ev_Quantity ev) \<and> ev_Quantity ev \<le> Q (ev_OrderID ev))"

definition steady :: "(uuid \<Rightarrow> int) \<Rightarrow> MWorld \<Rightarrow> bool" where
  "steady Q w \<longleftrightarrow> rows_ok Q (w_db w) \<and> store_ok Q (mw_book w)"

text \<open>An action that returns, keeps this, does not go back in time, and hands on values with a property.\<close>

definition ends :: "(uuid \<Rightarrow> int) \<Rightarrow> ('a \<Rightarrow> bool) \<Rightarrow> (MWorld, 'a) action \<Rightarrow> bool" where
  "ends Q P act \<longleftrightarrow> (\<forall>w r w'. steady Q w \<longrightarrow> act w = (r, w') \<longrightarrow>
     steady Q w' \<and> w_step w \<le> w_step w' \<and> r \<noteq> Inl NeverReturns \<and> (\<forall>x. r = Inr x \<longrightarrow> P x))"

abbreviation ends_any :: "(uuid \<Rightarrow> int) \<Rightarrow> (MWorld, 'a) action \<Rightarrow> bool" where
  "ends_any Q \<equiv> ends Q (\<lambda>_. True)"

lemma endsD:
  assumes "ends Q P act" "steady Q w" "act w = (r, w')"
  shows "steady Q w'" "w_step w \<le> w_step w'" "r \<noteq> Inl NeverReturns" "r = Inr x \<Longrightarrow> P x"
  using assms by (auto simp: ends_def)

lemma ends_bind:
  assumes "ends Q P m" "\<And>x. P x \<Longrightarrow> ends Q R (k x)"
  shows "ends Q R (bind_ok m k)"
  unfolding ends_def
proof (intro allI impI)
  fix w r w'
  assume w: "steady Q w" and b: "bind_ok m k w = (r, w')"
  obtain r1 w1 where m: "m w = (r1, w1)" by fastforce
  note 1 = endsD [OF assms(1) w m]
  show "steady Q w' \<and> w_step w \<le> w_step w' \<and> r \<noteq> Inl NeverReturns \<and> (\<forall>x. r = Inr x \<longrightarrow> R x)"
  proof (cases r1)
    case (Inl e)
    then show ?thesis using b m 1 by (auto simp: bind_ok_def)
  next
    case (Inr x)
    then have "k x w1 = (r, w')" using b m by (simp add: bind_ok_def)
    from endsD [OF assms(2) 1(1) this] 1 Inr show ?thesis by (auto intro: order_trans)
  qed
qed

lemma ends_branch:
  "(c \<Longrightarrow> ends Q P a) \<Longrightarrow> (\<not> c \<Longrightarrow> ends Q P b) \<Longrightarrow> ends Q P (if c then a else b)"
  "ends Q P a \<Longrightarrow> (\<And>x. opt = Some x \<Longrightarrow> ends Q P (f x)) \<Longrightarrow> ends Q P (case opt of None \<Rightarrow> a | Some x \<Rightarrow> f x)"
  "(\<And>x. ends Q P (g x)) \<Longrightarrow> (\<And>y. ends Q P (k y)) \<Longrightarrow> ends Q P (case sm of Inl x \<Rightarrow> g x | Inr y \<Rightarrow> k y)"
  by (auto split: option.split sum.split)

lemma steady_frame [simp]:
  "steady Q (tick w) = steady Q w" "steady Q (w\<lparr>mw_cache := c\<rparr>) = steady Q w" "steady Q (w\<lparr>mw_bookDirty := x\<rparr>) = steady Q w"
  by (simp_all add: steady_def tick_def)

lemma rows_ok_frame [simp]:
  "rows_ok Q (d\<lparr>db_wallets := a\<rparr>) = rows_ok Q d" "rows_ok Q (d\<lparr>db_trades := b\<rparr>) = rows_ok Q d"
  "rows_ok Q (d\<lparr>db_processed := c\<rparr>) = rows_ok Q d" "rows_ok Q (d\<lparr>db_outboxSeq := i\<rparr>) = rows_ok Q d"
  by (simp_all add: rows_ok_def)

lemma ends_simple:
  "P x \<Longrightarrow> ends Q P (return_ok x)" "e \<noteq> NeverReturns \<Longrightarrow> ends Q P (return_err e)"
  "ends_any Q (now env)" "ends_any Q (new_uuid env)" "ends_any Q (wallet_do u op)"
  by (auto simp: ends_def return_ok_def return_err_def now_def new_uuid_def wallet_do_def split: option.splits sum.splits)

lemma ends_statement:
  assumes "\<And>n d x d'. f n d = Inr (x, d') \<Longrightarrow> rows_ok Q d \<Longrightarrow> rows_ok Q d' \<and> P x" "\<And>n d. f n d \<noteq> Inl NeverReturns"
  shows "ends Q P (statement env f)"
  unfolding ends_def
proof (intro allI impI)
  fix w :: MWorld and r w'
  assume "steady Q w" and s: "statement env f w = (r, w')"
  then show "steady Q w' \<and> w_step w \<le> w_step w' \<and> r \<noteq> Inl NeverReturns \<and> (\<forall>x. r = Inr x \<longrightarrow> P x)"
    using assms(2) [of "w_step w" "w_db w"]
    by (cases "f (w_step w) (w_db w)")
      (auto simp: statement_def steady_def tick_def split: if_splits dest!: assms(1))
qed

lemma ends_repo:
  "ends_any Q (WalletRepo_Update env wal)" "ends_any Q (TradeRepo_Insert env t)" "ends_any Q (ProcessedRepo_TryMark env i sn)"
  "ends_any Q (WalletRepo_GetForUpdate env u)"
  unfolding repo_defs by (rule ends_statement; auto split: if_splits option.splits)+

lemma ends_update:
  assumes "row_fits Q ord"
  shows "ends_any Q (OrderRepo_Update env ord)"
  unfolding OrderRepo_Update_def
proof (rule ends_statement, goal_cases)
  case (1 n d x d')
  then have "Q (or_ID r) \<le> MaxInt64" if "r \<in> set (db_orders d)" for r using that by (auto simp: rows_ok_def)
  with 1 show ?case using assms by (fastforce simp: rows_ok_def row_fits_def write_rows_def split: if_splits)
qed (auto split: if_splits)

lemma ends_loadWallet: "ends_any Q (loadWallet menv u)"
proof -
  have "ends_any Q (bind_ok (WalletRepo_GetForUpdate (me_env menv) u) (\<lambda>wal w'. (Inr wal, w'\<lparr>mw_cache := mw_cache w' @ [wal]\<rparr>)))"
    by (rule ends_bind [OF ends_repo(4)]) (auto simp: ends_def)
  then show ?thesis by (auto simp: ends_def loadWallet_def split: option.splits)
qed

lemma ends_for_each: "(\<And>x. x \<in> set xs \<Longrightarrow> ends_any Q (f x)) \<Longrightarrow> ends_any Q (for_each f xs)"
  by (induction xs) (auto intro!: ends_simple ends_bind)

lemmas ends_intros = ends_branch ends_simple ends_repo ends_loadWallet

section \<open>A batch\<close>

definition result_fits :: "(uuid \<Rightarrow> int) \<Rightarrow> MatchResult \<Rightarrow> bool" where
  "result_fits Q res \<longleftrightarrow> row_fits Q (mr_Incoming res) \<and> (\<forall>m\<in>set (mr_TouchedMakers res). row_fits Q m)"

lemma ends_run_match:
  assumes "fresh_order Q ord" "funds_in64 funds" "0 \<le> Q (o_ID ord)"
  shows "ends Q (result_fits Q) (run_match menv ord funds)"
  unfolding ends_def
proof (intro allI impI)
  fix w r w'
  assume w: "steady Q w" and m: "run_match menv ord funds w = (r, w')"
  have "store_ok Q (mw_book w)" using w by (simp add: steady_def)
  from Match_returns [OF this assms, of "\<lambda>n. e_clock (me_env menv) (w_step w + n)"]
  show "steady Q w' \<and> w_step w \<le> w_step w' \<and> r \<noteq> Inl NeverReturns \<and> (\<forall>x. r = Inr x \<longrightarrow> result_fits Q x)"
    using w m by (cases) (auto simp: run_match_def steady_def result_fits_def)
qed

lemma ends_book_cancel: "ends Q (\<lambda>r. \<forall>ord. r = Some ord \<longrightarrow> row_fits Q ord) (book_cancel i)"
  unfolding ends_def
proof (intro allI impI)
  fix w r w'
  assume w: "steady Q w" and m: "book_cancel i w = (r, w')"
  then have "store_ok Q (mw_book w)" by (simp add: steady_def)
  from CancelResting_store [OF _ this] show "steady Q w' \<and> w_step w \<le> w_step w' \<and> r \<noteq> Inl NeverReturns \<and>
      (\<forall>x. r = Inr x \<longrightarrow> (\<forall>ord. x = Some ord \<longrightarrow> row_fits Q ord))"
    using w m by (auto simp: book_cancel_def steady_def split: sum.splits intro: sane_fits)
qed

lemma ends_settle: "ends_any Q (settle_trade menv ord tr)"
  unfolding settle_trade_def release_improvement_def Let_def
  by (intro ends_bind ends_intros ends_bind [where P = "\<lambda>_. True"]) auto

lemma ends_funds: "ends Q funds_in64 (available_funds menv ord)"
  unfolding available_funds_def
  by (intro ends_branch ends_bind [OF ends_loadWallet] ends_simple) (simp_all add: funds_in64_def AvailableBRLCents_def)

lemma ends_releases: "ends_any Q (release_remainder menv ord c)" "ends_any Q (release_cancelled menv ord c)"
  unfolding release_remainder_def release_cancelled_def
  by (intro ends_branch ends_bind [OF ends_loadWallet] ends_simple TrueI app_error.distinct app_error.simps; simp)+

lemma CancelOrder_fits: "row_fits Q ord \<Longrightarrow> row_fits Q (CancelOrder t ord)"
  by (simp add: row_fits_def CancelOrder_def)

lemma ends_entry:
  assumes "stream_fits menv Q" "e_unmarshal (me_env menv) s = Some ev"
  shows "ends_any Q (applyEntry menv ev)"
proof (cases "ev_Type ev")
  case EventTypeNewOrder
  then have f: "fresh_order Q (order_of_event ev t)" "0 \<le> Q (o_ID (order_of_event ev t))" for t
    using assms by (auto simp: stream_fits_def fresh_order_def order_of_event_def)
  have "ends_any Q (applyNewOrder menv ev)"
    unfolding applyNewOrder_def
    by (rule ends_bind [OF ends_simple(3)], rule ends_bind [OF ends_funds], rule ends_bind [OF ends_run_match [OF f(1) _ f(2)]], assumption,
        intro ends_bind [OF ends_for_each [OF ends_settle]] ends_bind [OF ends_for_each [OF ends_update]]
          ends_bind [OF ends_releases(1)] ends_update)
      (auto simp: result_fits_def)
  then show ?thesis using EventTypeNewOrder by (simp add: applyEntry_def)
next
  case EventTypeCancelOrder
  have "ends_any Q (applyCancel menv ev)"
    unfolding applyCancel_def
    by (rule ends_bind [OF ends_book_cancel], intro ends_branch ends_bind [OF ends_simple(3)] ends_bind [OF ends_releases(2)] ends_update
        ends_simple CancelOrder_fits) auto
  then show ?thesis using EventTypeCancelOrder by (simp add: applyEntry_def)
next
  case (EventTypeRaw x)
  then show ?thesis by (simp add: applyEntry_def ends_simple)
qed

lemma ends_messages:
  assumes "stream_fits menv Q"
  shows "ends_any Q (for_each (apply_message menv) msgs)"
  unfolding apply_message_def
  by (intro ends_for_each ends_bind [OF ends_repo(3)] ends_branch ends_simple ends_entry [OF assms] TrueI)

lemma ends_batch:
  assumes "stream_fits menv Q"
  shows "ends_any Q (batch_body menv msgs)"
proof -
  have "ends_any Q (flush_wallets menv)"
    using ends_for_each [of _ Q "WalletRepo_Update (me_env menv)", OF ends_repo(1)] by (simp add: ends_def flush_wallets_def)
  then have b: "ends_any Q (bind_ok (for_each (apply_message menv) msgs) (\<lambda>_. bind_ok (flush_wallets menv) (\<lambda>_. return_ok (Commits ()))))"
    by (intro ends_bind [OF ends_messages [OF assms]] ends_bind [where P = "\<lambda>_. True"] ends_simple TrueI)
  show ?thesis
    unfolding ends_def
  proof (intro allI impI)
    fix w r w'
    assume "steady Q w" "batch_body menv msgs w = (r, w')"
    then show "steady Q w' \<and> w_step w \<le> w_step w' \<and> r \<noteq> Inl NeverReturns \<and> (\<forall>x. r = Inr x \<longrightarrow> True)"
      using endsD [OF b, of "w\<lparr>mw_cache := []\<rparr>" r w'] by (simp add: batch_body_def)
  qed
qed

lemma steady_rolled_back: "steady Q w' \<Longrightarrow> rows_ok Q d \<Longrightarrow> steady Q (rolled_back d w')" "w_step (rolled_back d w') = w_step w'"
  by (simp_all add: steady_def rolled_back_def)

lemma ends_applyBatch:
  assumes "stream_fits menv Q"
  shows "ends_any Q (applyBatch menv msgs)"
  unfolding ends_def
proof (intro allI impI)
  fix w r w'
  assume w: "steady Q w" and a: "applyBatch menv msgs w = (r, w')"
  obtain r1 w1 where b: "batch_body menv msgs (tick w) = (r1, w1)" by fastforce
  have "rows_ok Q (w_db w)" using w by (simp add: steady_def)
  moreover have "steady Q w1" "Suc (w_step w) \<le> w_step w1" "r1 \<noteq> Inl NeverReturns"
    using endsD(1-3) [OF ends_batch [OF assms] _ b] w by simp_all
  ultimately show "steady Q w' \<and> w_step w \<le> w_step w' \<and> r \<noteq> Inl NeverReturns \<and> (\<forall>x. r = Inr x \<longrightarrow> True)"
    using w a b by (auto simp: applyBatch_def in_tx_def commit_def steady_rolled_back split: if_splits sum.splits tx_exit.splits fault.splits)
qed

lemma ends_processMessages:
  assumes "stream_fits menv Q"
  shows "ends_any Q (processMessages menv msgs)"
  unfolding ends_def
proof (intro allI impI)
  fix w r w'
  assume w: "steady Q w" and p: "processMessages menv msgs w = (r, w')"
  obtain r1 w1 where a: "applyBatch menv msgs w = (r1, w1)" by fastforce
  show "steady Q w' \<and> w_step w \<le> w_step w' \<and> r \<noteq> Inl NeverReturns \<and> (\<forall>x. r = Inr x \<longrightarrow> True)"
    using endsD [OF ends_applyBatch [OF assms] w a] w p a
    by (cases r1) (auto simp: processMessages_def Ack_def bind_ok_def return_ok_def split: if_splits)
qed

section \<open>Reading, recovering\<close>

text \<open>Each of these takes at least one interaction.\<close>

definition advances :: "(uuid \<Rightarrow> int) \<Rightarrow> (MWorld, 'a) action \<Rightarrow> bool" where
  "advances Q act \<longleftrightarrow> ends_any Q act \<and> (\<forall>w. w_step w < w_step (snd (act w)))"

lemma advancesD:
  assumes "advances Q act" "steady Q w" "act w = (r, w')"
  shows "steady Q w'" "w_step w < w_step w'" "r \<noteq> Inl NeverReturns"
  using assms endsD [of Q "\<lambda>_. True" act w r w'] unfolding advances_def by (auto dest: spec [of _ w])

lemma advances_read: "advances Q (ReadPending menv n)" "advances Q (ReadBatch menv n)"
  by (auto simp: advances_def ends_def ReadPending_def ReadBatch_def read_group_def split: RedisReply.splits list.splits)

lemma rest_all_store:
  assumes "rest_all os b = Inr b'" "store_ok Q b" "\<forall>x\<in>set os. sane Q x"
  shows "store_ok Q b'"
  using assms by (induction os arbitrary: b) (auto split: if_splits sum.splits dest: AddResting_store)

lemma advances_resync:
  assumes "stream_fits menv Q"
  shows "advances Q (resyncBook menv)"
proof -
  have new: "store_ok Q NewBook"
    using assms by (simp add: store_ok_def NewBook_def no_order_def sane_def stream_fits_def MaxInt64_def)
  have rows: "\<forall>x\<in>set (map toOrder (sort_key or_CreatedAt (filter P (e_scan (me_env menv) n rs)))). sane Q x"
    if "\<forall>r\<in>set rs. or_Quantity r = Q (or_ID r) \<and> Q (or_ID r) \<le> MaxInt64 \<and> 0 \<le> or_FilledQuantity r \<and> or_FilledQuantity r \<le> Q (or_ID r)" for P n rs
  proof -
    have "set (e_scan (me_env menv) n rs) \<subseteq> set rs" using assms by (simp add: stream_fits_def)
    then show ?thesis using that by (auto simp: sane_def toOrder_def dest!: subsetD)
  qed
  show ?thesis
    unfolding advances_def ends_def
  proof (intro conjI allI impI, goal_cases)
    case (1 w r w')
    then show ?case using rows new
      by (auto simp: resyncBook_def RecoverBook_def OrderRepo_ListOpenForRecovery_def bind_ok_def statement_def return_err_def return_ok_def
          steady_def rows_ok_def tick_def split: if_splits sum.splits dest!: rest_all_store [OF _ new])
  qed (auto simp: resyncBook_def RecoverBook_def OrderRepo_ListOpenForRecovery_def bind_ok_def statement_def return_err_def return_ok_def
        split: if_splits sum.splits prod.splits)
qed

section \<open>The loops\<close>

text \<open>The context is cancelled for good at some interaction.\<close>

definition cancelled_from :: "MEnv \<Rightarrow> nat \<Rightarrow> bool" where
  "cancelled_from menv N \<longleftrightarrow> (\<forall>n\<ge>N. me_ctxDone menv n)"

definition returns :: "(uuid \<Rightarrow> int) \<Rightarrow> nat \<Rightarrow> ((app_error + unit) \<times> MWorld) option \<Rightarrow> bool" where
  "returns Q n res \<longleftrightarrow> (\<exists>r w. res = Some (r, w) \<and> steady Q w \<and> n \<le> w_step w)"

lemma returnsI: "steady Q w \<Longrightarrow> n \<le> w_step w \<Longrightarrow> returns Q n (Some (r, w))"
  by (simp add: returns_def)

lemma returns_mono: "returns Q n res \<Longrightarrow> m \<le> n \<Longrightarrow> returns Q m res"
  by (auto simp: returns_def)

text \<open>A loop that checks the context returns when each of its passes does, calls to itself with a later world included.\<close>

lemma until_cancelled [consumes 2, case_names pass]:
  assumes "cancelled_from menv N" "steady Q w"
    and "\<And>w. steady Q w \<Longrightarrow>
      (\<And>v. \<not> me_ctxDone menv (w_step w) \<Longrightarrow> w_step w < w_step v \<Longrightarrow> steady Q v \<Longrightarrow> returns Q (w_step w) (F v)) \<Longrightarrow>
      returns Q (w_step w) (F w)"
  shows "returns Q (w_step w) (F w)"
  using assms(2)
proof (induction "N - w_step w" arbitrary: w rule: less_induct)
  case less
  show ?case
  proof (rule assms(3) [OF less.prems])
    fix v
    assume "\<not> me_ctxDone menv (w_step w)" "w_step w < w_step v" "steady Q v"
    moreover from this have "N - w_step v < N - w_step w"
      using assms(1) by (auto simp: cancelled_from_def not_le intro!: diff_less_mono2)
    ultimately show "returns Q (w_step w) (F v)" using less.hyps [of v] by (simp add: returns_mono [of Q "w_step v"])
  qed
qed

lemma ReclaimPending_returns:
  assumes "stream_fits menv Q" "cancelled_from menv N" "steady Q w"
  shows "returns Q (w_step w) (ReclaimPending menv w)"
  using assms(2,3)
proof (induction rule: until_cancelled)
  case (pass w)
  show ?case
  proof (cases "me_ctxDone menv (w_step w)")
    case True
    then show ?thesis using pass(1) by (subst ReclaimPending.simps) (simp add: returnsI)
  next
    case False
    obtain r1 w1 where rp: "ReadPending menv (me_batchSize menv) w = (r1, w1)" by fastforce
    note a1 = advancesD [OF advances_read(1) pass(1) rp]
    obtain r2 w2 where pm: "processMessages menv (projr r1) w1 = (r2, w2)" by fastforce
    note a2 = endsD [OF ends_processMessages [OF assms(1)] a1(1) pm]
    have IH: "returns Q (w_step w) (ReclaimPending menv w2)"
      using pass(2) [OF False _ a2(1)] a1(2) a2(2) by simp
    show ?thesis
    proof (cases r1)
      case (Inl e)
      then show ?thesis using False rp a1 by (subst ReclaimPending.simps) (simp add: returnsI)
    next
      case (Inr msgs)
      have u: "ReclaimPending menv w = (if msgs = [] then Some (Inr (), w1)
          else (case r2 of Inl NeverReturns \<Rightarrow> None | Inl e \<Rightarrow> Some (Inl e, w2) | Inr _ \<Rightarrow> ReclaimPending menv w2))"
        using False rp pm Inr by (subst ReclaimPending.simps) (simp split: sum.split app_error.split)
      show ?thesis
        unfolding u using a1 a2 IH by (auto simp: returnsI split: sum.split app_error.split)
    qed
  qed
qed

lemma resync_returns:
  assumes "stream_fits menv Q" "cancelled_from menv N" "steady Q w"
  shows "returns Q (w_step w) (resync_until_clean menv w)"
  using assms(2,3)
proof (induction rule: until_cancelled)
  case (pass w)
  show ?case
  proof (cases "mw_bookDirty w \<and> \<not> me_ctxDone menv (w_step w)")
    case False
    then show ?thesis using pass(1) by (subst resync_until_clean.simps) (auto simp: returnsI)
  next
    case True
    obtain r1 w1 where rs: "resyncBook menv w = (r1, w1)" by fastforce
    note a1 = advancesD [OF advances_resync [OF assms(1)] pass(1) rs]
    have IH: "returns Q (w_step w) (resync_until_clean menv w1)" "returns Q (w_step w) (resync_until_clean menv (w1\<lparr>mw_bookDirty := False\<rparr>))"
      using pass(2) True a1 by simp_all
    have "resync_until_clean menv w = (case r1 of Inl (Panics p) \<Rightarrow> Some (Inl (Panics p), w1) | Inl e \<Rightarrow> resync_until_clean menv w1
        | Inr _ \<Rightarrow> resync_until_clean menv (w1\<lparr>mw_bookDirty := False\<rparr>))"
      using True rs by (subst resync_until_clean.simps) (simp split: sum.split app_error.split)
    then show ?thesis using a1 IH by (auto simp: returnsI split: sum.split app_error.split)
  qed
qed

lemma recoverAfterFailure_returns:
  assumes "stream_fits menv Q" "cancelled_from menv N" "steady Q w"
  shows "returns Q (w_step w) (recoverAfterFailure menv w)"
proof -
  from resync_returns [OF assms] obtain r1 w1 where 1: "resync_until_clean menv w = Some (r1, w1)" "steady Q w1" "w_step w \<le> w_step w1"
    by (auto simp: returns_def)
  from ReclaimPending_returns [OF assms(1,2) 1(2)] obtain r2 w2 where
    2: "ReclaimPending menv w1 = Some (r2, w2)" "steady Q w2" "w_step w1 \<le> w_step w2" by (auto simp: returns_def)
  show ?thesis using 1 2 by (auto simp: recoverAfterFailure_def returnsI split: sum.split app_error.split)
qed

lemma run_loop_returns:
  assumes "stream_fits menv Q" "cancelled_from menv N" "steady Q w"
  shows "returns Q (w_step w) (run_loop menv w)"
  using assms(2,3)
proof (induction rule: until_cancelled)
  case (pass w)
  show ?case
  proof (cases "me_ctxDone menv (w_step w)")
    case True
    then show ?thesis using pass(1) by (subst run_loop.simps) (simp add: returnsI)
  next
    case False
    obtain r1 w1 where po: "ProcessOnce menv w = (r1, w1)" by fastforce
    have a1: "steady Q w1" "w_step w < w_step w1" "r1 \<noteq> Inl NeverReturns"
    proof -
      obtain r0 w0 where rb: "ReadBatch menv (me_batchSize menv) w = (r0, w0)" by fastforce
      note a0 = advancesD [OF advances_read(2) pass(1) rb]
      obtain r2 w2 where pm: "processMessages menv (projr r0) w0 = (r2, w2)" by fastforce
      note a2 = endsD [OF ends_processMessages [OF assms(1)] a0(1) pm]
      show "steady Q w1" "w_step w < w_step w1" "r1 \<noteq> Inl NeverReturns"
        using po rb pm a0 a2 by (auto simp: ProcessOnce_def bind_ok_def split: sum.splits)
    qed
    from recoverAfterFailure_returns [OF assms(1,2) a1(1)] obtain r2 w2 where
      2: "recoverAfterFailure menv w1 = Some (r2, w2)" "steady Q w2" "w_step w1 \<le> w_step w2" by (auto simp: returns_def)
    have IH: "returns Q (w_step w) (run_loop menv w1)" "returns Q (w_step w) (run_loop menv w2)"
      using pass(2) False a1 2 by simp_all
    have "run_loop menv w = (case r1 of Inl (Panics p) \<Rightarrow> Some (Inl (Panics p), w1) | Inl NeverReturns \<Rightarrow> None
        | Inl e \<Rightarrow> (case r2 of Inl e' \<Rightarrow> Some (Inl e', w2) | Inr _ \<Rightarrow> run_loop menv w2) | Inr _ \<Rightarrow> run_loop menv w1)"
      using False po 2(1) by (subst run_loop.simps) (simp split: sum.split app_error.split)
    then show ?thesis using a1 2 IH by (auto simp: returnsI split: sum.split app_error.split)
  qed
qed

lemma Run_returns:
  assumes "stream_fits menv Q" "cancelled_from menv N" "steady Q w"
  shows "returns Q (w_step w) (Run menv w)"
proof -
  from ReclaimPending_returns [OF assms] obtain r1 w1 where
    1: "ReclaimPending menv w = Some (r1, w1)" "steady Q w1" "w_step w \<le> w_step w1" by (auto simp: returns_def)
  from run_loop_returns [OF assms(1,2) 1(2)] have "returns Q (w_step w) (run_loop menv w1)" using 1(3) by (rule returns_mono)
  then show ?thesis using 1 by (auto simp: Run_def returnsI split: sum.split)
qed

end
