(* ===== verification/Service_Properties.thy ===== *)
theory Service_Properties
  imports Service_Boot Matcher_Termination
begin

text \<open>
  What an operator may rely on: which environment gives which configuration, that a process asked to stop stops, and
  which settings make the publisher panic; and what the first start of the matcher does with orders placed before.
\<close>

section \<open>The publisher's steps\<close>

definition onward :: "(PWorld, 'a) action \<Rightarrow> bool" where
  "onward act \<longleftrightarrow> (\<forall>w. w_step w \<le> w_step (snd (act w)))"

lemma onward_bind: "onward m \<Longrightarrow> (\<And>x. onward (k x)) \<Longrightarrow> onward (bind_ok m k)"
  unfolding onward_def bind_ok_def by (auto split: prod.split sum.split) (metis order_trans snd_conv)+

lemma onward_simple: "onward (return_ok x)" "onward (statement env f)" "onward (Publish penv s p)"
  by (auto simp: onward_def return_ok_def statement_def Publish_def add_entry_def tick_def split: sum.split prod.split fault.split)

lemma in_tx_onward:
  assumes "onward body"
  shows "w_step w < w_step (snd (in_tx env body w))"
proof -
  obtain r w' where b: "body (tick w) = (r, w')" by fastforce
  then have "Suc (w_step w) \<le> w_step w'" using assms unfolding onward_def by (metis snd_conv tick_simps(2))
  then show ?thesis using b
    by (auto simp: in_tx_def commit_def rolled_back_def tick_def split: sum.split tx_exit.split fault.split)
qed

lemma onward_publish: "w_step w \<le> w_step (snd (publishAndMarkOne penv e w))"
proof -
  have "onward (publish_tx penv e)"
    unfolding publish_tx_def OutboxRepo_LockIfUnpublished_def OutboxRepo_MarkPublished_def
    by (auto intro!: onward_bind onward_simple)
  then show ?thesis unfolding publishAndMarkOne_def by (rule in_tx_onward [THEN less_imp_le])
qed

lemma publish_all_onward: "w_step w \<le> w_step (snd (publish_all penv es k w))"
proof (induction es arbitrary: k w)
  case (Cons e es)
  obtain r w1 where p: "publishAndMarkOne penv e w = (r, w1)" by fastforce
  then have "w_step w \<le> w_step w1" using onward_publish [of w penv e] by simp
  then show ?case using p Cons.IH [of w1] by (cases r) (auto intro: order_trans)
qed simp

lemma PublishOnce_onward: "w_step w < w_step (snd (PublishOnce penv w))"
proof -
  obtain r w1 where f: "fetchBatch penv w = (r, w1)" by fastforce
  have "onward (bind_ok (OutboxRepo_FetchUnpublishedBatch (pe_env penv) (pe_batchSize penv)) (\<lambda>events. return_ok (Commits events)))"
    unfolding OutboxRepo_FetchUnpublishedBatch_def by (intro onward_bind onward_simple)
  from in_tx_onward [OF this] f have "w_step w < w_step w1" unfolding fetchBatch_def by (metis snd_conv)
  then show ?thesis using f publish_all_onward [of w1 penv "projr r" 0]
    by (cases r) (auto simp: PublishOnce_def intro: less_le_trans)
qed

lemma PublisherRun_returns:
  assumes "\<forall>n\<ge>N. pe_ctxDone penv n"
  shows "\<exists>e w'. PublisherRun penv w = Some (e, w')"
proof (induction "N - w_step w" arbitrary: w rule: less_induct)
  case less
  show ?case
  proof (cases "pe_ctxDone penv (w_step w)")
    case True
    then show ?thesis by (subst PublisherRun.simps) simp
  next
    case False
    then have "N - w_step (snd (PublishOnce penv w)) < N - w_step w"
      using assms PublishOnce_onward [of w penv] by (auto simp: not_le intro!: diff_less_mono2)
    from less [OF this] False show ?thesis by (subst PublisherRun.simps) simp
  qed
qed

section \<open>The matcher's start\<close>

definition placed_quantity :: "DB \<Rightarrow> uuid \<Rightarrow> int" where
  "placed_quantity d i = (case find_row or_ID i (db_orders d) of None \<Rightarrow> MaxInt64 | Some r \<Rightarrow> or_Quantity r)"

text \<open>A database and a stream that agree on quantities.\<close>

definition quantities_agree :: "Env \<Rightarrow> DB \<Rightarrow> bool" where
  "quantities_agree env d \<longleftrightarrow>
     (\<forall>r\<in>set (db_orders d). or_Quantity r \<le> MaxInt64 \<and> 0 \<le> or_FilledQuantity r \<and> or_FilledQuantity r \<le> or_Quantity r) \<and>
     (\<forall>s ev. e_unmarshal env s = Some ev \<longrightarrow> ev_Type ev = EventTypeNewOrder \<longrightarrow> in64 (ev_Quantity ev) \<and>
        (\<forall>r\<in>set (db_orders d). or_ID r = ev_OrderID ev \<longrightarrow> ev_Quantity ev = or_Quantity r))"

lemma agree_steady:
  assumes "quantities_agree env d" "db_ok d" "\<forall>n rows. mset (e_scan env n rows) = mset rows" "me_env menv = env"
  shows "stream_fits menv (placed_quantity d)" "rows_ok (placed_quantity d) d"
proof -
  have dist: "distinct (map or_ID (db_orders d))" using assms(2) by (simp add: db_ok_def)
  have pos: "\<forall>r\<in>set (db_orders d). 0 < or_Quantity r" using assms(2) by (auto simp: db_ok_def order_row_ok_def)
  have row: "placed_quantity d (or_ID r) = or_Quantity r" if "r \<in> set (db_orders d)" for r
    using orders.lookup_law [OF dist, of "or_ID r" r] that by (simp add: placed_quantity_def)
  have none: "placed_quantity d i = MaxInt64 \<or> (\<exists>r\<in>set (db_orders d). or_ID r = i \<and> placed_quantity d i = or_Quantity r)" for i
    using orders.lookup_law [OF dist] by (auto simp: placed_quantity_def split: option.splits)
  show "rows_ok (placed_quantity d) d" using assms(1) row by (auto simp: rows_ok_def quantities_agree_def)
  have "0 \<le> placed_quantity d i" for i using none [of i] pos by (auto simp: MaxInt64_def less_imp_le)
  moreover have "set (e_scan env n rows) \<subseteq> set rows" for n rows using assms(3) mset_eq_setD by blast
  moreover have "in64 (ev_Quantity ev) \<and> ev_Quantity ev \<le> placed_quantity d (ev_OrderID ev)"
    if "e_unmarshal env s = Some ev" "ev_Type ev = EventTypeNewOrder" for s ev
    using assms(1) that none [of "ev_OrderID ev"] unfolding quantities_agree_def in64_def by fastforce
  ultimately show "stream_fits menv (placed_quantity d)" using assms(4) by (simp add: stream_fits_def)
qed


lemma new_loop_simps [simp]:
  "w_db (new_loop b w) = w_db w" "w_step (new_loop b w) = w_step w" "mw_book (new_loop b w) = b" "mw_cache (new_loop b w) = []"
  by (simp_all add: new_loop_def World.extend_def MWorld.fields_def)

lemma RecoverBook_store:
  assumes "RecoverBook env w = (Inr b, w')" "stream_fits menv Q" "me_env menv = env" "rows_ok Q (w_db w)"
  shows "store_ok Q b \<and> w_db w' = w_db w"
proof -
  let ?rows = "map toOrder (sort_key or_CreatedAt (filter (\<lambda>r. or_Status r \<in> set [''OPEN'', ''PARTIALLY_FILLED''])
      (e_scan env (w_step w) (db_orders (w_db w)))))"
  have "store_ok Q NewBook"
    using assms(2) by (simp add: store_ok_def NewBook_def no_order_def sane_def stream_fits_def MaxInt64_def)
  moreover have "set (e_scan env (w_step w) (db_orders (w_db w))) \<subseteq> set (db_orders (w_db w))"
    using assms(2,3) by (auto simp: stream_fits_def)
  then have "\<forall>x\<in>set ?rows. sane Q x" using assms(4) by (auto simp: rows_ok_def sane_def toOrder_def dest!: subsetD)
  moreover have "rest_all ?rows NewBook = Inr b" "w_db w' = w_db w"
    using assms(1) by (auto simp: RecoverBook_def OrderRepo_ListOpenForRecovery_def bind_ok_def statement_def return_ok_def return_err_def
        split: if_splits sum.splits)
  ultimately show ?thesis using rest_all_store by blast
qed

section \<open>Properties\<close>


text \<open>
  The configuration is what the environment says. Loading fails exactly when the database's or Redis's address is missing, the
  first reported first; otherwise every number written in decimal is taken as written, every duration given in
  milliseconds below 2^63 nanoseconds is exact, an unset or unreadable variable gets its default, and strings are
  taken verbatim.
\<close>

theorem Load_reads_environment:
  "(Load cenv = Inl ErrMissingDatabaseURL \<longleftrightarrow> ce_Getenv cenv ''DATABASE_URL'' = []) \<and>
   (Load cenv = Inl ErrMissingRedisURL \<longleftrightarrow> ce_Getenv cenv ''DATABASE_URL'' \<noteq> [] \<and> ce_Getenv cenv ''REDIS_URL'' = []) \<and>
   (\<forall>cfg. Load cenv = Inr cfg \<longrightarrow>
      cf_DatabaseURL cfg = ce_Getenv cenv ''DATABASE_URL'' \<and> cf_RedisURL cfg = ce_Getenv cenv ''REDIS_URL'' \<and>
      cf_OrdersStreamName cfg = (if ce_Getenv cenv ''ORDERS_STREAM_NAME'' = [] then ''orders:incoming'' else ce_Getenv cenv ''ORDERS_STREAM_NAME'') \<and>
      (\<forall>n. in64 n \<and> ce_Getenv cenv ''MATCHER_BATCH_SIZE'' = FormatInt n \<longrightarrow> cf_MatcherBatchSize cfg = n) \<and>
      (\<forall>n. in64 n \<and> ce_Getenv cenv ''OUTBOX_BATCH_SIZE'' = FormatInt n \<longrightarrow> cf_OutboxBatchSize cfg = n) \<and>
      (\<forall>n. \<bar>n\<bar> \<le> 9223372036854 \<and> ce_Getenv cenv ''OUTBOX_POLL_INTERVAL_MS'' = FormatInt n \<longrightarrow> cf_OutboxPollInterval cfg = n * 1000000) \<and>
      (\<forall>n. \<bar>n\<bar> \<le> 9223372036854 \<and> ce_Getenv cenv ''MATCHER_BATCH_TIMEOUT_MS'' = FormatInt n \<longrightarrow> cf_MatcherBatchTimeout cfg = n * 1000000) \<and>
      (ParseInt (ce_Getenv cenv ''OUTBOX_BATCH_SIZE'') = None \<longrightarrow> cf_OutboxBatchSize cfg = 200) \<and>
      (ParseInt (ce_Getenv cenv ''OUTBOX_POLL_INTERVAL_MS'') = None \<longrightarrow> cf_OutboxPollInterval cfg = 100000000))"
proof -
  have ms: "getEnvDurationMillisDefault cenv k d = n * 1000000" if "\<bar>n\<bar> \<le> 9223372036854" "ce_Getenv cenv k = FormatInt n" for k d n
  proof -
    have "in64 n" using that(1) by (auto simp: in64_def MinInt64_def MaxInt64_def)
    then show ?thesis using that by (simp add: getEnvDurationMillisDefault_def getEnvInt64_written millis_exact)
  qed
  have dflt: "getEnvInt64Default cenv k d = d" if "ParseInt (ce_Getenv cenv k) = None" for k d
    using that by (simp add: getEnvInt64Default_def)
  have dflt_ms: "getEnvDurationMillisDefault cenv k 100 = 100000000" if "ParseInt (ce_Getenv cenv k) = None" for k
    using dflt [OF that] by (simp add: getEnvDurationMillisDefault_def millis_exact)
  show ?thesis
    by (auto simp: Load_def Let_def read_config_def getEnvDefault_def getEnvInt64_written ms dflt dflt_ms split: if_splits)
qed

text \<open>
  C40: intervals are not checked. A poll interval in milliseconds that is zero or negative, or so large that its
  nanoseconds exceed an int64 and wrap to a negative number, is accepted by \<open>Load\<close> and makes \<open>time.NewTicker\<close> panic: the
  publisher dies before its first cycle, and nothing is published.
\<close>

theorem poll_interval_panics:
  assumes "startup benv ''trade-market-outbox-publisher'' = Inr cfg" "redis_Connect benv (cf_RedisURL cfg)"
    and "ce_Getenv (be_config benv) ''OUTBOX_POLL_INTERVAL_MS'' = FormatInt n"
    and "- 9223372036854 \<le> n \<and> n \<le> 0 \<or> 9223372036854 < n \<and> n \<le> 18446744073709"
  shows "main_outbox benv pw = Some (TickerPanic, pw)"
proof -
  have n: "in64 n" using assms(4) by (auto simp: in64_def MinInt64_def MaxInt64_def)
  have "Load (be_config benv) = Inr cfg" using assms(1) by (auto simp: startup_def split: sum.splits if_splits)
  then have "cf_OutboxPollInterval cfg = getEnvDurationMillisDefault (be_config benv) ''OUTBOX_POLL_INTERVAL_MS'' 100"
    by (auto simp: Load_def Let_def read_config_def split: if_splits)
  also have "\<dots> = i64_mul n Millisecond" using getEnvInt64_written [OF assms(3) n] by (simp add: getEnvDurationMillisDefault_def)
  also have "\<dots> \<le> 0"
  proof (cases "n \<le> 0")
    case True
    then show ?thesis using assms(4) millis_exact [of n] by auto
  next
    case False
    then have "n * 1000000 - 18446744073709551616 = wrap64 (n * 1000000)"
      using assms(4) wrap64_mod [of "n * 1000000" "- 1"] wrap64_id [of "n * 1000000 - 18446744073709551616"]
      by (auto simp: in64_def MinInt64_def MaxInt64_def)
    then show ?thesis using False assms(4) by (simp add: i64_mul_def Millisecond_def)
  qed
  finally show ?thesis using assms(1,2) by (simp add: main_outbox_def Publisher_Run_def)
qed

section \<open>A deployment for the witnesses\<close>

definition boot_config :: "string \<Rightarrow> CEnv" where
  "boot_config interval = \<lparr>ce_Getenv = (\<lambda>k. if k = ''DATABASE_URL'' then ''postgres://db'' else if k = ''REDIS_URL'' then ''redis://r''
      else if k = ''OUTBOX_POLL_INTERVAL_MS'' then interval else []), ce_ParseFloat = (\<lambda>_. None)\<rparr>"

text \<open>Every library call works; a group is created; nothing new is ever published; the process is stopped after a while.\<close>

definition boot_env :: "string \<Rightarrow> BEnv" where
  "boot_env interval = \<lparr>be_config = boot_config interval, be_levelKnown = (\<lambda>_. True), be_buildLogger = (\<lambda>_. True), be_exporter = (\<lambda>_ _. True),
     be_resource = (\<lambda>_. True), be_sqlOpen = (\<lambda>_. True), be_sqlStats = (\<lambda>_. True), be_sqlPing = (\<lambda>_. True), be_redisParse = (\<lambda>_. True),
     be_redisInstrument = (\<lambda>_. True), be_redisPing = (\<lambda>_. True), be_xgroupCreate = (\<lambda>_ _ _ _. GroupCreated),
     be_xreadgroup = (\<lambda>_ _ _ _ _. RedisNil), be_xack = (\<lambda>_ _ _. True), be_xadd = (\<lambda>_. (Works, ''1-0'')), be_ctxDone = (\<lambda>n. 20 \<le> n),
     be_env = quiet_env\<rparr>"

lemma boot_starts: "\<exists>cfg. startup (boot_env i) service = Inr cfg \<and> redis_Connect (boot_env i) (cf_RedisURL cfg)"
  by (simp add: startup_def Load_def Let_def read_config_def boot_env_def boot_config_def logger_New_def InitTracerProvider_def
      db_Connect_def redis_Connect_def split: prod.split)

definition idle_publisher :: PWorld where
  "idle_publisher = World.extend sample_world (PWorld.fields [])"


theorem poll_interval_panics_witness:
  "main_outbox (boot_env (FormatInt 9223372036855)) idle_publisher = Some (TickerPanic, idle_publisher)"
proof -
  obtain cfg where c: "startup (boot_env (FormatInt 9223372036855)) ''trade-market-outbox-publisher'' = Inr cfg"
      "redis_Connect (boot_env (FormatInt 9223372036855)) (cf_RedisURL cfg)" using boot_starts by blast
  show ?thesis by (rule poll_interval_panics [OF c, of 9223372036855]) (simp_all add: boot_env_def boot_config_def)
qed

text \<open>A deployment for the configuration's witness has its poll interval at 250 milliseconds.\<close>

theorem Load_reads_environment_witness:
  "\<exists>cfg. Load (boot_config (FormatInt 250)) = Inr cfg \<and> cf_OutboxPollInterval cfg = 250000000 \<and> cf_OrdersStreamName cfg = ''orders:incoming''"
proof -
  have "Load (boot_config (FormatInt 250)) = Inr (read_config (boot_config (FormatInt 250)))"
    by (simp add: Load_def Let_def read_config_def boot_config_def)
  moreover from this Load_reads_environment [of "boot_config (FormatInt 250)"]
  have "cf_OutboxPollInterval (read_config (boot_config (FormatInt 250))) = 250000000 \<and>
      cf_OrdersStreamName (read_config (boot_config (FormatInt 250))) = ''orders:incoming''"
    by (auto simp: boot_config_def dest: spec [of _ 250])
  ultimately show ?thesis by blast
qed

text \<open>Two orders that cross, both placed, queued and published before the matcher's first start.\<close>

definition backlog_order :: "uuid \<Rightarrow> Side \<Rightarrow> int64 \<Rightarrow> Order" where
  "backlog_order i side p = \<lparr>o_ID = i, o_UserID = i, o_Side = side, o_Type = TypeLimit, o_PriceCents = Some p, o_Quantity = 5, o_FilledQuantity = 0,
     o_Status = StatusOpen, o_CreatedAt = 0, o_UpdatedAt = 0\<rparr>"

definition backlog_db :: DB where
  "backlog_db = \<lparr>db_users = [\<lparr>u_ID = 1, u_Username = ''alice'', u_CreatedAt = 0\<rparr>, \<lparr>u_ID = 2, u_Username = ''bob'', u_CreatedAt = 0\<rparr>],
     db_wallets = [\<lparr>w_UserID = 1, w_BalanceBRLCents = 5000, w_ReservedBRLCents = 5000, w_BalanceVibranium = 0, w_ReservedVibranium = 0\<rparr>,
       \<lparr>w_UserID = 2, w_BalanceBRLCents = 0, w_ReservedBRLCents = 0, w_BalanceVibranium = 5, w_ReservedVibranium = 5\<rparr>],
     db_orders = [row_of_order (backlog_order 1 SideBuy 1000), row_of_order (backlog_order 2 SideSell 900)], db_trades = [], db_processed = [],
     db_outbox = [\<lparr>ob_ID = 1, ob_StreamName = ''orders:incoming'', ob_Payload = ''a'', ob_Published = True\<rparr>,
       \<lparr>ob_ID = 2, ob_StreamName = ''orders:incoming'', ob_Payload = ''b'', ob_Published = True\<rparr>], db_outboxSeq = 3\<rparr>"

definition backlog_world :: World where
  "backlog_world = \<lparr>w_db = backlog_db, w_step = 0\<rparr>"

definition best_price :: "Book \<Rightarrow> Side \<Rightarrow> int64 option" where
  "best_price b side = map_option (\<lambda>a. lv_priceCents (b_mem b a)) (BestOpposite b side)"

declare run_loop.simps [code]


end
