(* ===== verification/Spec2Isabelle.thy ===== *)
theory Spec2Isabelle
  imports Http_Json System_Properties Service_Properties
begin

text \<open>
  Verification of the Vibranium order book: a Go system in which an HTTP API accepts orders, a matcher
  executes them against an in-memory book, and a publisher carries events between the two.

  \<^bold>\<open>The program.\<close> The API (\<open>internal/application/orders\<close>) validates a request, reserves funds in the user's
  wallet, inserts the order row and an outbox row, all in one Postgres transaction. The outbox publisher
  (\<open>internal/application/outboxapp\<close>) copies unpublished outbox rows to a Redis stream with \<open>XADD\<close> and marks them.
  The matcher (\<open>internal/application/matcherapp\<close>) reads the stream in batches; in one transaction per batch it
  marks each entry as processed, runs \<open>matching.Match\<close> on the book, settles trades in the wallets and updates
  order rows. When a batch fails, the book is rebuilt from the open order rows. The domain packages under
  \<open>internal/domain\<close> hold the orders, wallets, trades, the book and the matching engine. The HTTP layer
  (\<open>internal/infra/httpapi\<close>) decodes requests, calls the services and queries and maps their results to responses.
  The commands under \<open>cmd\<close> read the configuration from the environment, connect, and run one of the three parts.

  \<^bold>\<open>Theories and sources.\<close>
  \<^item> \<open>OB_Prelude\<close>: \<open>int64\<close> with wrap-around, panics, fact collections, generic lemmas.
  \<^item> \<open>Go_Heap\<close>: \<open>container/heap\<close> over any \<open>heap.Interface\<close>, with the heap property of \<open>Push\<close> and \<open>Remove\<close>.
  \<^item> \<open>Order_Domain\<close>, \<open>Wallet_Domain\<close>, \<open>Trade_Domain\<close>: \<open>order.go\<close>, \<open>wallet.go\<close>, \<open>trade.go\<close>. The contract of a wallet
    operation is a locale, interpreted for each of the seven operations.
  \<^item> \<open>Price_Book\<close>: \<open>matching/book.go\<close>. Levels and list elements live in explicit stores, since the heap, the price
    index, the locations and the lists alias them. \<open>Book_Invariant\<close> states the representation invariant and that
    every operation keeps it; \<open>Book_Priority\<close> reads a side of the book as one list in price-time priority (locale
    \<open>priority_book\<close>, interpreted for the book) and shows that the operations insert into and delete from it.
  \<^item> \<open>Match_Engine\<close>: \<open>matching/engine.go\<close>, its loop a partial function. \<open>Match_Correct\<close> shows that the loop ends and
    equals a recursion down the priority list; \<open>Match_Properties\<close> draws the consequences. \<open>Match_Returns\<close> shows that
    the loop ends on any book whose orders have sane quantities, negative funds included.
  \<^item> \<open>Postgres_Tables\<close>, \<open>Postgres_Repos\<close>: \<open>internal/infra/postgres\<close> and the migrations. Tables are lists of rows; the
    laws of a table with a primary key are a locale interpreted for wallets, orders and the outbox; each statement
    is its effect on the tables, or an error. An action maps a world to a result and a world; \<open>in_tx\<close> is a
    transaction. \<open>schema_safe\<close> collects the actions that keep the constraints of the schema.
  \<^item> \<open>Order_Services\<close>: placing, cancelling, queries.
  \<^item> \<open>Go_Text\<close>, \<open>Go_Time\<close>: what the program uses of \<open>strconv\<close>, \<open>strings\<close>, \<open>encoding/base64\<close> and \<open>time\<close>: decimal numbers,
    splitting, base64, the calendar and RFC 3339, each with its round trip.
  \<^item> \<open>Trade_Listing\<close>: \<open>ListPaginated\<close> of \<open>trade_repo.go\<close>, its cursor and the query over it.
  \<^item> \<open>Http_Api\<close>: \<open>internal/infra/httpapi\<close>, one definition per handler, the routing table as \<open>dispatch\<close>, the middleware
    around it as \<open>serve\<close>. \<open>Http_Properties\<close>: what a client may conclude from a response.
  \<^item> \<open>Matcher_Loop\<close>: \<open>consumer_loop.go\<close>, \<open>book_recovery.go\<close> and \<open>redisstream/consumer.go\<close>. \<open>Matcher_Safety\<close>: atomicity and
    idempotency of a batch (locale \<open>batch_relation\<close>) and the hazards of recovery. \<open>Matcher_Conservation\<close>: what settlement
    does to the sum of all wallets (locale \<open>ledger\<close>, interpreted for money and for Vibranium), the schema's
    invariant under a batch, correctness of recovery. \<open>Matcher_Exact\<close>: that no arithmetic of a batch wraps.
    \<open>Book_Sides\<close> and \<open>Matcher_Provenance\<close> follow an order from its event to the book and to the trades made of it (locale
    \<open>order_law\<close>, interpreted for the orders that were placed): who traded, within which quantities and limits.
  \<^item> \<open>Outbox_Publisher\<close>: \<open>publisher_loop.go\<close> and \<open>redisstream/producer.go\<close>.
  \<^item> \<open>Go_Json\<close>: \<open>encoding/json\<close> as the program uses it, on bytes: printing with the escapes of \<open>Marshal\<close>, UTF-8, the
    scanner with its number grammar and nesting limit, decoding into a struct. What is printed is read back.
    \<open>Event_Json\<close>: the JSON of \<open>orders.StreamEvent\<close> and of the publisher's \<open>traceCarrier\<close>, through a JSONB column.
    \<open>Http_Json\<close>: the JSON of \<open>dto.go\<close>, the decoder of the handlers, \<open>writeJSON\<close>, and the request log of \<open>middleware.go\<close>.
  \<^item> \<open>System\<close>: the API, the publisher and the matcher as one step relation over tables, stream and the matcher's memory;
    a step is a request, a fetched batch, one published event, one processed batch, a recovery, a start or a
    crash, with any faults. \<open>System_Invariant\<close>: what every step keeps. \<open>System_Runs\<close>: the loops of the services are made
    of these steps. \<open>System_Scenario\<close>: a concrete run from two requests to a trade. \<open>System_Properties\<close>: the consequences.
  \<^item> \<open>Matcher_Termination\<close>: every loop of the matcher returns once the context is cancelled.
  \<^item> \<open>Service_Config\<close>: \<open>platform/config\<close> and the pure part of \<open>platform/telemetry\<close>. \<open>Service_Boot\<close>: the commands and the
    set-up they call, with every way a process can end. \<open>Service_Properties\<close>: configuration, shutdown, first start.
  \<^item> This theory: properties of the publisher and the matcher together.

  \<^bold>\<open>What is shown.\<close> Matching terminates on every well-formed book, follows price-time priority, conserves quantity,
  respects limits and funds and leaves the book uncrossed. The book refines a pair of priority lists. Placing an
  order reserves, records and queues it, or changes nothing. The publisher marks only what it sent, in order. A
  batch is atomic, is applied at most once per entry id, and conserves money and Vibranium, modulo 2^64 in any case and exactly when
  totals and order costs are \<open>int64\<close>. Recovery rebuilds
  the book the order rows describe. Following the cursors of the trade list visits every trade once, in the order of
  one unbounded query. A 4xx response means that nothing changed, a 202 that an order within the engine's bounds
  was recorded, and a GET changes nothing. A process asked to stop ends.

  For the whole system, in every state reachable from a seeded database by any interleaving of the three processes,
  with faults, lost acknowledgements, redelivery, crashes and restarts: the sums over all wallets are what they were;
  every trade is between a BUY and a SELL order of the table and their owners, within both quantities and limits;
  order rows, outbox events and stream entries agree; no history is lost; and every order can reach the stream.
  Events, requests and responses survive their JSON; a decoded number never wraps.

  Several theorems exhibit behaviour the code does not mean to have: reservations count twice against the available
  balance; negative funds yield a trade of negative quantity, which stops the matcher; an order can rest twice
  after recovery or after a failed commit of the publisher; recovery can end with a book still marked as
  diverged; orders published before the matcher's first start are never matched; a MARKET order with a price is
  answered as an internal error; an unchecked poll interval makes the publisher panic.

  \<^bold>\<open>Parameters and bounds.\<close> Everything outside the repository is an argument: which statements and commits fail
  (a commit may also take effect and report failure), clock readings, drawn ids, the order of a scan,
  rows held by other sessions, the replies of Redis, cancellation, the validator, path matching, \<open>google/uuid\<close>, the
  process environment, whether a connection can be set up. Integers are \<open>int\<close> reduced to 64 bits after
  every operation. Loops that need not end are partial functions whose value is then \<open>None\<close>; for \<open>Match\<close>
  and, after cancellation, for the loops of the matcher and the publisher the value is shown to be \<open>Some\<close>. The JSON
  scanner counts its calls down from twice the length of the text plus one, and more does not change its result; values nested
  deeper than 10000 are refused, as in Go. The theories of one process take the event codec as a parameter; the
  system theorems use \<open>MarshalEvent\<close> and \<open>UnmarshalEvent\<close> and rely on these documented facts: a JSONB column keeps the members of a
  flat object, the text of an id parses back and is ASCII, a scan returns the rows, the validator enforces its tags,
  and Redis hands out entries that were added. Transactions of different processes are taken to be serial.

  \<^bold>\<open>Not modelled.\<close> Spans and log lines, which no decision depends on, except the line of each request; floating-point
  parsing; the accept loop and the shutdown deadline of \<open>net/http\<close>. Requests of different
  clients and the transactions of the three processes are taken one after the other.
\<close>

section \<open>Publisher and matcher together\<close>

text \<open>The messages the matcher reads for entries of the stream.\<close>

definition message_of_entry :: "StreamEntry \<Rightarrow> XMessage" where
  "message_of_entry se = \<lparr>xm_ID = se_ID se, xm_Payload = Some (se_Payload se)\<rparr>"

text \<open>A publisher whose transaction for order 7 fails to commit (interaction 17) after its \<open>XADD\<close>.\<close>

definition failing_commit_env :: PEnv where
  "failing_commit_env = publisher_env\<lparr>pe_env := quiet_env\<lparr>e_fault := (\<lambda>n. if n = 17 then Fails else Works)\<rparr>\<rparr>"

definition one_event_world :: PWorld where
  "one_event_world = publisher_world\<lparr>w_db := sample_db\<lparr>db_outboxSeq := 2, db_outbox :=
       [\<lparr>ob_ID = 1, ob_StreamName = ''orders'', ob_Payload = ''new 7'', ob_Published = False\<rparr>]\<rparr>\<rparr>"


end
